(* ===== verification/Iouring_Prelude.thy ===== *)
theory Iouring_Prelude
  imports Main "HOL-Library.Word"
begin

text \<open>
  What every component shares: the machine integers of the C++ code as words, the outcome of a
  call that may fail an \<open>assert\<close>, call \<open>abort\<close> or run into undefined behaviour, the bytes
  of an integer as a little-endian host stores them, and the lemma collections the component
  theories add to.

  \<^item> \<open>outcome\<close>: \<open>Inl\<close> is a fault that ends the process, \<open>Inr\<close> a normal return.
    Assertions are those of a build without \<open>NDEBUG\<close>, which is the build the unit tests use.
  \<^item> \<open>le_bytes\<close> and \<open>le_word\<close>: the object representation of an unsigned integer and the
    integer read back from it; \<open>bswap16\<close> and \<open>bswap32\<close> are \<open>htons\<close>/\<open>ntohs\<close> and
    \<open>htonl\<close>/\<open>ntohl\<close> of such a host.
  \<^item> \<open>outcome_simps\<close>, \<open>byte_simps\<close>: rewriting of outcomes and of byte sequences.
\<close>

unbundle bit_operations_syntax

named_theorems outcome_simps \<open>unfolding of the outcome combinators\<close>
named_theorems byte_simps \<open>byte sequences of integers and addresses\<close>

section \<open>Machine integers\<close>

type_synonym u8 = "8 word"
type_synonym u16 = "16 word"
type_synonym u32 = "32 word"
type_synonym u64 = "64 word"
type_synonym bytes = "8 word list"

lemma unat_u8_less [simp]: "unat (b :: u8) < 256"
  using unsigned_less [of b] by simp

section \<open>Outcomes\<close>

text \<open>
  A fault carries the text of the failed condition, so that a theorem about an error path says
  which check of the source it is.
\<close>

datatype fault =
    Assert_fail string
  | Abort_call string
  | Exit_call string
  | Bad_function_call
  | Undefined_behaviour string

type_synonym 'a outcome = "fault + 'a"

definition ebind :: "'a outcome \<Rightarrow> ('a \<Rightarrow> 'b outcome) \<Rightarrow> 'b outcome" where
  "ebind m f = (case m of Inl e \<Rightarrow> Inl e | Inr a \<Rightarrow> f a)"

definition assert_that :: "string \<Rightarrow> bool \<Rightarrow> unit outcome" where
  "assert_that what P = (if P then Inr () else Inl (Assert_fail what))"

lemma ebind_simps [simp]:
  "ebind (Inl e) f = Inl e"
  "ebind (Inr a) f = f a"
  by (simp_all add: ebind_def)

lemma ebind_eq_Inr [outcome_simps]:
  "ebind m f = Inr b \<longleftrightarrow> (\<exists>a. m = Inr a \<and> f a = Inr b)"
  by (cases m) auto

lemma ebind_eq_Inl [outcome_simps]:
  "ebind m f = Inl e \<longleftrightarrow> m = Inl e \<or> (\<exists>a. m = Inr a \<and> f a = Inl e)"
  by (cases m) auto

lemma ebind_assoc: "ebind (ebind m f) g = ebind m (\<lambda>a. ebind (f a) g)"
  by (cases m) auto

lemma ebindE:
  assumes "ebind m f = Inr b"
  obtains a where "m = Inr a" and "f a = Inr b"
  using assms by (auto simp: ebind_eq_Inr)

lemma assert_that_simps [simp]:
  "assert_that what True = Inr ()"
  "assert_that what False = Inl (Assert_fail what)"
  by (simp_all add: assert_that_def)

lemma assert_that_eq_Inr [outcome_simps]: "assert_that what P = Inr u \<longleftrightarrow> P"
  by (cases P) auto

lemma assert_that_eq_Inl [outcome_simps]:
  "assert_that what P = Inl e \<longleftrightarrow> \<not> P \<and> e = Assert_fail what"
  by (cases P) auto

section \<open>Integers as bytes\<close>

definition le_bytes :: "nat \<Rightarrow> 'a::len word \<Rightarrow> bytes" where
  "le_bytes n w = map (\<lambda>i. ucast (drop_bit (8 * i) w)) [0..<n]"

primrec le_word :: "bytes \<Rightarrow> 'a::len word" where
  "le_word [] = 0"
| "le_word (b # bs) = ucast b OR push_bit 8 (le_word bs)"

lemma length_le_bytes [simp]: "length (le_bytes n w) = n"
  by (simp add: le_bytes_def)

lemma bit_le_word:
  "bit (le_word bs :: 'a::len word) k \<longleftrightarrow>
     k < LENGTH('a) \<and> k div 8 < length bs \<and> bit (bs ! (k div 8)) (k mod 8)"
proof (induction bs arbitrary: k)
  case Nil
  then show ?case by simp
next
  case (Cons b bs)
  show ?case
  proof (cases "k < 8")
    case True
    then show ?thesis
      by (auto simp: bit_or_iff bit_push_bit_iff bit_ucast_iff dest: bit_imp_le_length)
  next
    case False
    then obtain j where k: "k = j + 8" by (metis add.commute le_Suc_ex not_less)
    have "\<not> bit (ucast b :: 'a word) k"
      using False by (auto simp: bit_ucast_iff dest: bit_imp_le_length)
    moreover have "k div 8 = Suc (j div 8)" and "k mod 8 = j mod 8"
      by (simp_all add: k)
    ultimately show ?thesis
      by (auto simp: bit_or_iff bit_push_bit_iff Cons.IH k)
  qed
qed

lemma le_word_le_bytes [byte_simps]:
  fixes w :: "'a::len word"
  assumes "LENGTH('a) = 8 * n"
  shows "le_word (le_bytes n w) = w"
proof (rule bit_word_eqI)
  fix k assume k: "k < LENGTH('a)"
  then have "k div 8 < n" and "k mod 8 < 8"
    using assms by auto
  then show "bit (le_word (le_bytes n w) :: 'a word) k = bit w k"
    using k by (simp add: bit_le_word le_bytes_def bit_ucast_iff bit_drop_bit_eq)
qed

lemma le_bytes_le_word [byte_simps]:
  assumes "length bs = n" and "8 * n \<le> LENGTH('a::len)"
  shows "le_bytes n (le_word bs :: 'a word) = bs"
proof (rule nth_equalityI)
  show "length (le_bytes n (le_word bs :: 'a word)) = length bs"
    using assms(1) by simp
  fix i assume "i < length (le_bytes n (le_word bs :: 'a word))"
  then have i: "i < n" by simp
  show "le_bytes n (le_word bs :: 'a word) ! i = bs ! i"
  proof (rule bit_word_eqI)
    fix j :: nat assume j: "j < LENGTH(8)"
    then have "8 * i + j < LENGTH('a)" using assms(2) i by simp
    moreover have "(8 * i + j) div 8 = i" and "(8 * i + j) mod 8 = j"
      using j by simp_all
    ultimately show "bit (le_bytes n (le_word bs :: 'a word) ! i) j = bit (bs ! i) j"
      using i j assms(1) by (simp add: le_bytes_def bit_ucast_iff bit_drop_bit_eq bit_le_word)
  qed
qed

definition bswap16 :: "u16 \<Rightarrow> u16" where
  "bswap16 w = le_word (rev (le_bytes 2 w))"

definition bswap32 :: "u32 \<Rightarrow> u32" where
  "bswap32 w = le_word (rev (le_bytes 4 w))"

lemma bswap16_bswap16 [simp]: "bswap16 (bswap16 w) = w"
  by (simp add: bswap16_def byte_simps)

lemma bswap32_bswap32 [simp]: "bswap32 (bswap32 w) = w"
  by (simp add: bswap32_def byte_simps)

lemma bswap16_inject [simp]: "bswap16 v = bswap16 w \<longleftrightarrow> v = w"
  by (metis bswap16_bswap16)

lemma le_bytes_bswap16 [byte_simps]: "le_bytes 2 (bswap16 w) = rev (le_bytes 2 w)"
  by (simp add: bswap16_def byte_simps)

lemma le_bytes_bswap32 [byte_simps]: "le_bytes 4 (bswap32 w) = rev (le_bytes 4 w)"
  by (simp add: bswap32_def byte_simps)

section \<open>Overwriting part of a byte array\<close>

text \<open>\<open>memcpy (&buf[at], data, len)\<close> and \<open>memset\<close> on an array the model keeps as a list.\<close>

definition overwrite :: "bytes \<Rightarrow> nat \<Rightarrow> bytes \<Rightarrow> bytes" where
  "overwrite buf at src = take at buf @ src @ drop (at + length src) buf"

lemma length_overwrite [simp]:
  "at + length src \<le> length buf \<Longrightarrow> length (overwrite buf at src) = length buf"
  by (simp add: overwrite_def)

lemma take_overwrite [simp]:
  "at + length src \<le> length buf \<Longrightarrow>
     take (at + length src) (overwrite buf at src) = take at buf @ src"
  by (simp add: overwrite_def)

lemma take_overwrite_before [simp]:
  "at + length src \<le> length buf \<Longrightarrow> n \<le> at \<Longrightarrow> take n (overwrite buf at src) = take n buf"
  by (simp add: overwrite_def)

lemma drop_overwrite [simp]:
  "at + length src \<le> length buf \<Longrightarrow>
     drop (at + length src) (overwrite buf at src) = drop (at + length src) buf"
  by (simp add: overwrite_def)

section \<open>Text as bytes\<close>

definition bytes_of_string :: "string \<Rightarrow> bytes" where
  "bytes_of_string s = map (\<lambda>c. word_of_nat (of_char c)) s"

lemma length_bytes_of_string [simp]: "length (bytes_of_string s) = length s"
  by (simp add: bytes_of_string_def)

end
