(* ===== verification/Linux_Abi.thy ===== *)
theory Linux_Abi
  imports Iouring_Prelude
begin

text \<open>
  The constants and structures of the C library and of the kernel interface that the source
  names but does not define: error numbers, address families, flag bits, the two socket address
  structures with their layout, and the enumerators of \<open>slogger\<close>'s \<open>error::Error\<close> the source
  uses. Values are those of Linux on x86-64. Address and port fields hold the integer as the
  little-endian host loads it, so a port in network order is \<open>htons\<close> of the port.

  \<^item> \<open>sockaddr_in_bytes\<close>/\<open>sockaddr_in_of_bytes\<close> (and the \<open>in6\<close> pair): the object
    representation of an address and the struct a reinterpreting cast reads from storage; the
    lemmas are the round trips.
  \<^item> \<open>c_str\<close>: the characters a C function sees of a \<open>std::string\<close>.
\<close>

section \<open>Constants\<close>

abbreviation EINTR :: int where "EINTR \<equiv> 4"
abbreviation EAGAIN :: int where "EAGAIN \<equiv> 11"
abbreviation EFAULT :: int where "EFAULT \<equiv> 14"
abbreviation EINVAL :: int where "EINVAL \<equiv> 22"
abbreviation ECONNRESET :: int where "ECONNRESET \<equiv> 104"
abbreviation ENOBUFS :: int where "ENOBUFS \<equiv> 105"

text \<open>\<open>EAI_INTR\<close> of \<open>netdb.h\<close> is an error of \<open>getaddrinfo\<close>, not a negated \<open>errno\<close>.\<close>

abbreviation EAI_INTR :: int where "EAI_INTR \<equiv> - 104"

abbreviation AF_INET :: u16 where "AF_INET \<equiv> 2"
abbreviation AF_INET6 :: u16 where "AF_INET6 \<equiv> 10"
abbreviation AF_PACKET :: u16 where "AF_PACKET \<equiv> 17"

abbreviation SOCK_STREAM :: int where "SOCK_STREAM \<equiv> 1"
abbreviation SOCK_DGRAM :: int where "SOCK_DGRAM \<equiv> 2"
abbreviation SOL_SOCKET :: int where "SOL_SOCKET \<equiv> 1"
abbreviation SO_REUSEADDR :: int where "SO_REUSEADDR \<equiv> 2"
abbreviation SO_REUSEPORT :: int where "SO_REUSEPORT \<equiv> 15"
abbreviation IPPROTO_IP :: int where "IPPROTO_IP \<equiv> 0"
abbreviation IP_TOS :: int where "IP_TOS \<equiv> 1"
abbreviation IP_TTL :: int where "IP_TTL \<equiv> 2"
abbreviation IP_MULTICAST_IF :: int where "IP_MULTICAST_IF \<equiv> 32"
abbreviation IP_MULTICAST_TTL :: int where "IP_MULTICAST_TTL \<equiv> 33"
abbreviation IP_MULTICAST_LOOP :: int where "IP_MULTICAST_LOOP \<equiv> 34"
abbreviation IP_ADD_MEMBERSHIP :: int where "IP_ADD_MEMBERSHIP \<equiv> 35"
abbreviation IP_DROP_MEMBERSHIP :: int where "IP_DROP_MEMBERSHIP \<equiv> 36"

abbreviation IORING_CQE_F_BUFFER :: u32 where "IORING_CQE_F_BUFFER \<equiv> 1"
abbreviation IORING_CQE_F_MORE :: u32 where "IORING_CQE_F_MORE \<equiv> 2"
abbreviation IOSQE_IO_LINK :: u8 where "IOSQE_IO_LINK \<equiv> 4"
abbreviation IOSQE_BUFFER_SELECT :: u8 where "IOSQE_BUFFER_SELECT \<equiv> 32"
abbreviation MSG_TRUNC :: u32 where "MSG_TRUNC \<equiv> 32"

section \<open>Error codes of the logging library\<close>

text \<open>
  \<open>slogger/Error.hpp\<close> is in a submodule: its enumerators that the source names, and one
  constructor for the rest, which only \<open>errno_to_error\<close>, a parameter of the model, returns.
\<close>

datatype error_code =
    Error_OK
  | Error_UNKNOWN
  | Error_MMAP_FAILED
  | Error_HOSTNAME_RESOLVE_FAILED
  | Error_other nat

section \<open>Socket addresses\<close>

record sockaddr_in =
  sin_family :: u16
  sin_port :: u16
  sin_addr :: u32
  sin_zero :: u64

type_synonym in6_addr = "u32 \<times> u32 \<times> u32 \<times> u32"

record sockaddr_in6 =
  sin6_family :: u16
  sin6_port :: u16
  sin6_flowinfo :: u32
  sin6_addr :: in6_addr
  sin6_scope_id :: u32

definition sizeof_sockaddr_in :: nat where "sizeof_sockaddr_in = 16"
definition sizeof_sockaddr_in6 :: nat where "sizeof_sockaddr_in6 = 28"
definition sizeof_sockaddr_storage :: nat where "sizeof_sockaddr_storage = 128"

lemmas sizeof_simps [simp] =
  sizeof_sockaddr_in_def sizeof_sockaddr_in6_def sizeof_sockaddr_storage_def

definition sockaddr_in_bytes :: "sockaddr_in \<Rightarrow> bytes" where
  "sockaddr_in_bytes s =
     le_bytes 2 (sin_family s) @ le_bytes 2 (sin_port s) @ le_bytes 4 (sin_addr s) @
     le_bytes 8 (sin_zero s)"

definition sockaddr_in_of_bytes :: "bytes \<Rightarrow> sockaddr_in" where
  "sockaddr_in_of_bytes bs =
     \<lparr>sin_family = le_word (take 2 bs), sin_port = le_word (take 2 (drop 2 bs)),
      sin_addr = le_word (take 4 (drop 4 bs)), sin_zero = le_word (take 8 (drop 8 bs))\<rparr>"

definition in6_addr_bytes :: "in6_addr \<Rightarrow> bytes" where
  "in6_addr_bytes a =
     (case a of (a0, a1, a2, a3) \<Rightarrow> le_bytes 4 a0 @ le_bytes 4 a1 @ le_bytes 4 a2 @ le_bytes 4 a3)"

definition in6_addr_of_bytes :: "bytes \<Rightarrow> in6_addr" where
  "in6_addr_of_bytes bs =
     (le_word (take 4 bs), le_word (take 4 (drop 4 bs)), le_word (take 4 (drop 8 bs)),
      le_word (take 4 (drop 12 bs)))"

definition sockaddr_in6_bytes :: "sockaddr_in6 \<Rightarrow> bytes" where
  "sockaddr_in6_bytes s =
     le_bytes 2 (sin6_family s) @ le_bytes 2 (sin6_port s) @ le_bytes 4 (sin6_flowinfo s) @
     in6_addr_bytes (sin6_addr s) @ le_bytes 4 (sin6_scope_id s)"

definition sockaddr_in6_of_bytes :: "bytes \<Rightarrow> sockaddr_in6" where
  "sockaddr_in6_of_bytes bs =
     \<lparr>sin6_family = le_word (take 2 bs), sin6_port = le_word (take 2 (drop 2 bs)),
      sin6_flowinfo = le_word (take 4 (drop 4 bs)),
      sin6_addr = in6_addr_of_bytes (take 16 (drop 8 bs)),
      sin6_scope_id = le_word (take 4 (drop 24 bs))\<rparr>"

lemma length_sockaddr_in_bytes [simp]: "length (sockaddr_in_bytes s) = 16"
  by (simp add: sockaddr_in_bytes_def)

lemma length_in6_addr_bytes [simp]: "length (in6_addr_bytes a) = 16"
  by (simp add: in6_addr_bytes_def split: prod.splits)

lemma length_sockaddr_in6_bytes [simp]: "length (sockaddr_in6_bytes s) = 28"
  by (simp add: sockaddr_in6_bytes_def)

lemma sockaddr_in_round_trip [byte_simps]:
  "sockaddr_in_of_bytes (sockaddr_in_bytes s @ rest) = s"
  by (simp add: sockaddr_in_of_bytes_def sockaddr_in_bytes_def byte_simps)

lemma in6_addr_round_trip [byte_simps]: "in6_addr_of_bytes (in6_addr_bytes a) = a"
  by (simp add: in6_addr_of_bytes_def in6_addr_bytes_def byte_simps split: prod.splits)

lemma sockaddr_in6_round_trip [byte_simps]:
  "sockaddr_in6_of_bytes (sockaddr_in6_bytes s @ rest) = s"
  by (simp add: sockaddr_in6_of_bytes_def sockaddr_in6_bytes_def byte_simps)

lemmas sockaddr_round_trips [byte_simps] =
  sockaddr_in_round_trip [of _ "[]", simplified]
  sockaddr_in6_round_trip [of _ "[]", simplified]

lemma in6_addr_bytes_inject [simp]: "in6_addr_bytes a = in6_addr_bytes b \<longleftrightarrow> a = b"
  by (metis in6_addr_round_trip)

lemma le_bytes_inject:
  fixes v w :: "'a::len word"
  assumes "LENGTH('a) = 8 * n"
  shows "le_bytes n v = le_bytes n w \<longleftrightarrow> v = w"
  by (metis le_word_le_bytes [OF assms])

text \<open>
  \<open>memset(&sa, 0, n)\<close> on a structure of either kind: the first \<open>n\<close> bytes of its
  representation become 0.
\<close>

definition memset_sockaddr_in :: "nat \<Rightarrow> sockaddr_in \<Rightarrow> sockaddr_in" where
  "memset_sockaddr_in n s =
     sockaddr_in_of_bytes (overwrite (sockaddr_in_bytes s) 0 (replicate n 0))"

definition memset_sockaddr_in6 :: "nat \<Rightarrow> sockaddr_in6 \<Rightarrow> sockaddr_in6" where
  "memset_sockaddr_in6 n s =
     sockaddr_in6_of_bytes (overwrite (sockaddr_in6_bytes s) 0 (replicate n 0))"

lemma le_word_replicate_0 [simp]: "le_word (replicate n 0) = 0"
  by (induction n) simp_all

lemma memset_sockaddr_in_4 [simp]:
  "memset_sockaddr_in 4 s = s\<lparr>sin_family := 0, sin_port := 0\<rparr>"
  by (simp add: memset_sockaddr_in_def overwrite_def sockaddr_in_of_bytes_def
      sockaddr_in_bytes_def byte_simps take_replicate drop_replicate)

lemma memset_sockaddr_in_16 [simp]:
  "memset_sockaddr_in 16 s = \<lparr>sin_family = 0, sin_port = 0, sin_addr = 0, sin_zero = 0\<rparr>"
  by (simp add: memset_sockaddr_in_def overwrite_def sockaddr_in_of_bytes_def
      take_replicate drop_replicate)

lemma memset_sockaddr_in6_16_flowinfo [simp]:
  "sin6_flowinfo (memset_sockaddr_in6 16 s) = 0"
  "sin6_scope_id (memset_sockaddr_in6 16 s) = sin6_scope_id s"
  by (simp_all add: memset_sockaddr_in6_def overwrite_def sockaddr_in6_of_bytes_def
      sockaddr_in6_bytes_def byte_simps take_replicate drop_replicate)

section \<open>C strings\<close>

definition c_str :: "string \<Rightarrow> string" where
  "c_str s = takeWhile (\<lambda>c. c \<noteq> CHR 0x00) s"

end
