(* ===== verification/Inet_Text.thy ===== *)
theory Inet_Text
  imports Linux_Abi
begin

text \<open>
  The text form of IPv4 addresses as \<open>inet_ntop\<close> prints and \<open>inet_pton\<close> reads it (C library
  functions the address class is built on), over characters. The reader is the usual
  character-by-character scan: at most three digits per octet, no leading zero, values up to
  255, exactly four octets. The IPv6 pair is a parameter of the model wherever it is used.

  \<^item> \<open>inet_pton4_ntop4\<close>: what is printed is read back.
  \<^item> \<open>strip_suffix32\<close>: the \<open>"/32"\<close> handling of \<open>string_to_ipv4_address\<close>.
\<close>

section \<open>Decimal numbers\<close>

fun nat_dec :: "nat \<Rightarrow> string" where
  "nat_dec n =
     (if n < 10 then [char_of (48 + n)] else nat_dec (n div 10) @ [char_of (48 + n mod 10)])"

declare nat_dec.simps [simp del]

definition is_digit :: "char \<Rightarrow> bool" where
  "is_digit c \<longleftrightarrow> 48 \<le> (of_char c :: nat) \<and> (of_char c :: nat) \<le> 57"

definition digit_val :: "char \<Rightarrow> nat" where
  "digit_val c = of_char c - 48"

lemma digit_char [simp]:
  "d < 10 \<Longrightarrow> is_digit (char_of (48 + d))"
  "d < 10 \<Longrightarrow> digit_val (char_of (48 + d)) = d"
  by (simp_all add: is_digit_def digit_val_def of_char_of)

lemma dot_no_digit [simp]: "\<not> is_digit (CHR ''.'')"
  by (simp add: is_digit_def)

lemma nat_dec_digits: "c \<in> set (nat_dec n) \<Longrightarrow> is_digit c"
proof (induction n rule: nat_dec.induct)
  case (1 n)
  then show ?case
    by (cases "n < 10") (auto simp: nat_dec.simps [of n])
qed

lemma nat_dec_nonempty [simp]: "nat_dec n \<noteq> []"
  by (subst nat_dec.simps) simp

section \<open>Dotted decimal\<close>

definition ipv4_text :: "u32 \<Rightarrow> string" where
  "ipv4_text a =
     (case map unat (le_bytes 4 a) of
        [o0, o1, o2, o3] \<Rightarrow>
          nat_dec o0 @ ''.'' @ nat_dec o1 @ ''.'' @ nat_dec o2 @ ''.'' @ nat_dec o3
      | _ \<Rightarrow> [])"

text \<open>\<open>inet_ntop (AF_INET, addr, buf, size)\<close>: null when the text and its NUL do not fit.\<close>

definition inet_ntop4 :: "u32 \<Rightarrow> nat \<Rightarrow> string option" where
  "inet_ntop4 a sz = (if length (ipv4_text a) < sz then Some (ipv4_text a) else None)"

fun pton4_scan :: "string \<Rightarrow> nat list \<Rightarrow> nat option \<Rightarrow> nat list option" where
  "pton4_scan [] done cur =
     (case cur of
        None \<Rightarrow> None
      | Some n \<Rightarrow> if length done = 3 then Some (done @ [n]) else None)"
| "pton4_scan (c # cs) done cur =
     (if is_digit c then
        (case cur of
           None \<Rightarrow> pton4_scan cs done (Some (digit_val c))
         | Some n \<Rightarrow>
             if n = 0 \<or> 255 < n * 10 + digit_val c then None
             else pton4_scan cs done (Some (n * 10 + digit_val c)))
      else if c = CHR ''.'' then
        (case cur of
           None \<Rightarrow> None
         | Some n \<Rightarrow> if length done = 3 then None else pton4_scan cs (done @ [n]) None)
      else None)"

definition inet_pton4 :: "string \<Rightarrow> u32 option" where
  "inet_pton4 s = map_option (\<lambda>os. le_word (map word_of_nat os)) (pton4_scan (c_str s) [] None)"

lemma nat_dec_digit: "d < 10 \<Longrightarrow> nat_dec d = [char_of (48 + d)]"
  by (simp add: nat_dec.simps [of d])

lemma nat_dec_snoc:
  "0 < q \<Longrightarrow> d < 10 \<Longrightarrow> nat_dec (q * 10 + d) = nat_dec q @ [char_of (48 + d)]"
  by (simp add: nat_dec.simps [of "q * 10 + d"])

lemma scan_nat_dec:
  assumes "n < 256"
  shows "pton4_scan (nat_dec n @ rest) done None = pton4_scan rest done (Some n)"
proof -
  obtain q d where n: "n = q * 10 + d" and d: "d < 10" and q: "q < 26"
  proof -
    have "n = n div 10 * 10 + n mod 10" and "n mod 10 < 10" and "n div 10 < 26"
      using assms by simp_all
    then show thesis using that by blast
  qed
  obtain q1 d1 where q1: "q = q1 * 10 + d1" and d1: "d1 < 10" and "q1 < 10"
  proof -
    have "q = q div 10 * 10 + q mod 10" and "q mod 10 < 10" and "q div 10 < 10"
      using q by simp_all
    then show thesis using that by blast
  qed
  consider "q = 0" | "q \<noteq> 0" "q1 = 0" | "q1 \<noteq> 0" by blast
  then show ?thesis
  proof cases
    case 1
    then show ?thesis using d by (simp add: n nat_dec_digit)
  next
    case 2
    then show ?thesis using d d1 q1 assms by (simp add: n nat_dec_snoc nat_dec_digit)
  next
    case 3
    then have "q \<noteq> 0" by (simp add: q1)
    then have "nat_dec n = nat_dec q @ [char_of (48 + d)]"
      using nat_dec_snoc d n by simp
    also have "nat_dec q = [char_of (48 + q1), char_of (48 + d1)]"
      using nat_dec_snoc [of q1 d1] 3 d1 q1 \<open>q1 < 10\<close> by (simp add: nat_dec_digit)
    finally show ?thesis
      using d d1 \<open>q1 < 10\<close> q 3 \<open>q \<noteq> 0\<close> assms by (simp add: q1 [symmetric] n [symmetric])
  qed
qed

lemma length_nat_dec:
  assumes "n < 256"
  shows "length (nat_dec n) \<le> 3"
proof -
  have "n div 10 < 100" and "n div 10 div 10 < 10" using assms by auto
  then show ?thesis
    by (simp add: nat_dec.simps [of n] nat_dec.simps [of "n div 10"]
        nat_dec.simps [of "n div 10 div 10"])
qed

lemma no_nul_nat_dec: "CHR 0x00 \<notin> set (nat_dec n)"
  using nat_dec_digits [of "CHR 0x00" n] by (auto simp: is_digit_def)

lemma le_bytes_4_cases:
  obtains b0 b1 b2 b3 where "le_bytes 4 (a :: u32) = [b0, b1, b2, b3]"
  using length_le_bytes [of 4 a]
  by (auto simp: numeral_eq_Suc length_Suc_conv simp del: length_le_bytes)

lemma length_ipv4_text: "length (ipv4_text a) < 16"
proof -
  obtain b0 b1 b2 b3 where "le_bytes 4 a = [b0, b1, b2, b3]" by (rule le_bytes_4_cases)
  then have "length (ipv4_text a) = 3 + length (nat_dec (unat b0)) + length (nat_dec (unat b1))
      + length (nat_dec (unat b2)) + length (nat_dec (unat b3))"
    by (simp add: ipv4_text_def)
  then show ?thesis
    using length_nat_dec [OF unat_u8_less, of b0] length_nat_dec [OF unat_u8_less, of b1]
      length_nat_dec [OF unat_u8_less, of b2] length_nat_dec [OF unat_u8_less, of b3] by linarith
qed

lemma c_str_id: "CHR 0x00 \<notin> set s \<Longrightarrow> c_str s = s"
  by (auto simp: c_str_def takeWhile_eq_all_conv)

lemma c_str_ipv4_text [simp]: "c_str (ipv4_text a) = ipv4_text a"
proof -
  obtain b0 b1 b2 b3 where "le_bytes 4 a = [b0, b1, b2, b3]" by (rule le_bytes_4_cases)
  then show ?thesis
    by (intro c_str_id) (simp add: ipv4_text_def no_nul_nat_dec)
qed

lemma inet_ntop4_fits: "16 \<le> sz \<Longrightarrow> inet_ntop4 a sz = Some (ipv4_text a)"
  using length_ipv4_text [of a] by (simp add: inet_ntop4_def)

lemma inet_pton4_ntop4: "inet_pton4 (ipv4_text a) = Some a"
proof -
  obtain b0 b1 b2 b3 where b: "le_bytes 4 a = [b0, b1, b2, b3]" by (rule le_bytes_4_cases)
  then have "pton4_scan (ipv4_text a) [] None = Some (map unat (le_bytes 4 a))"
    using scan_nat_dec [OF unat_u8_less, of b3 "[]"]
    by (simp add: ipv4_text_def scan_nat_dec)
  moreover have "map word_of_nat (map unat (le_bytes 4 a)) = le_bytes 4 a"
    by (simp add: b)
  ultimately show ?thesis
    by (simp add: inet_pton4_def le_word_le_bytes del: map_map)
qed

section \<open>The suffix of a host route\<close>

text \<open>\<open>StringUtils::ends_with\<close> and the \<open>substr\<close> of \<open>string_to_ipv4_address\<close>.\<close>

definition ends_with :: "string \<Rightarrow> string \<Rightarrow> bool" where
  "ends_with s suf \<longleftrightarrow> length suf \<le> length s \<and> drop (length s - length suf) s = suf"

definition strip_suffix32 :: "string \<Rightarrow> string" where
  "strip_suffix32 s = (if ends_with s ''/32'' then take (length s - 3) s else s)"

lemma strip_suffix32_append [simp]: "strip_suffix32 (s @ ''/32'') = s"
  by (simp add: strip_suffix32_def ends_with_def)

lemma strip_suffix32_no_slash: "CHR ''/'' \<notin> set s \<Longrightarrow> strip_suffix32 s = s"
proof -
  assume "CHR ''/'' \<notin> set s"
  then have "CHR ''/'' \<notin> set (drop (length s - 3) s)" by (auto dest: in_set_dropD)
  then have "\<not> ends_with s ''/32''" by (auto simp: ends_with_def numeral_3_eq_3)
  then show ?thesis by (simp add: strip_suffix32_def)
qed

lemma ipv4_text_chars: "c \<in> set (ipv4_text a) \<Longrightarrow> is_digit c \<or> c = CHR ''.''"
proof -
  assume c: "c \<in> set (ipv4_text a)"
  obtain b0 b1 b2 b3 where "le_bytes 4 a = [b0, b1, b2, b3]" by (rule le_bytes_4_cases)
  then show ?thesis using c nat_dec_digits [of c] by (auto simp: ipv4_text_def)
qed

lemma ipv4_text_no_slash: "CHR ''/'' \<notin> set (ipv4_text a)"
  using ipv4_text_chars [of "CHR ''/''" a] by (auto simp: is_digit_def)

lemma ipv4_text_no_option: "ipv4_text a \<noteq> CHR ''-'' # s"
  using ipv4_text_chars [of "CHR ''-''" a] by (auto simp: is_digit_def)

end
