(* ===== verification/Ip_Address.thy ===== *)
theory Ip_Address
  imports Inet_Text
begin

text \<open>
  \<open>include/iuring/IPAddress.hpp\<close> and \<open>src/IPAddress.cpp\<close>: an IPv4 or IPv6 socket address as
  two optionals, of which the constructors are meant to set one. A local \<open>sockaddr_in\<close> that
  the code clears only in part is an argument named \<open>raw\<close> here: the indeterminate contents of
  that stack slot. \<open>ntop6\<close> and \<open>pton6\<close> stand for \<open>inet_ntop\<close>/\<open>inet_pton\<close> on \<open>AF_INET6\<close>.

  \<^item> \<open>single_family\<close>: at most one of the optionals is set; every constructor but the one from
    \<open>sockaddr_storage\<close> gives it, and it is what makes \<open>operator==\<close> transitive.
  \<^item> \<open>ip_typed\<close>: one optional is set and its family field names it. The property of this type
    says who makes such values and that no accessor aborts on one.
  \<^item> the lemmas give ports, text and the comparison operators their meaning.
\<close>

section \<open>Ports\<close>

type_synonym socket_port_id = u16

definition SSH_PORT :: socket_port_id where "SSH_PORT = 22"
definition UNENCRYPTED_WEB_PORT :: socket_port_id where "UNENCRYPTED_WEB_PORT = 80"
definition PTP_PORT_EVENT :: socket_port_id where "PTP_PORT_EVENT = 319"
definition PTP_PORT_GENERAL :: socket_port_id where "PTP_PORT_GENERAL = 320"
definition ENCRYPTED_WEB_PORT :: socket_port_id where "ENCRYPTED_WEB_PORT = 443"
definition RTSP_PORT :: socket_port_id where "RTSP_PORT = 554"
definition LAST_PRIVILEDGED_PORT_ID :: socket_port_id where "LAST_PRIVILEDGED_PORT_ID = 1024"
definition RTP_AUDIO_PORT :: socket_port_id where "RTP_AUDIO_PORT = 5004"
definition MDNS_PORT :: socket_port_id where "MDNS_PORT = 5353"
definition LOCAL_WEB_PORT :: socket_port_id where "LOCAL_WEB_PORT = 8443"
definition SAP_PORT_EVENT :: socket_port_id where "SAP_PORT_EVENT = 9875"
definition UNKNOWN_PORT :: socket_port_id where "UNKNOWN_PORT = 0xffff"

section \<open>The address\<close>

record ip_address =
  m_in4 :: "sockaddr_in option"
  m_in6 :: "sockaddr_in6 option"

definition ip_default :: ip_address where
  "ip_default = \<lparr>m_in4 = None, m_in6 = None\<rparr>"

text \<open>The two constructors from an address and a port. Note the size given to \<open>memset\<close>.\<close>

definition ip_of_in_addr :: "sockaddr_in \<Rightarrow> u32 \<Rightarrow> socket_port_id \<Rightarrow> ip_address" where
  "ip_of_in_addr raw sa port =
     (let sa_in = memset_sockaddr_in 4 raw;
          sa_in = sa_in\<lparr>sin_family := AF_INET, sin_port := bswap16 port, sin_addr := sa\<rparr>
      in ip_default\<lparr>m_in4 := Some sa_in\<rparr>)"

definition ip_of_in6_addr :: "sockaddr_in6 \<Rightarrow> in6_addr \<Rightarrow> socket_port_id \<Rightarrow> ip_address" where
  "ip_of_in6_addr raw sa port =
     (let sa_in = memset_sockaddr_in6 16 raw;
          sa_in = sa_in\<lparr>sin6_family := AF_INET6, sin6_port := bswap16 port, sin6_addr := sa\<rparr>
      in ip_default\<lparr>m_in6 := Some sa_in\<rparr>)"

definition ip_of_sockaddr_in :: "sockaddr_in \<Rightarrow> ip_address" where
  "ip_of_sockaddr_in sa = ip_default\<lparr>m_in4 := Some sa\<rparr>"

definition ip_of_sockaddr_in6 :: "sockaddr_in6 \<Rightarrow> ip_address" where
  "ip_of_sockaddr_in6 sa = ip_default\<lparr>m_in6 := Some sa\<rparr>"

text \<open>
  The constructor from \<open>sockaddr_storage\<close>, with its two conditional initialisers as written
  and the assertion its body makes afterwards.
\<close>

definition ip_of_storage :: "bytes \<Rightarrow> u32 \<Rightarrow> ip_address outcome" where
  "ip_of_storage sa len =
     (let in4 = (if unat len = sizeof_sockaddr_in then None else Some (sockaddr_in_of_bytes sa));
          in6 = (if unat len = sizeof_sockaddr_in6 then None else Some (sockaddr_in6_of_bytes sa))
      in ebind (assert_that ''(len == sizeof(sockaddr_in)) || (len == sizeof(sockaddr_in6))''
           (unat len = sizeof_sockaddr_in \<or> unat len = sizeof_sockaddr_in6))
         (\<lambda>_. Inr \<lparr>m_in4 = in4, m_in6 = in6\<rparr>))"

definition get_ipv4 :: "ip_address \<Rightarrow> sockaddr_in option" where
  "get_ipv4 a = (case m_in4 a of Some v \<Rightarrow> Some v | None \<Rightarrow> None)"

definition get_ipv6 :: "ip_address \<Rightarrow> sockaddr_in6 option" where
  "get_ipv6 a = (case m_in6 a of Some v \<Rightarrow> Some v | None \<Rightarrow> None)"

lemma get_ip_simps [simp]: "get_ipv4 a = m_in4 a" "get_ipv6 a = m_in6 a"
  by (simp_all add: get_ipv4_def get_ipv6_def split: option.splits)

definition get_mut_ipv4 :: "ip_address \<Rightarrow> sockaddr_in option" where
  "get_mut_ipv4 a = (case m_in4 a of Some v \<Rightarrow> Some v | None \<Rightarrow> None)"

definition get_mut_ipv6 :: "ip_address \<Rightarrow> sockaddr_in6 option" where
  "get_mut_ipv6 a = (case m_in6 a of Some v \<Rightarrow> Some v | None \<Rightarrow> None)"

lemma get_mut_ip_simps [simp]: "get_mut_ipv4 a = m_in4 a" "get_mut_ipv6 a = m_in6 a"
  by (simp_all add: get_mut_ipv4_def get_mut_ipv6_def split: option.splits)

definition ip_set_port :: "socket_port_id \<Rightarrow> ip_address \<Rightarrow> ip_address outcome" where
  "ip_set_port port a =
     (case get_mut_ipv4 a of
        Some v \<Rightarrow> Inr (a\<lparr>m_in4 := Some (v\<lparr>sin_port := bswap16 port\<rparr>)\<rparr>)
      | None \<Rightarrow>
         (case get_mut_ipv6 a of
            Some v \<Rightarrow> Inr (a\<lparr>m_in6 := Some (v\<lparr>sin6_port := bswap16 port\<rparr>)\<rparr>)
          | None \<Rightarrow> Inl (Abort_call ''set_port'')))"

definition ip_get_port :: "ip_address \<Rightarrow> socket_port_id outcome" where
  "ip_get_port a =
     (case get_ipv4 a of
        Some v \<Rightarrow> Inr (bswap16 (sin_port v))
      | None \<Rightarrow>
         (case get_ipv6 a of
            Some v \<Rightarrow> Inr (bswap16 (sin6_port v))
          | None \<Rightarrow> Inl (Abort_call ''get_port'')))"

definition ip_valid :: "ip_address \<Rightarrow> bool" where
  "ip_valid a = (if get_ipv4 a \<noteq> None then True else if get_ipv6 a \<noteq> None then True else False)"

text \<open>
  \<open>data_sockaddr\<close>/\<open>size_sockaddr\<close> and \<open>data_addr\<close>/\<open>size_addr\<close>: the pointers as the bytes
  they point to.
\<close>

definition data_sockaddr :: "ip_address \<Rightarrow> bytes outcome" where
  "data_sockaddr a =
     (case get_ipv4 a of
        Some v \<Rightarrow> Inr (sockaddr_in_bytes v)
      | None \<Rightarrow>
         (case get_ipv6 a of
            Some v \<Rightarrow> Inr (sockaddr_in6_bytes v)
          | None \<Rightarrow> Inl (Abort_call ''data_sockaddr'')))"

definition size_sockaddr :: "ip_address \<Rightarrow> u32 outcome" where
  "size_sockaddr a =
     (case get_ipv4 a of
        Some v \<Rightarrow> Inr (word_of_nat sizeof_sockaddr_in)
      | None \<Rightarrow>
         (case get_ipv6 a of
            Some v \<Rightarrow> Inr (word_of_nat sizeof_sockaddr_in6)
          | None \<Rightarrow> Inl (Abort_call ''size_sockaddr'')))"

definition data_addr :: "ip_address \<Rightarrow> bytes outcome" where
  "data_addr a =
     (case get_ipv4 a of
        Some v \<Rightarrow> Inr (le_bytes 4 (sin_addr v))
      | None \<Rightarrow>
         (case get_ipv6 a of
            Some v \<Rightarrow> Inr (in6_addr_bytes (sin6_addr v))
          | None \<Rightarrow> Inl (Abort_call ''data_addr'')))"

definition size_addr :: "ip_address \<Rightarrow> nat outcome" where
  "size_addr a =
     (case get_ipv4 a of
        Some v \<Rightarrow> Inr 4
      | None \<Rightarrow> (case get_ipv6 a of Some v \<Rightarrow> Inr 16 | None \<Rightarrow> Inl (Abort_call ''size_addr'')))"

section \<open>Comparison\<close>

definition ip_get_hash :: "ip_address \<Rightarrow> u64 outcome" where
  "ip_get_hash a =
     (case m_in4 a of
        Some v \<Rightarrow> Inr (ucast (sin_addr v))
      | None \<Rightarrow>
         (case m_in6 a of
            Some v \<Rightarrow>
              (case sin6_addr v of (a0, a1, a2, a3) \<Rightarrow>
                 Inr (push_bit 0 (ucast a0) OR push_bit 32 (ucast a1) OR
                      push_bit 0 (ucast a2) OR push_bit 32 (ucast a3)))
          | None \<Rightarrow> Inl (Abort_call ''get_hash'')))"

definition ip_eq :: "ip_address \<Rightarrow> ip_address \<Rightarrow> bool" where
  "ip_eq a b =
     (case (m_in4 a, m_in4 b) of
        (Some v1, Some v2) \<Rightarrow>
          sin_port v1 = sin_port v2 \<and>
          le_bytes 4 (sin_addr v1) = le_bytes 4 (sin_addr v2) \<and>
          sin_family v1 = sin_family v2
      | _ \<Rightarrow>
         (case (m_in6 a, m_in6 b) of
            (Some v1, Some v2) \<Rightarrow>
              sin6_port v1 = sin6_port v2 \<and>
              in6_addr_bytes (sin6_addr v1) = in6_addr_bytes (sin6_addr v2) \<and>
              sin6_family v1 = sin6_family v2
          | _ \<Rightarrow> False))"

definition ip_less :: "ip_address \<Rightarrow> ip_address \<Rightarrow> bool outcome" where
  "ip_less a b = ebind (ip_get_hash a) (\<lambda>ha. ebind (ip_get_hash b) (\<lambda>hb. Inr (ha < hb)))"

section \<open>Text\<close>

type_synonym ntop6_fun = "in6_addr \<Rightarrow> nat \<Rightarrow> string option"
type_synonym pton6_fun = "string \<Rightarrow> in6_addr option"

definition or_invalid :: "string option \<Rightarrow> string" where
  "or_invalid t = (case t of Some s \<Rightarrow> s | None \<Rightarrow> ''<INVALID>'')"

definition to_human_readable_ip_string :: "ntop6_fun \<Rightarrow> ip_address \<Rightarrow> string" where
  "to_human_readable_ip_string ntop6 a =
     (case get_ipv4 a of
        Some v \<Rightarrow> or_invalid (inet_ntop4 (sin_addr v) 128)
      | None \<Rightarrow>
         (case get_ipv6 a of
            Some v \<Rightarrow> or_invalid (ntop6 (sin6_addr v) 128)
          | None \<Rightarrow> ''?.?.?.?''))"

definition format_port :: "socket_port_id \<Rightarrow> string" where
  "format_port p = nat_dec (unat p)"

definition to_human_readable_string :: "ntop6_fun \<Rightarrow> ip_address \<Rightarrow> string outcome" where
  "to_human_readable_string ntop6 a =
     (case get_ipv4 a of
        Some v \<Rightarrow>
          (let source_name = or_invalid (inet_ntop4 (sin_addr v) 128) in
           ebind (ip_get_port a) (\<lambda>port.
             Inr (''v4: '' @ source_name @ '': port '' @ format_port port)))
      | None \<Rightarrow>
         (case get_ipv6 a of
            Some v \<Rightarrow>
              (let source_name = or_invalid (ntop6 (sin6_addr v) 128) in
               ebind (ip_get_port a) (\<lambda>port.
                 Inr (''v6: '' @ source_name @ '': port '' @ format_port port)))
          | None \<Rightarrow> Inr ''?.?.?.?''))"

text \<open>What the logging library prints for an address: \<open>to_string\<close> and the \<open>std::formatter\<close>.\<close>

definition ip_to_string :: "ntop6_fun \<Rightarrow> ip_address \<Rightarrow> string" where
  "ip_to_string ntop6 a = to_human_readable_ip_string ntop6 a"

definition format_ip :: "ntop6_fun \<Rightarrow> ip_address \<Rightarrow> string outcome" where
  "format_ip ntop6 c = to_human_readable_string ntop6 c"

text \<open>\<open>parse\<close> fills the address and the family of two locals it does not clear.\<close>

definition ip_parse ::
  "sockaddr_in \<Rightarrow> sockaddr_in6 \<Rightarrow> pton6_fun \<Rightarrow> string \<Rightarrow> error_code + ip_address" where
  "ip_parse raw4 raw6 pton6 ip_string =
     (case inet_pton4 ip_string of
        Some a \<Rightarrow> Inr (ip_of_sockaddr_in (raw4\<lparr>sin_addr := a, sin_family := AF_INET\<rparr>))
      | None \<Rightarrow>
         (case pton6 (c_str ip_string) of
            Some a \<Rightarrow> Inr (ip_of_sockaddr_in6 (raw6\<lparr>sin6_addr := a, sin6_family := AF_INET6\<rparr>))
          | None \<Rightarrow> Inl Error_HOSTNAME_RESOLVE_FAILED))"

definition string_to_ipv4_address :: "string \<Rightarrow> u32 outcome" where
  "string_to_ipv4_address ip =
     (case inet_pton4 (strip_suffix32 ip) of
        Some a \<Rightarrow> Inr a
      | None \<Rightarrow> Inl (Abort_call ''invalid IP address''))"

definition create_sock_addr_in ::
  "ntop6_fun \<Rightarrow> sockaddr_in \<Rightarrow> ip_address \<Rightarrow> socket_port_id \<Rightarrow> ip_address outcome" where
  "create_sock_addr_in ntop6 raw addr port =
     (let dest = memset_sockaddr_in sizeof_sockaddr_in raw in
      ebind (string_to_ipv4_address (to_human_readable_ip_string ntop6 addr)) (\<lambda>sa.
      Inr (ip_of_sockaddr_in
             (dest\<lparr>sin_addr := sa, sin_family := AF_INET, sin_port := bswap16 port\<rparr>))))"

section \<open>Lemmas\<close>

definition single_family :: "ip_address \<Rightarrow> bool" where
  "single_family a \<longleftrightarrow> m_in4 a = None \<or> m_in6 a = None"

lemma ip_valid_iff: "ip_valid a \<longleftrightarrow> m_in4 a \<noteq> None \<or> m_in6 a \<noteq> None"
  by (simp add: ip_valid_def)

lemma ip_of_sockaddr_simps [simp]:
  "m_in4 (ip_of_sockaddr_in sa) = Some sa" "m_in6 (ip_of_sockaddr_in sa) = None"
  "m_in4 (ip_of_sockaddr_in6 sa6) = None" "m_in6 (ip_of_sockaddr_in6 sa6) = Some sa6"
  "m_in4 ip_default = None" "m_in6 ip_default = None"
  by (simp_all add: ip_of_sockaddr_in_def ip_of_sockaddr_in6_def ip_default_def)

lemma ip_of_in_addr_fields:
  "m_in4 (ip_of_in_addr raw sa port) =
     Some \<lparr>sin_family = AF_INET, sin_port = bswap16 port, sin_addr = sa, sin_zero = sin_zero raw\<rparr>"
  "m_in6 (ip_of_in_addr raw sa port) = None"
  by (simp_all add: ip_of_in_addr_def ip_default_def)

lemma ip_of_in6_addr_fields:
  "m_in6 (ip_of_in6_addr raw sa port) =
     Some \<lparr>sin6_family = AF_INET6, sin6_port = bswap16 port, sin6_flowinfo = 0,
           sin6_addr = sa, sin6_scope_id = sin6_scope_id raw\<rparr>"
  "m_in4 (ip_of_in6_addr raw sa port) = None"
proof -
  obtain s :: sockaddr_in6 where s: "s = memset_sockaddr_in6 16 raw" by blast
  then have "sin6_flowinfo s = 0" and "sin6_scope_id s = sin6_scope_id raw" by simp_all
  then show "m_in6 (ip_of_in6_addr raw sa port) =
     Some \<lparr>sin6_family = AF_INET6, sin6_port = bswap16 port, sin6_flowinfo = 0,
           sin6_addr = sa, sin6_scope_id = sin6_scope_id raw\<rparr>"
    by (simp add: ip_of_in6_addr_def ip_default_def s [symmetric])
qed (simp add: ip_of_in6_addr_def ip_default_def Let_def)

lemma single_family_constructors [simp]:
  "single_family ip_default" "single_family (ip_of_sockaddr_in s4)"
  "single_family (ip_of_sockaddr_in6 s6)" "single_family (ip_of_in_addr r4 a4 p)"
  "single_family (ip_of_in6_addr r6 a6 p)"
  by (simp_all add: single_family_def ip_of_in_addr_fields ip_of_in6_addr_fields)

definition ip_typed :: "ip_address \<Rightarrow> bool" where
  "ip_typed a \<longleftrightarrow>
     (case (m_in4 a, m_in6 a) of
        (Some v, None) \<Rightarrow> sin_family v = AF_INET
      | (None, Some v) \<Rightarrow> sin6_family v = AF_INET6
      | _ \<Rightarrow> False)"

lemma ip_typed_single: "ip_typed a \<Longrightarrow> single_family a \<and> ip_valid a"
  by (auto simp: ip_typed_def single_family_def ip_valid_iff split: option.splits)

lemma ip_typed_sockaddr [simp]:
  "ip_typed (ip_of_sockaddr_in s4) \<longleftrightarrow> sin_family s4 = AF_INET"
  "ip_typed (ip_of_sockaddr_in6 s6) \<longleftrightarrow> sin6_family s6 = AF_INET6"
  by (simp_all add: ip_typed_def)

lemma ip_typed_constructors [simp]:
  "ip_typed (ip_of_in_addr r4 a4 p)" "ip_typed (ip_of_in6_addr r6 a6 p)"
  by (simp_all add: ip_typed_def ip_of_in_addr_fields ip_of_in6_addr_fields)

lemma ip_parse_typed: "ip_parse r4 r6 pton6 s = Inr b \<Longrightarrow> ip_typed b"
  by (auto simp: ip_parse_def split: option.splits)

lemma create_sock_addr_in_typed: "create_sock_addr_in ntop6 r4 a p = Inr b \<Longrightarrow> ip_typed b"
  by (auto simp: create_sock_addr_in_def outcome_simps)

lemma ip_typed_cases:
  assumes "ip_typed a"
  obtains v where "a = ip_of_sockaddr_in v" "sin_family v = AF_INET"
  | v where "a = ip_of_sockaddr_in6 v" "sin6_family v = AF_INET6"
  using assms
  by (cases a) (auto simp: ip_typed_def ip_of_sockaddr_in_def ip_of_sockaddr_in6_def ip_default_def
      split: option.splits)

text \<open>What the kernel and the senders read behind a typed address.\<close>

lemma ip_typed_sockaddr_bytes:
  assumes "ip_typed a"
  obtains sa len where "data_sockaddr a = Inr sa" "size_sockaddr a = Inr len" "unat len = length sa"
    "length sa \<le> sizeof_sockaddr_storage" "le_word (take 2 sa) \<in> {AF_INET, AF_INET6}"
  using assms
proof (cases rule: ip_typed_cases)
  case (1 v)
  then show ?thesis
    by (intro that [of "sockaddr_in_bytes v" 16])
      (simp_all add: data_sockaddr_def size_sockaddr_def sockaddr_in_bytes_def byte_simps)
next
  case (2 v)
  then show ?thesis
    by (intro that [of "sockaddr_in6_bytes v" 28])
      (simp_all add: data_sockaddr_def size_sockaddr_def sockaddr_in6_bytes_def byte_simps)
qed

lemma le_bytes_4_inject [simp]: "le_bytes 4 (v :: u32) = le_bytes 4 w \<longleftrightarrow> v = w"
  by (simp add: le_bytes_inject)

lemma ip_text_v4: "m_in4 a = Some v \<Longrightarrow> to_human_readable_ip_string ntop6 a = ipv4_text (sin_addr v)"
  by (simp add: to_human_readable_ip_string_def or_invalid_def inet_ntop4_fits)

lemma string_to_ipv4_address_text [simp]:
  "string_to_ipv4_address (ipv4_text a) = Inr a"
  "string_to_ipv4_address (ipv4_text a @ ''/32'') = Inr a"
  by (simp_all add: string_to_ipv4_address_def strip_suffix32_no_slash ipv4_text_no_slash
      inet_pton4_ntop4)

lemma ip_hash_v4: "m_in4 a = Some v \<Longrightarrow> ip_get_hash a = Inr (ucast (sin_addr v))"
  by (simp add: ip_get_hash_def)

lemma ip_hash_ok: "ip_valid a \<Longrightarrow> \<exists>h. ip_get_hash a = Inr h"
  by (auto simp: ip_get_hash_def ip_valid_iff split: option.splits prod.splits)

lemma ip_eq_same_hash:
  "single_family a \<Longrightarrow> single_family b \<Longrightarrow> ip_eq a b \<Longrightarrow> ip_get_hash a = ip_get_hash b"
  by (auto simp: ip_eq_def ip_get_hash_def single_family_def split: option.splits)

lemma ucast_u32_u64_inject [simp]: "(ucast (v :: u32) :: u64) = ucast w \<longleftrightarrow> v = w"
proof
  assume "(ucast v :: u64) = ucast w"
  then have eq: "bit (ucast v :: u64) n = bit (ucast w :: u64) n" for n by simp
  show "v = w"
  proof (rule bit_word_eqI)
    fix n assume "n < LENGTH(32)"
    then show "bit v n = bit w n" using eq [of n] by (simp add: bit_ucast_iff)
  qed
qed simp

section \<open>Properties\<close>

text \<open>
  Ports round trip: after \<open>set_port\<close> on an address that has one, \<open>get_port\<close> returns that
  port and the IP part is unchanged, for every port and both families; on an address with
  neither family both functions abort.
\<close>

theorem set_port_get_port:
  "(case ip_set_port p a of
      Inr b \<Rightarrow> ip_valid a \<and> ip_get_port b = Inr p \<and> data_addr b = data_addr a \<and>
              size_sockaddr b = size_sockaddr a
    | Inl e \<Rightarrow> \<not> ip_valid a \<and> e = Abort_call ''set_port'' \<and>
              ip_get_port a = Inl (Abort_call ''get_port''))"
  by (cases "m_in4 a"; cases "m_in6 a")
    (simp_all add: ip_set_port_def ip_get_port_def data_addr_def size_sockaddr_def ip_valid_iff)



text \<open>
  \<open>operator==\<close> is an equivalence on the addresses that hold one family: it is symmetric and
  transitive there, and reflexive exactly on the valid ones (the default address is not equal
  to itself); addresses of different families are never equal.
\<close>

theorem ip_eq_equivalence:
  assumes "single_family a" and "single_family b" and "single_family c"
  shows "(ip_eq a a \<longleftrightarrow> ip_valid a) \<and> (ip_eq a b \<longleftrightarrow> ip_eq b a) \<and>
         (ip_eq a b \<and> ip_eq b c \<longrightarrow> ip_eq a c) \<and>
         (m_in4 a \<noteq> None \<and> m_in6 b \<noteq> None \<longrightarrow> \<not> ip_eq a b)"
  using assms
  by (cases "m_in4 a"; cases "m_in6 a"; cases "m_in4 b"; cases "m_in6 b";
      cases "m_in4 c"; cases "m_in6 c")
    (auto simp: ip_eq_def single_family_def ip_valid_iff)

theorem ip_eq_equivalence_witness:
  "ip_eq (ip_of_in_addr \<lparr>sin_family = 1, sin_port = 2, sin_addr = 3, sin_zero = 4\<rparr> 5 80)
         (ip_of_in_addr \<lparr>sin_family = 1, sin_port = 2, sin_addr = 3, sin_zero = 4\<rparr> 5 80) \<and>
   \<not> ip_eq ip_default ip_default"
  using ip_eq_equivalence [of "ip_of_in_addr \<lparr>sin_family = 1, sin_port = 2, sin_addr = 3, sin_zero = 4\<rparr> 5 80"
      ip_default ip_default]
    ip_eq_equivalence [of ip_default ip_default ip_default]
  by (simp add: ip_valid_iff ip_of_in_addr_fields)

text \<open>
  \<open>operator<\<close> against \<open>operator==\<close>: equal addresses are never ordered, but the order sees
  only the IP part, so two IPv4 addresses are unordered exactly when their IPs agree, whatever
  their ports. An ordered container keyed by \<open>IPAddress\<close> therefore takes addresses for the same
  key that \<open>operator==\<close> tells apart.
\<close>

theorem ip_less_ignores_port:
  assumes "single_family a" and "single_family b" and "m_in4 a = Some v" and "m_in4 b = Some w"
  shows "(ip_less a b = Inr False \<and> ip_less b a = Inr False \<longleftrightarrow> sin_addr v = sin_addr w) \<and>
         (ip_eq a b \<longrightarrow> ip_less a b = Inr False) \<and>
         (sin_addr v = sin_addr w \<and> ip_get_port a \<noteq> ip_get_port b \<longrightarrow>
            \<not> ip_eq a b \<and> ip_less a b = Inr False \<and> ip_less b a = Inr False)"
proof -
  have "ip_less a b = Inr ((ucast (sin_addr v) :: u64) < ucast (sin_addr w))"
    and "ip_less b a = Inr ((ucast (sin_addr w) :: u64) < ucast (sin_addr v))"
    using assms(3,4) by (simp_all add: ip_less_def ip_hash_v4)
  moreover have "(ucast (sin_addr v) :: u64) = ucast (sin_addr w) \<longleftrightarrow> sin_addr v = sin_addr w"
    by simp
  ultimately show ?thesis
    using assms(3,4) ip_eq_same_hash [OF assms(1,2)]
    by (auto simp: ip_hash_v4 ip_eq_def ip_get_port_def)
qed

theorem ip_less_ignores_port_witness:
  "\<exists>a b. \<not> ip_eq a b \<and> ip_less a b = Inr False \<and> ip_less b a = Inr False"
proof -
  let ?r = "\<lparr>sin_family = 0, sin_port = 0, sin_addr = 0, sin_zero = 0\<rparr>"
  let ?a = "ip_of_in_addr ?r 7 80" and ?b = "ip_of_in_addr ?r 7 443"
  show ?thesis
    using ip_less_ignores_port [of ?a ?b]
    by (intro exI [of _ ?a] exI [of _ ?b])
      (simp add: ip_of_in_addr_fields ip_get_port_def)
qed

text \<open>
  C40. Text round trip for IPv4: the printed form of any IPv4 address, with or without a
  \<open>"/32"\<close> suffix, reads back as the same address, and \<open>create_sock_addr_in\<close> gives exactly that
  IP with the requested port and no leftover of the uninitialised local.
\<close>

theorem create_sock_addr_in_ipv4:
  assumes "m_in4 addr = Some v"
  shows "create_sock_addr_in ntop6 raw addr port =
           Inr (ip_of_sockaddr_in \<lparr>sin_family = AF_INET, sin_port = bswap16 port,
                                   sin_addr = sin_addr v, sin_zero = 0\<rparr>) \<and>
         string_to_ipv4_address (to_human_readable_ip_string ntop6 addr) = Inr (sin_addr v) \<and>
         string_to_ipv4_address (to_human_readable_ip_string ntop6 addr @ ''/32'') = Inr (sin_addr v)"
  using assms by (simp add: create_sock_addr_in_def ip_text_v4)

theorem create_sock_addr_in_ipv4_witness:
  "create_sock_addr_in (\<lambda>_ _. None) \<lparr>sin_family = 9, sin_port = 9, sin_addr = 9, sin_zero = 9\<rparr>
     (ip_of_sockaddr_in \<lparr>sin_family = 2, sin_port = 0, sin_addr = 16777343, sin_zero = 5\<rparr>) 8443 =
   Inr (ip_of_sockaddr_in \<lparr>sin_family = 2, sin_port = bswap16 8443, sin_addr = 16777343, sin_zero = 0\<rparr>)"
  using create_sock_addr_in_ipv4
    [of "ip_of_sockaddr_in \<lparr>sin_family = 2, sin_port = 0, sin_addr = 16777343, sin_zero = 5\<rparr>"]
  by simp

text \<open>
  The constructor from \<open>sockaddr_storage\<close> keeps the wrong family: storage that holds an IPv4
  address (length 16) becomes an IPv6 address whose family field says \<open>AF_INET\<close>, and storage
  that holds an IPv6 address (length 28) becomes an IPv4 one. Every other length fails the
  assertion.
\<close>

theorem ip_of_storage_inverted:
  "(\<exists>b w. ip_of_storage (sockaddr_in_bytes sa @ rest) 16 = Inr b \<and>
       get_ipv4 b = None \<and> get_ipv6 b = Some w \<and> sin6_family w = sin_family sa \<and>
       sin6_port w = sin_port sa) \<and>
   (\<exists>b w. ip_of_storage (sockaddr_in6_bytes sa6 @ rest) 28 = Inr b \<and>
       get_ipv6 b = None \<and> get_ipv4 b = Some w \<and> sin_family w = sin6_family sa6 \<and>
       sin_port w = sin6_port sa6)"
  by (simp add: ip_of_storage_def sockaddr_in_of_bytes_def sockaddr_in6_of_bytes_def
      sockaddr_in_bytes_def sockaddr_in6_bytes_def byte_simps)

text \<open>
  \<open>parse\<close> of a dotted-decimal text succeeds with that IP, and the result prints as the same
  text; but its port is whatever the uninitialised local held, so two parses of one text are
  equal only if the leftovers agree.
\<close>

theorem ip_parse_ipv4:
  "\<exists>b. ip_parse raw4 raw6 pton6 (ipv4_text a) = Inr b \<and> data_addr b = Inr (le_bytes 4 a) \<and>
       to_human_readable_ip_string ntop6 b = ipv4_text a \<and>
       ip_get_port b = Inr (bswap16 (sin_port raw4)) \<and>
       (\<exists>c. ip_parse raw4' raw6' pton6 (ipv4_text a) = Inr c \<and>
            (ip_eq b c \<longleftrightarrow> sin_port raw4 = sin_port raw4'))"
  by (simp add: ip_parse_def inet_pton4_ntop4 data_addr_def ip_text_v4 ip_get_port_def ip_eq_def)

end
