(* ===== verification/Net_Protocols.thy ===== *)
theory Net_Protocols
  imports Ip_Address
begin

text \<open>
  \<open>include/iuring/NetworkProtocols.hpp\<close> and the parameters of a datagram in
  \<open>include/iuring/IWorkItem.hpp\<close>: socket kinds and types, the time-to-live and DSCP
  enumerations with their underlying values, and the type-of-service byte built from a DSCP.

  \<^item> \<open>tos_of_dscp\<close> is the expression of \<open>WorkItem::init_send_msg\<close>; the lemmas say no code
    point loses a bit in it.
\<close>

datatype socket_kind = MULTICAST_PACKET_SOCKET | SERVER_STREAM_SOCKET | UNICAST_CLIENT_SOCKET

datatype socket_type = UNKNOWN_SOCKET | IPV4_UDP | IPV4_TCP | IPV6_UDP | IPV6_TCP

datatype timetolive = PTP_TTL | RTP_TTL | NORMAL_TTL | MDNS_TTL

primrec ttl_code :: "timetolive \<Rightarrow> u8" where
  "ttl_code PTP_TTL = 16"
| "ttl_code RTP_TTL = 32"
| "ttl_code NORMAL_TTL = 58"
| "ttl_code MDNS_TTL = 255"

datatype dscp =
    CS0 | CS1 | CS2 | CS3 | CS4 | CS5 | CS6 | CS7
  | AF11 | AF12 | AF13 | AF21 | AF22 | AF23 | AF31 | AF32 | AF33 | AF41 | AF42 | AF43
  | VOICE_ADMIT | EXPEDITED_FORWARDING

primrec dscp_code :: "dscp \<Rightarrow> u8" where
  "dscp_code CS0 = 0"
| "dscp_code CS1 = 8"
| "dscp_code CS2 = 16"
| "dscp_code CS3 = 24"
| "dscp_code CS4 = 32"
| "dscp_code CS5 = 40"
| "dscp_code CS6 = 48"
| "dscp_code CS7 = 56"
| "dscp_code AF11 = 10"
| "dscp_code AF12 = 12"
| "dscp_code AF13 = 14"
| "dscp_code AF21 = 18"
| "dscp_code AF22 = 20"
| "dscp_code AF23 = 22"
| "dscp_code AF31 = 26"
| "dscp_code AF32 = 28"
| "dscp_code AF33 = 30"
| "dscp_code AF41 = 34"
| "dscp_code AF42 = 36"
| "dscp_code AF43 = 38"
| "dscp_code VOICE_ADMIT = 44"
| "dscp_code EXPEDITED_FORWARDING = 46"

text \<open>The enumerators that are other names of the ones above.\<close>

definition BEST_EFFORT :: dscp where "BEST_EFFORT = CS0"
definition AES67_PTP_EVENT :: dscp where "AES67_PTP_EVENT = EXPEDITED_FORWARDING"
definition AES67_PTP_GENERAL :: dscp where "AES67_PTP_GENERAL = BEST_EFFORT"
definition AES67_RTP :: dscp where "AES67_RTP = AF41"
definition RAV_DANTE_PTP_EVENT :: dscp where "RAV_DANTE_PTP_EVENT = CS6"
definition RAV_DANTE_PTP_GENERAL :: dscp where "RAV_DANTE_PTP_GENERAL = BEST_EFFORT"
definition RAV_DANTE_RTP :: dscp where "RAV_DANTE_RTP = EXPEDITED_FORWARDING"

record datagram_params =
  destination_address :: ip_address
  param_dscp :: dscp
  param_ttl :: timetolive

text \<open>
  \<open>static_cast<uint8_t>(dscp) << 2 | congestion_notification\<close>: the shift is of an \<open>int\<close>, the
  result is converted back to a byte.
\<close>

definition tos_of_dscp :: "dscp \<Rightarrow> u8" where
  "tos_of_dscp d =
     (let congestion_notification = 0 :: 32 word
      in ucast (push_bit 2 (ucast (dscp_code d) :: 32 word) OR congestion_notification))"

definition ttl_of_params :: "timetolive \<Rightarrow> u32" where
  "ttl_of_params t = ucast (ttl_code t)"

lemma tos_of_dscp_value: "unat (tos_of_dscp d) = 4 * unat (dscp_code d)"
  by (cases d) (simp_all add: tos_of_dscp_def)

lemma tos_of_dscp_bits: "drop_bit 2 (tos_of_dscp d) = dscp_code d" "tos_of_dscp d AND 3 = 0"
  by (cases d; simp add: tos_of_dscp_def)+

lemma ttl_in_range: "0 < unat (ttl_of_params t) \<and> unat (ttl_of_params t) < 256"
  by (cases t) (simp_all add: ttl_of_params_def)

lemma ttl_signed_in_range: "0 < sint (ttl_of_params t) \<and> sint (ttl_of_params t) < 256"
  by (cases t) (simp_all add: ttl_of_params_def)

end
