(* ===== verification/Completion_Results.thy ===== *)
theory Completion_Results
  imports Net_Protocols
begin

text \<open>
  \<open>include/iuring/CompletionCallbacks.hpp\<close> and \<open>include/iuring/ReceivedMessage.hpp\<close>: what a
  completion callback is given. A status is the kernel's result of a request: non-negative on
  success, a negated \<open>errno\<close> otherwise. \<open>errno_to_error\<close> is a function of the logging library
  and an argument here. A received message's pointer is the bytes it points to.

  \<^item> locale \<open>status_result\<close>: the contract the result classes share (a status decides between a
    value and the error of the negated status); interpreted on all three.
\<close>

section \<open>The result classes\<close>

datatype receive_post_action = Action_NONE | RE_SUBMIT

record accept_result =
  m_new_fd :: int
  m_address :: ip_address

record send_result =
  send_status :: int

record connect_result =
  connect_status :: int
  connect_address :: ip_address

record close_result =
  close_status :: int

type_synonym errno_fun = "int \<Rightarrow> error_code"

definition send_to_expected :: "errno_fun \<Rightarrow> send_result \<Rightarrow> error_code + int" where
  "send_to_expected errno_to_error r =
     (if 0 \<le> send_status r then Inr (send_status r)
      else Inl (errno_to_error (- send_status r)))"

definition connect_to_expected :: "errno_fun \<Rightarrow> connect_result \<Rightarrow> error_code + ip_address" where
  "connect_to_expected errno_to_error r =
     (if 0 \<le> connect_status r then Inr (connect_address r)
      else Inl (errno_to_error (- connect_status r)))"

definition close_to_expected :: "errno_fun \<Rightarrow> close_result \<Rightarrow> error_code + int" where
  "close_to_expected errno_to_error r =
     (if 0 \<le> close_status r then Inr (close_status r)
      else Inl (errno_to_error (- close_status r)))"

locale status_result =
  fixes mk :: "int \<Rightarrow> 'p \<Rightarrow> 'r"
    and expected :: "errno_fun \<Rightarrow> 'r \<Rightarrow> error_code + 'v"
    and val :: "int \<Rightarrow> 'p \<Rightarrow> 'v"
  assumes expected_ok: "0 \<le> s \<Longrightarrow> expected e (mk s p) = Inr (val s p)"
    and expected_err: "s < 0 \<Longrightarrow> expected e (mk s p) = Inl (e (- s))"
begin

lemma has_value_iff: "(\<exists>v. expected e (mk s p) = Inr v) \<longleftrightarrow> 0 \<le> s"
  by (cases "0 \<le> s") (simp_all add: expected_ok expected_err not_le)

lemma error_positive_errno: "expected e (mk s p) = Inl c \<Longrightarrow> \<exists>n > 0. c = e n"
  by (cases "0 \<le> s") (auto simp: expected_ok expected_err not_le intro: exI [of _ "- s"])

end

interpretation send_res: status_result "\<lambda>s _. \<lparr>send_status = s\<rparr>" send_to_expected "\<lambda>s _. s"
  by unfold_locales (simp_all add: send_to_expected_def)

interpretation close_res: status_result "\<lambda>s _. \<lparr>close_status = s\<rparr>" close_to_expected "\<lambda>s _. s"
  by unfold_locales (simp_all add: close_to_expected_def)

interpretation connect_res: status_result "\<lambda>s a. \<lparr>connect_status = s, connect_address = a\<rparr>"
    connect_to_expected "\<lambda>_ a. a"
  by unfold_locales (simp_all add: connect_to_expected_def)

section \<open>Received messages\<close>

record received_message =
  msg_data :: bytes
  msg_size :: u64
  msg_source :: ip_address

text \<open>The pointers \<open>begin\<close> and \<open>end\<close> are the bytes that follow them.\<close>

definition rm_get_size :: "received_message \<Rightarrow> u64" where
  "rm_get_size m = msg_size m"

definition rm_begin :: "received_message \<Rightarrow> bytes" where
  "rm_begin m = msg_data m"

definition rm_end :: "received_message \<Rightarrow> bytes" where
  "rm_end m = drop (unat (msg_size m)) (msg_data m)"

definition rm_to_string :: "received_message \<Rightarrow> bytes" where
  "rm_to_string m = take (unat (rm_get_size m)) (rm_begin m)"

lemma rm_between: "rm_begin m = rm_to_string m @ rm_end m"
  by (simp add: rm_begin_def rm_to_string_def rm_end_def rm_get_size_def)

definition rm_is_empty :: "received_message \<Rightarrow> bool" where
  "rm_is_empty m \<longleftrightarrow> rm_get_size m = 0"

definition rm_get_source_address :: "received_message \<Rightarrow> ip_address" where
  "rm_get_source_address m = msg_source m"

section \<open>The type and port of an accepted connection\<close>

text \<open>
  \<open>get_type\<close> and \<open>get_port\<close> of \<open>src/WorkItem.cpp\<close>. The port is cast as it is stored.
\<close>

definition accept_get_type :: "accept_result \<Rightarrow> socket_type" where
  "accept_get_type res =
     (if get_ipv4 (m_address res) \<noteq> None then IPV4_TCP
      else if get_ipv6 (m_address res) \<noteq> None then IPV6_TCP
      else UNKNOWN_SOCKET)"

definition accept_get_port :: "accept_result \<Rightarrow> socket_port_id" where
  "accept_get_port res =
     (case get_ipv4 (m_address res) of
        Some addr \<Rightarrow> sin_port addr
      | None \<Rightarrow>
         (case get_ipv6 (m_address res) of
            Some addr \<Rightarrow> sin6_port addr
          | None \<Rightarrow> UNKNOWN_PORT))"

text \<open>
  The port recorded for an accepted connection is byte-swapped: it is not the port
  \<open>IPAddress::get_port\<close> gives for the same address, and the two agree only for ports whose two
  bytes are equal.
\<close>

theorem accept_port_not_swapped:
  assumes "ip_valid (m_address res)"
  shows "ip_get_port (m_address res) = Inr (bswap16 (accept_get_port res)) \<and>
         (ip_get_port (m_address res) = Inr (accept_get_port res) \<longleftrightarrow>
            le_bytes 2 (accept_get_port res) = rev (le_bytes 2 (accept_get_port res)))"
proof -
  have "bswap16 p = p \<longleftrightarrow> le_bytes 2 p = rev (le_bytes 2 p)" for p :: u16
    by (metis le_bytes_bswap16 le_bytes_inject [of 2] len_num0 len_num1 bswap16_bswap16
        le_word_le_bytes bswap16_def)
  moreover have "ip_get_port (m_address res) = Inr (bswap16 (accept_get_port res))"
    using assms by (auto simp: ip_valid_iff ip_get_port_def accept_get_port_def split: option.splits)
  ultimately show ?thesis by simp
qed

theorem accept_port_not_swapped_witness:
  "\<exists>res. ip_get_port (m_address res) = Inr 8443 \<and> accept_get_port res \<noteq> 8443"
proof -
  let ?sa = "\<lparr>sin_family = AF_INET, sin_port = bswap16 8443, sin_addr = 1, sin_zero = 0\<rparr>"
  let ?res = "\<lparr>m_new_fd = 5, m_address = ip_of_sockaddr_in ?sa\<rparr>"
  have p: "accept_get_port ?res = bswap16 8443" by (simp add: accept_get_port_def)
  have "ip_get_port (m_address ?res) = Inr (bswap16 (accept_get_port ?res))"
    using accept_port_not_swapped [of ?res] by (simp add: ip_valid_iff)
  moreover have "bswap16 8443 \<noteq> 8443"
    by (simp add: bswap16_def le_bytes_def upt_rec)
  ultimately show ?thesis using p by (metis bswap16_bswap16)
qed

end
