(* ===== verification/Io_World.thy ===== *)
theory Io_World
  imports Completion_Results
begin

text \<open>
  What the library and its environment exchange. The kernel, \<open>liburing\<close> and the system calls are
  not modelled: every call the code makes to them is an element of a trace, newest first, and
  what they answer is a function of the trace so far, in the record \<open>world\<close>, an argument of
  every definition that asks. A theorem for all worlds therefore holds for every behaviour of
  the kernel; documented behaviour a theorem needs is a named hypothesis on the world.

  \<^item> \<open>isocket\<close>: the immutable members of \<open>include/iuring/ISocket.hpp\<close>.
  \<^item> \<open>sqe\<close>, \<open>completion\<close>: the submission and completion queue entries as far as the code fills
    or reads them, with the memory a pointer of the entry leads to.
  \<^item> user callbacks are numbers (a \<open>std::function\<close>, \<open>None\<close> when empty); what a callback does
    is given by the client program (theory \<open>Ring_Client\<close>).
\<close>

section \<open>Sockets as the interface has them\<close>

record isocket =
  sock_type :: socket_type
  sock_port :: socket_port_id
  sock_kind :: socket_kind
  sock_fd :: int

definition is_stream :: "isocket \<Rightarrow> bool" where
  "is_stream s =
     (case sock_type s of
        IPV4_TCP \<Rightarrow> True
      | IPV6_TCP \<Rightarrow> True
      | UNKNOWN_SOCKET \<Rightarrow> False
      | IPV4_UDP \<Rightarrow> False
      | IPV6_UDP \<Rightarrow> False)"

definition get_fd :: "isocket \<Rightarrow> int" where
  "get_fd s = sock_fd s"

definition get_port :: "isocket \<Rightarrow> socket_port_id" where
  "get_port s = sock_port s"

definition get_kind :: "isocket \<Rightarrow> socket_kind" where
  "get_kind s = sock_kind s"

definition get_type :: "isocket \<Rightarrow> socket_type" where
  "get_type s = sock_type s"

lemma isocket_getters [simp]:
  "get_port s = sock_port s" "get_kind s = sock_kind s" "get_type s = sock_type s"
  by (simp_all add: get_port_def get_kind_def get_type_def)

section \<open>Messages and queue entries\<close>

text \<open>
  The pointers a \<open>msghdr\<close> of a work item can hold all lead into that same item.
\<close>

datatype item_ptr =
    Null_ptr
  | To_storage
  | To_sa_in4
  | To_sa_in6
  | To_iov
  | To_control
  | To_packet

record iovec =
  iov_base :: item_ptr
  iov_len :: u64

record msghdr =
  msg_name :: item_ptr
  msg_namelen :: u32
  msg_iov :: item_ptr
  msg_iovlen :: u64
  msg_control :: item_ptr
  msg_controllen :: u64
  msg_flags :: int

text \<open>The bytes a \<open>sendmsg\<close> finds behind the pointers of its \<open>msghdr\<close>.\<close>

record msg_image =
  image_name :: bytes
  image_data :: bytes
  image_control :: bytes

datatype sqe_op =
    Prep_close int
  | Prep_accept int u32 int
  | Prep_connect int bytes u32
  | Prep_recv int item_ptr nat int
  | Prep_recvmsg_multishot int msghdr u32
  | Prep_send int bytes u64 int
  | Prep_sendmsg int msghdr msg_image int

record sqe =
  sqe_user_data :: nat
  sqe_operation :: sqe_op
  sqe_flags :: u8
  sqe_buf_group :: u16

record completion =
  cqe_res :: int
  cqe_flags :: u32
  cqe_user_data :: nat
  cqe_sockaddr :: "(bytes \<times> u32) option"
  cqe_buffer :: bytes

record recvmsg_out =
  out_namelen :: u32
  out_controllen :: u32
  out_payloadlen :: u32
  out_flags :: u32

section \<open>Callbacks\<close>

type_synonym func = "nat option"

datatype cb_event =
    Ev_connect connect_result
  | Ev_accept accept_result
  | Ev_recv received_message
  | Ev_send send_result
  | Ev_close close_result

section \<open>Calls and the world\<close>

datatype syscall =
    Sys_socket u16 int
  | Sys_setsockopt int int int bytes
  | Sys_bind int bytes
  | Sys_listen int int
  | Sys_getsockname int

datatype io_call =
    Sys syscall
  | Queue_init nat
  | Get_sqe
  | Prep sqe
  | Uring_submit
  | Peek_cqe
  | Cq_advance nat
  | Mmap nat
  | Buf_ring_init
  | Register_buf_ring u64 nat nat
  | Buf_ring_add u64 nat nat nat nat
  | Buf_ring_advance nat
  | Callback nat cb_event

type_synonym io_trace = "io_call list"

text \<open>
  The indeterminate memory a \<open>WorkItem\<close> is constructed in: the members its constructor and
  default initialisers leave alone.
\<close>

record raw_memory =
  raw_packet :: "nat \<Rightarrow> u8"
  raw_control :: "nat \<Rightarrow> u8"
  raw_storage :: "nat \<Rightarrow> u8"
  raw_msg :: msghdr
  raw_dscp :: dscp
  raw_ttl :: timetolive

record world =
  w_get_sqe :: "io_trace \<Rightarrow> bool"
  w_peek :: "io_trace \<Rightarrow> int \<times> completion"
  w_syscall :: "io_trace \<Rightarrow> int"
  w_mmap :: "io_trace \<Rightarrow> u64 option"
  w_raw :: "io_trace \<Rightarrow> raw_memory"
  w_recvmsg_validate :: "bytes \<Rightarrow> int \<Rightarrow> msghdr \<Rightarrow> recvmsg_out option"
  w_recvmsg_name :: "bytes \<Rightarrow> bytes"
  w_recvmsg_payload :: "bytes \<Rightarrow> msghdr \<Rightarrow> bytes"
  w_recvmsg_payload_length :: "bytes \<Rightarrow> int \<Rightarrow> msghdr \<Rightarrow> u32"
  w_probe :: "(u8 \<times> u16) list option"
  w_errno_to_error :: errno_fun
  w_ntop6 :: ntop6_fun
  w_pton6 :: pton6_fun

text \<open>The submission queue entries a trace hands to the kernel, newest first.\<close>

definition submitted :: "io_trace \<Rightarrow> sqe list" where
  "submitted tr = List.map_filter (\<lambda>c. case c of Prep s \<Rightarrow> Some s | _ \<Rightarrow> None) tr"

definition callbacks_run :: "io_trace \<Rightarrow> (nat \<times> cb_event) list" where
  "callbacks_run tr =
     List.map_filter (\<lambda>c. case c of Callback f e \<Rightarrow> Some (f, e) | _ \<Rightarrow> None) tr"

lemma submitted_simps [simp]:
  "submitted [] = []"
  "submitted (Prep s # tr) = s # submitted tr"
  "submitted (Sys y # tr) = submitted tr"
  "submitted (Queue_init n # tr) = submitted tr"
  "submitted (Get_sqe # tr) = submitted tr"
  "submitted (Uring_submit # tr) = submitted tr"
  "submitted (Peek_cqe # tr) = submitted tr"
  "submitted (Cq_advance n # tr) = submitted tr"
  "submitted (Mmap n # tr) = submitted tr"
  "submitted (Buf_ring_init # tr) = submitted tr"
  "submitted (Register_buf_ring a n b # tr) = submitted tr"
  "submitted (Buf_ring_add a l b m off # tr) = submitted tr"
  "submitted (Buf_ring_advance n # tr) = submitted tr"
  "submitted (Callback f e # tr) = submitted tr"
  by (simp_all add: submitted_def)

lemma callbacks_run_simps [simp]:
  "callbacks_run [] = []"
  "callbacks_run (Callback f e # tr) = (f, e) # callbacks_run tr"
  "callbacks_run (Sys y # tr) = callbacks_run tr"
  "callbacks_run (Queue_init n # tr) = callbacks_run tr"
  "callbacks_run (Prep s # tr) = callbacks_run tr"
  "callbacks_run (Get_sqe # tr) = callbacks_run tr"
  "callbacks_run (Uring_submit # tr) = callbacks_run tr"
  "callbacks_run (Peek_cqe # tr) = callbacks_run tr"
  "callbacks_run (Cq_advance n # tr) = callbacks_run tr"
  "callbacks_run (Mmap n # tr) = callbacks_run tr"
  "callbacks_run (Buf_ring_init # tr) = callbacks_run tr"
  "callbacks_run (Register_buf_ring a n b # tr) = callbacks_run tr"
  "callbacks_run (Buf_ring_add a l b m off # tr) = callbacks_run tr"
  "callbacks_run (Buf_ring_advance n # tr) = callbacks_run tr"
  by (simp_all add: callbacks_run_def)

section \<open>A concrete environment\<close>

text \<open>
  Used where a theorem is applied to concrete inputs: system calls return 0, the second call made
  gets no queue entry, and the completion queue is empty.
\<close>

definition example_raw :: raw_memory where
  "example_raw =
     \<lparr>raw_packet = (\<lambda>_. 0), raw_control = (\<lambda>_. 1), raw_storage = (\<lambda>_. 2),
      raw_msg = \<lparr>msg_name = Null_ptr, msg_namelen = 3, msg_iov = Null_ptr, msg_iovlen = 4,
                 msg_control = Null_ptr, msg_controllen = 5, msg_flags = 6\<rparr>,
      raw_dscp = CS0, raw_ttl = NORMAL_TTL\<rparr>"

definition example_world :: world where
  "example_world =
     \<lparr>w_get_sqe = (\<lambda>tr. length tr \<noteq> 1),
      w_peek = (\<lambda>_. (- EAGAIN, \<lparr>cqe_res = 0, cqe_flags = 0, cqe_user_data = 0,
         cqe_sockaddr = None, cqe_buffer = []\<rparr>)),
      w_syscall = (\<lambda>_. 0), w_mmap = (\<lambda>_. Some 4096), w_raw = (\<lambda>_. example_raw),
      w_recvmsg_validate = (\<lambda>_ _ _. None), w_recvmsg_name = (\<lambda>_. []),
      w_recvmsg_payload = (\<lambda>_ _. []), w_recvmsg_payload_length = (\<lambda>_ _ _. 0),
      w_probe = Some (map (\<lambda>i. (word_of_nat i, 1)) [0..<40]),
      w_errno_to_error = (\<lambda>_. Error_UNKNOWN), w_ntop6 = (\<lambda>_ _. None), w_pton6 = (\<lambda>_. None)\<rparr>"

end
