(* ===== verification/Send_Packet.thy ===== *)
theory Send_Packet
  imports Iouring_Prelude
begin

text \<open>
  \<open>include/iuring/SendPacket.hpp\<close>: the fixed buffer of 4096 bytes a client fills before it
  submits a send. The record keeps the two members, \<open>m_size\<close> as a 64-bit \<open>size_t\<close> and
  \<open>m_buf\<close> as the list of the array's 4096 bytes (\<open>std::array\<close> leaves them uninitialised,
  so the invariant says nothing about their values). Each \<open>append\<close> overload is a definition
  of its own, and all of them go through \<open>append_raw\<close> as the source's do.

  \<^item> locale \<open>append_buffer\<close>: the contract of a byte buffer a client appends to and resets,
    with what follows for a sequence of appends; interpreted on \<open>SendPacket\<close> below.
  \<^item> \<open>sp_contents\<close> is the abstraction (the bytes \<open>data()\<close> up to \<open>size()\<close>), and the lemmas
    say that each operation acts on it as appending to a list does.
\<close>

section \<open>The object\<close>

record send_packet =
  m_size :: u64
  m_buf :: bytes

definition sp_capacity :: nat where
  "sp_capacity = 4096"

definition sp_inv :: "send_packet \<Rightarrow> bool" where
  "sp_inv p \<longleftrightarrow> length (m_buf p) = sp_capacity \<and> unat (m_size p) < sp_capacity"

definition sp_contents :: "send_packet \<Rightarrow> bytes" where
  "sp_contents p = take (unat (m_size p)) (m_buf p)"

section \<open>Operations\<close>

text \<open>
  \<open>append(const uint8_t*, size_t)\<close>. The sum of the check is a 64-bit sum, so a length close to
  \<open>2^64\<close> wraps and passes; the \<open>memcpy\<close> that follows is then out of bounds.
\<close>

definition append_raw :: "bytes \<Rightarrow> send_packet \<Rightarrow> send_packet outcome" where
  "append_raw data p =
     ebind (assert_that ''(m_size + len) < m_buf.size()''
        (m_size p + word_of_nat (length data) < word_of_nat sp_capacity)) (\<lambda>_.
     if sp_capacity < unat (m_size p) + length data
     then Inl (Undefined_behaviour ''memcpy past the end of m_buf'')
     else Inr (p\<lparr>m_size := m_size p + word_of_nat (length data),
                 m_buf := overwrite (m_buf p) (unat (m_size p)) data\<rparr>))"

definition append_byte :: "u8 \<Rightarrow> send_packet \<Rightarrow> send_packet outcome" where
  "append_byte b = append_raw [b]"

definition append_uint16 :: "u16 \<Rightarrow> send_packet \<Rightarrow> send_packet outcome" where
  "append_uint16 v = (let n = bswap16 v in append_raw (le_bytes 2 n))"

definition append_uint32 :: "u32 \<Rightarrow> send_packet \<Rightarrow> send_packet outcome" where
  "append_uint32 v = (let n = bswap32 v in append_raw (le_bytes 4 n))"

text \<open>
  The template overload copies the object representation of its argument, which is the argument
  here; the \<open>std::string\<close> overload copies all \<open>length()\<close> bytes and the \<open>const char*\<close> overload
  the bytes before the first NUL (\<open>strlen\<close>).
\<close>

definition append_object :: "bytes \<Rightarrow> send_packet \<Rightarrow> send_packet outcome" where
  "append_object repr = append_raw repr"

definition append_string :: "bytes \<Rightarrow> send_packet \<Rightarrow> send_packet outcome" where
  "append_string data = append_raw data"

definition append_cstr :: "bytes \<Rightarrow> send_packet \<Rightarrow> send_packet outcome" where
  "append_cstr data = append_raw (takeWhile (\<lambda>b. b \<noteq> 0) data)"

text \<open>
  \<open>emplace_back<T>\<close>: the bytes are cleared and a \<open>T\<close> is constructed in place. The constructor is
  the caller's: \<open>ctor\<close> maps the cleared storage to the object's bytes.
\<close>

definition emplace_back :: "nat \<Rightarrow> (bytes \<Rightarrow> bytes) \<Rightarrow> send_packet \<Rightarrow> send_packet outcome" where
  "emplace_back size_T ctor p =
     ebind (assert_that ''(m_size + sizeof(T)) < m_buf.size()''
        (m_size p + word_of_nat size_T < word_of_nat sp_capacity)) (\<lambda>_.
     if sp_capacity < unat (m_size p) + size_T
     then Inl (Undefined_behaviour ''memset past the end of m_buf'')
     else Inr (p\<lparr>m_size := m_size p + word_of_nat size_T,
                 m_buf := overwrite (m_buf p) (unat (m_size p)) (ctor (replicate size_T 0))\<rparr>))"

definition sp_reset :: "send_packet \<Rightarrow> send_packet" where
  "sp_reset p = p\<lparr>m_buf := overwrite (m_buf p) 0 (replicate (unat (m_size p)) 0), m_size := 0\<rparr>"

definition clean_proper :: "send_packet \<Rightarrow> send_packet" where
  "clean_proper p = p\<lparr>m_size := 0, m_buf := replicate sp_capacity 0\<rparr>"

definition sp_size :: "send_packet \<Rightarrow> u64" where
  "sp_size p = m_size p"

definition sp_data :: "send_packet \<Rightarrow> bytes" where
  "sp_data p = m_buf p"

definition sp_to_string :: "send_packet \<Rightarrow> bytes" where
  "sp_to_string p = take (unat (m_size p)) (sp_data p)"

text \<open>A packet whose array still holds whatever the memory held.\<close>

definition fresh_packet :: "(nat \<Rightarrow> u8) \<Rightarrow> send_packet" where
  "fresh_packet raw = \<lparr>m_size = 0, m_buf = map raw [0..<sp_capacity]\<rparr>"

section \<open>What one append does\<close>

lemma size_check_exact:
  fixes s :: u64
  assumes "unat s < sp_capacity" and "n + sp_capacity < 2 ^ 64"
  shows "s + word_of_nat n < word_of_nat sp_capacity \<longleftrightarrow> unat s + n < sp_capacity"
    and "unat (s + word_of_nat n) = unat s + n"
proof -
  have n: "unat (word_of_nat n :: u64) = n"
    using assms(2) by (simp add: unat_of_nat)
  have "unat s + n < 2 ^ 64" using assms by (simp add: sp_capacity_def)
  then show sum: "unat (s + word_of_nat n) = unat s + n"
    by (simp add: unat_word_ariths n)
  show "s + word_of_nat n < word_of_nat sp_capacity \<longleftrightarrow> unat s + n < sp_capacity"
    by (simp add: word_less_nat_alt sum) (simp add: sp_capacity_def)
qed

lemma append_raw_fits:
  assumes "sp_inv p" and "unat (m_size p) + length data < sp_capacity"
  shows "append_raw data p =
    Inr (p\<lparr>m_size := m_size p + word_of_nat (length data),
           m_buf := overwrite (m_buf p) (unat (m_size p)) data\<rparr>)"
proof -
  have "length data + sp_capacity < 2 ^ 64" using assms(2) by (simp add: sp_capacity_def)
  then show ?thesis
    using assms size_check_exact(1) [of "m_size p" "length data"]
    by (simp add: append_raw_def sp_inv_def)
qed

lemma append_raw_full:
  assumes "sp_inv p" and "sp_capacity \<le> unat (m_size p) + length data"
    and "length data + sp_capacity < 2 ^ 64"
  shows "append_raw data p = Inl (Assert_fail ''(m_size + len) < m_buf.size()'')"
  using assms size_check_exact(1) [of "m_size p" "length data"]
  by (simp add: append_raw_def sp_inv_def)

lemma append_raw_size:
  assumes "sp_inv p" and "append_raw data p = Inr p'"
  shows "unat (m_size p) + length data < sp_capacity \<and>
         unat (m_size p') = unat (m_size p) + length data \<and>
         m_buf p' = overwrite (m_buf p) (unat (m_size p)) data"
proof -
  have le: "unat (m_size p) + length data \<le> sp_capacity"
    using assms(2) by (auto simp: append_raw_def outcome_simps split: if_splits)
  then have b: "length data + sp_capacity < 2 ^ 64" by (simp add: sp_capacity_def)
  have "unat (m_size p) + length data < sp_capacity"
    using append_raw_full [OF assms(1) _ b] assms(2) by (cases "unat (m_size p) + length data < sp_capacity") auto
  moreover from this have "p' = p\<lparr>m_size := m_size p + word_of_nat (length data),
           m_buf := overwrite (m_buf p) (unat (m_size p)) data\<rparr>"
    using append_raw_fits [OF assms(1)] assms(2) by simp
  ultimately show ?thesis
    using size_check_exact(2) [OF _ b, of "m_size p"] assms(1) by (simp add: sp_inv_def)
qed

lemma append_raw_inv:
  assumes "sp_inv p" and "append_raw data p = Inr p'"
  shows "sp_inv p'"
  using append_raw_size [OF assms] assms(1) by (simp add: sp_inv_def)

lemma append_raw_contents:
  assumes "sp_inv p" and "append_raw data p = Inr p'"
  shows "sp_contents p' = sp_contents p @ data"
  using append_raw_size [OF assms] assms(1) by (simp add: sp_contents_def sp_inv_def)

lemma sp_reset_inv: "sp_inv p \<Longrightarrow> sp_inv (sp_reset p)"
  by (simp add: sp_inv_def sp_reset_def sp_capacity_def)

lemma sp_reset_contents [simp]: "sp_contents (sp_reset p) = []"
  by (simp add: sp_contents_def sp_reset_def)

lemma clean_proper_inv: "sp_inv (clean_proper p)"
  by (simp add: sp_inv_def clean_proper_def sp_capacity_def)

lemma fresh_packet_inv [simp]: "sp_inv (fresh_packet raw)"
  by (simp add: sp_inv_def fresh_packet_def sp_capacity_def)

lemma fresh_packet_contents [simp]: "sp_contents (fresh_packet raw) = []"
  by (simp add: sp_contents_def fresh_packet_def)

lemma sp_to_string_contents: "sp_to_string p = sp_contents p"
  by (simp add: sp_to_string_def sp_contents_def sp_data_def)

lemma length_sp_contents: "sp_inv p \<Longrightarrow> length (sp_contents p) = unat (m_size p)"
  by (simp add: sp_contents_def sp_inv_def)

section \<open>The contract of an append buffer\<close>

primrec append_all ::
  "(bytes \<Rightarrow> 'b \<Rightarrow> 'b outcome) \<Rightarrow> bytes list \<Rightarrow> 'b \<Rightarrow> 'b outcome" where
  "append_all app [] b = Inr b"
| "append_all app (d # ds) b = ebind (app d b) (append_all app ds)"

locale append_buffer =
  fixes app :: "bytes \<Rightarrow> 'b \<Rightarrow> 'b outcome"
    and rst :: "'b \<Rightarrow> 'b"
    and contents :: "'b \<Rightarrow> bytes"
    and invar :: "'b \<Rightarrow> bool"
    and cap :: nat
    and full :: fault
  assumes app_fits:
      "invar b \<Longrightarrow> length (contents b) + length d < cap \<Longrightarrow> \<exists>b'. app d b = Inr b'"
    and app_full:
      "invar b \<Longrightarrow> cap \<le> length (contents b) + length d \<Longrightarrow> length d < 2 ^ 63 \<Longrightarrow>
         app d b = Inl full"
    and app_contents: "invar b \<Longrightarrow> app d b = Inr b' \<Longrightarrow> contents b' = contents b @ d"
    and app_inv: "invar b \<Longrightarrow> app d b = Inr b' \<Longrightarrow> invar b'"
    and app_bound:
      "invar b \<Longrightarrow> app d b = Inr b' \<Longrightarrow> length (contents b) + length d < cap"
    and rst_inv: "invar b \<Longrightarrow> invar (rst b)"
    and rst_contents: "contents (rst b) = []"
    and within: "invar b \<Longrightarrow> length (contents b) < cap"
begin

lemma append_all_result:
  "invar b \<Longrightarrow> append_all app ds b = Inr b' \<Longrightarrow>
     contents b' = contents b @ concat ds \<and> invar b'"
proof (induction ds arbitrary: b)
  case Nil
  then show ?case by simp
next
  case (Cons d ds)
  then obtain b1 where "app d b = Inr b1" and "append_all app ds b1 = Inr b'"
    by (auto simp: outcome_simps)
  with Cons show ?case using app_contents [of b d b1] app_inv [of b d b1] by simp
qed

lemma append_all_fits:
  "invar b \<Longrightarrow> length (contents b) + length (concat ds) < cap \<Longrightarrow>
     \<exists>b'. append_all app ds b = Inr b'"
proof (induction ds arbitrary: b)
  case Nil
  then show ?case by simp
next
  case (Cons d ds)
  then obtain b1 where b1: "app d b = Inr b1" using app_fits [of b d] by auto
  then have "invar b1" and "length (contents b1) + length (concat ds) < cap"
    using Cons.prems app_inv app_contents by auto
  then show ?case using Cons.IH b1 by simp
qed

lemma append_all_overflows:
  "invar b \<Longrightarrow> cap \<le> length (contents b) + length (concat ds) \<Longrightarrow>
     \<forall>d \<in> set ds. length d < 2 ^ 63 \<Longrightarrow> append_all app ds b = Inl full"
proof (induction ds arbitrary: b)
  case Nil
  then show ?case using within [of b] by simp
next
  case (Cons d ds)
  show ?case
  proof (cases "app d b")
    case (Inl e)
    with Cons.prems have "cap \<le> length (contents b) + length d"
      by (metis app_fits Inr_Inl_False not_less)
    with Cons.prems app_full [of b d] show ?thesis by simp
  next
    case (Inr b1)
    then have "contents b1 = contents b @ d" and "invar b1"
      using Cons.prems app_contents app_inv by auto
    with Cons Inr show ?thesis by simp
  qed
qed

lemma reset_then_append_all:
  assumes "invar b" and "length (concat ds) < cap"
  shows "\<exists>b'. append_all app ds (rst b) = Inr b' \<and> contents b' = concat ds \<and> invar b'"
  using append_all_fits [of "rst b" ds] append_all_result [of "rst b" ds]
    rst_inv [OF assms(1)] assms(2) by (auto simp: rst_contents)

end

interpretation sp: append_buffer append_raw sp_reset sp_contents sp_inv sp_capacity
  "Assert_fail ''(m_size + len) < m_buf.size()''"
proof unfold_locales
  fix b :: send_packet and d :: bytes
  assume inv: "sp_inv b"
  show "length (sp_contents b) + length d < sp_capacity \<Longrightarrow> \<exists>b'. append_raw d b = Inr b'"
    using append_raw_fits [OF inv] by (simp add: length_sp_contents [OF inv])
  show "sp_capacity \<le> length (sp_contents b) + length d \<Longrightarrow> length d < 2 ^ 63 \<Longrightarrow>
      append_raw d b = Inl (Assert_fail ''(m_size + len) < m_buf.size()'')"
    using append_raw_full [OF inv, of d]
    by (simp add: length_sp_contents [OF inv] sp_capacity_def)
  show "append_raw d b = Inr b' \<Longrightarrow> length (sp_contents b) + length d < sp_capacity" for b'
    using append_raw_size [OF inv, of d b'] by (simp add: length_sp_contents [OF inv])
  show "length (sp_contents b) < sp_capacity"
    using inv by (simp add: length_sp_contents [OF inv]) (simp add: sp_inv_def)
qed (auto intro: append_raw_inv append_raw_contents sp_reset_inv)

section \<open>The typed appends\<close>

lemma le_bytes_16: "le_bytes 2 (v :: u16) = [ucast v, ucast (drop_bit 8 v)]"
  by (simp add: le_bytes_def upt_rec)

lemma le_bytes_32:
  "le_bytes 4 (v :: u32) =
     [ucast v, ucast (drop_bit 8 v), ucast (drop_bit 16 v), ucast (drop_bit 24 v)]"
  by (simp add: le_bytes_def upt_rec)

lemma append_uint16_raw: "append_uint16 v = append_raw [ucast (drop_bit 8 v), ucast v]"
  by (simp add: append_uint16_def Let_def le_bytes_bswap16) (simp add: le_bytes_16)

lemma append_uint32_raw:
  "append_uint32 v =
     append_raw [ucast (drop_bit 24 v), ucast (drop_bit 16 v), ucast (drop_bit 8 v), ucast v]"
  by (simp add: append_uint32_def Let_def le_bytes_bswap32) (simp add: le_bytes_32)

lemma emplace_back_append:
  assumes "length (ctor (replicate n 0)) = n" and "sp_inv p"
    and "unat (m_size p) + n < sp_capacity"
  shows "emplace_back n ctor p = append_raw (ctor (replicate n 0)) p"
proof -
  have "n + sp_capacity < 2 ^ 64" using assms(3) by (simp add: sp_capacity_def)
  then show ?thesis
    using assms append_raw_fits [of p "ctor (replicate n 0)"]
      size_check_exact(1) [of "m_size p" n]
    by (simp add: emplace_back_def sp_inv_def)
qed

lemmas append_simps = append_uint16_raw append_uint32_raw append_byte_def append_string_def
  append_object_def append_cstr_def

section \<open>Properties\<close>

text \<open>
  C18. Appending is list append within the capacity: from a well-formed packet, a sequence of
  appends succeeds exactly when everything together stays below 4096 bytes (the assertion is
  strict, so the last byte of the buffer is never used); then the packet holds the old contents
  followed by the pieces in order and is well formed again, and otherwise the first append that
  does not fit fails the assertion, so no byte is ever written outside the buffer.
\<close>

theorem append_all_refines_concat:
  assumes "sp_inv p" and "\<forall>d \<in> set ds. length d < 2 ^ 63"
  shows "(case append_all append_raw ds p of
            Inr p' \<Rightarrow> length (sp_contents p) + length (concat ds) < 4096 \<and>
                     sp_to_string p' = sp_contents p @ concat ds \<and>
                     unat (sp_size p') = length (sp_contents p) + length (concat ds) \<and> sp_inv p'
          | Inl e \<Rightarrow> 4096 \<le> length (sp_contents p) + length (concat ds) \<and>
                    e = Assert_fail ''(m_size + len) < m_buf.size()'')"
proof (cases "length (sp_contents p) + length (concat ds) < sp_capacity")
  case True
  then obtain p' where p': "append_all append_raw ds p = Inr p'"
    using sp.append_all_fits [OF assms(1)] by blast
  then show ?thesis
    using True sp.append_all_result [OF assms(1) p'] length_sp_contents [of p']
    by (simp add: sp_to_string_contents sp_size_def sp_capacity_def)
next
  case False
  then show ?thesis
    using sp.append_all_overflows [OF assms(1) _ assms(2)] by (simp add: sp_capacity_def)
qed

theorem append_all_refines_concat_witness:
  "sp_to_string (the (case append_all append_raw [[1, 2], [3]] (fresh_packet (\<lambda>_. 7)) of
      Inr p \<Rightarrow> Some p | Inl _ \<Rightarrow> None)) = [1, 2, 3]"
  using append_all_refines_concat [of "fresh_packet (\<lambda>_. 7)" "[[1, 2], [3]]"]
  by (simp split: sum.splits)

text \<open>
  The integer appends write network byte order: most significant byte first, whatever the
  host's own order, so a reader that decodes big-endian gets the value back.
\<close>

theorem append_uint_network_order:
  assumes "sp_inv p" and "append_uint16 v p = Inr q" and "append_uint32 w q = Inr r"
  shows "sp_contents r = sp_contents p @
           [ucast (drop_bit 8 v), ucast v,
            ucast (drop_bit 24 w), ucast (drop_bit 16 w), ucast (drop_bit 8 w), ucast w] \<and>
         le_word (rev (drop (length (sp_contents q)) (sp_contents r))) = w"
proof -
  have q: "sp_contents q = sp_contents p @ [ucast (drop_bit 8 v), ucast v]" and "sp_inv q"
    using assms sp.app_contents sp.app_inv by (auto simp: append_simps)
  moreover have "sp_contents r = sp_contents q @ rev (le_bytes 4 w)"
    using \<open>sp_inv q\<close> assms(3) sp.app_contents by (simp add: append_simps le_bytes_32)
  ultimately show ?thesis by (simp add: le_word_le_bytes) (simp add: le_bytes_32)
qed

theorem append_uint_network_order_witness:
  "\<exists>q r. append_uint16 (push_bit 8 98 OR 99) (fresh_packet (\<lambda>_. 0)) = Inr q \<and>
     append_uint32 (push_bit 24 100 OR push_bit 16 101 OR push_bit 8 102 OR 103) q = Inr r \<and>
     sp_contents r = [98, 99, 100, 101, 102, 103]"
proof -
  let ?v = "push_bit 8 98 OR 99 :: u16"
  let ?w = "push_bit 24 100 OR push_bit 16 101 OR push_bit 8 102 OR 103 :: u32"
  obtain q where q: "append_uint16 ?v (fresh_packet (\<lambda>_. 0)) = Inr q"
    using sp.app_fits [of "fresh_packet (\<lambda>_. 0)" "le_bytes 2 (bswap16 ?v)"]
    by (auto simp: append_uint16_def Let_def sp_capacity_def)
  then have "sp_inv q" and "length (sp_contents q) = 2"
    using append_raw_inv [OF fresh_packet_inv] append_raw_contents [OF fresh_packet_inv]
    by (force simp: append_uint16_def Let_def)+
  then obtain r where "append_uint32 ?w q = Inr r"
    using sp.app_fits [of q "le_bytes 4 (bswap32 ?w)"]
    by (auto simp: append_uint32_def Let_def sp_capacity_def)
  with q show ?thesis
    using append_uint_network_order [of "fresh_packet (\<lambda>_. 0)" ?v q ?w r] by simp
qed

text \<open>
  A packet is reusable: \<open>reset\<close> keeps it well formed, makes it empty, clears exactly the
  bytes that were in use and leaves the rest of the array alone, so anything below 4096 bytes can
  be appended afterwards and is then all the packet holds; \<open>clean_proper\<close> makes every byte 0.
\<close>

theorem reset_makes_reusable:
  assumes "sp_inv p" and "length (concat ds) < 4096"
  shows "\<exists>q. append_all append_raw ds (sp_reset p) = Inr q \<and> sp_to_string q = concat ds \<and>
         take (unat (m_size p)) (m_buf (sp_reset p)) = replicate (unat (m_size p)) 0 \<and>
         drop (unat (m_size p)) (m_buf (sp_reset p)) = drop (unat (m_size p)) (m_buf p) \<and>
         sp_size (sp_reset p) = 0 \<and> sp_data (clean_proper p) = replicate 4096 0"
proof -
  have "unat (m_size p) \<le> length (m_buf p)"
    using assms(1) by (simp add: sp_inv_def)
  moreover obtain q where "append_all append_raw ds (sp_reset p) = Inr q" "sp_contents q = concat ds"
    using sp.reset_then_append_all [OF assms(1), of ds] assms(2) by (auto simp: sp_capacity_def)
  ultimately show ?thesis
    by (simp add: sp_reset_def overwrite_def sp_to_string_contents sp_size_def sp_data_def
        clean_proper_def sp_capacity_def)
qed

theorem reset_makes_reusable_witness:
  "\<exists>q. append_all append_raw [[104, 105]] (sp_reset (fresh_packet (\<lambda>_. 9))) = Inr q \<and>
       sp_to_string q = [104, 105]"
  using reset_makes_reusable [of "fresh_packet (\<lambda>_. 9)" "[[104, 105]]"] by auto

end
