(* ===== verification/Work_Item.thy ===== *)
theory Work_Item
  imports Io_World Send_Packet
begin

text \<open>
  \<open>include/iuring/IWorkItem.hpp\<close>, \<open>src/WorkItem.hpp\<close>, \<open>src/WorkItem.cpp\<close> and
  \<open>WorkItem::init_send_msg\<close> of \<open>src/IOUring.cpp\<close>: one request to the ring, with its type, its
  callback, its packet and the memory its queue entry points into. \<open>m_io_ring->submit(*this)\<close>
  is a virtual call, an argument \<open>io_submit\<close> of the submitting members; it may change the item.
  The constructor's logger and ring pointers are left out, and members it does not initialise
  come from \<open>raw_memory\<close>.

  \<^item> the \<open>cmsg\<close> definitions are the \<open>CMSG_*\<close> macros of the C library for 8-byte alignment, and
    \<open>parse_cmsgs\<close> is how a receiver of the control buffer walks it.
  \<^item> \<open>wi_inv\<close>: the sizes of the item's arrays and the packet's invariant; every operation
    keeps it.
\<close>

section \<open>The object\<close>

datatype work_type =
    Type_UNKNOWN
  | Type_ACCEPT
  | Type_SEND_STREAM_DATA
  | Type_SEND_WORKPACKET
  | Type_RECV
  | Type_CONNECT
  | Type_CLOSE

datatype wi_state = IN_USE | FREE

text \<open>The \<open>std::variant\<close> of five function types, in its order; the first is the default.\<close>

datatype callback_var =
    Connect_cb func
  | Accept_cb func
  | Recv_cb func
  | Send_cb func
  | Close_cb func

record work_item =
  m_work_type :: work_type
  m_params :: datagram_params
  m_state :: wi_state
  m_send_packet :: send_packet
  m_id :: nat
  m_callback :: callback_var
  m_control :: bytes
  m_socket :: isocket
  m_msg :: msghdr
  m_msg_iov :: iovec
  m_sa :: ip_address
  m_buffer_for_uring :: bytes
  m_accept_sock_len :: u32
  m_connect_sock_len :: u32
  m_descr :: string
  m_link_to_next_request :: bool

definition new_work_item :: "raw_memory \<Rightarrow> nat \<Rightarrow> string \<Rightarrow> isocket \<Rightarrow> work_item" where
  "new_work_item raw wid descr s =
     \<lparr>m_work_type = Type_UNKNOWN,
      m_params = \<lparr>destination_address = ip_default, param_dscp = raw_dscp raw,
                  param_ttl = raw_ttl raw\<rparr>,
      m_state = IN_USE,
      m_send_packet = fresh_packet (raw_packet raw),
      m_id = wid,
      m_callback = Connect_cb None,
      m_control = map (raw_control raw) [0..<1024],
      m_socket = s,
      m_msg = raw_msg raw,
      m_msg_iov = \<lparr>iov_base = Null_ptr, iov_len = 0\<rparr>,
      m_sa = ip_default,
      m_buffer_for_uring = map (raw_storage raw) [0..<sizeof_sockaddr_storage],
      m_accept_sock_len = 0,
      m_connect_sock_len = 0,
      m_descr = descr,
      m_link_to_next_request = False\<rparr>"

definition is_free :: "work_item \<Rightarrow> bool" where
  "is_free wi \<longleftrightarrow> m_state wi = FREE"

definition mark_in_use :: "work_item \<Rightarrow> work_item outcome" where
  "mark_in_use wi =
     ebind (assert_that ''m_state == State::FREE'' (m_state wi = FREE))
       (\<lambda>_. Inr (wi\<lparr>m_state := IN_USE\<rparr>))"

definition mark_is_free :: "work_item \<Rightarrow> work_item outcome" where
  "mark_is_free wi =
     ebind (assert_that ''m_state == State::IN_USE'' (m_state wi = IN_USE))
       (\<lambda>_. Inr (wi\<lparr>m_state := FREE\<rparr>))"

primrec type_to_string :: "work_type \<Rightarrow> string" where
  "type_to_string Type_ACCEPT = ''accept''"
| "type_to_string Type_CONNECT = ''connect''"
| "type_to_string Type_RECV = ''recv''"
| "type_to_string Type_SEND_STREAM_DATA = ''send_stream_data''"
| "type_to_string Type_SEND_WORKPACKET = ''send_workpacket''"
| "type_to_string Type_UNKNOWN = ''unknown''"
| "type_to_string Type_CLOSE = ''close''"

definition wi_get_type :: "work_item \<Rightarrow> work_type" where
  "wi_get_type wi = m_work_type wi"

definition wi_get_socket :: "work_item \<Rightarrow> isocket" where
  "wi_get_socket wi = m_socket wi"

definition wi_get_id :: "work_item \<Rightarrow> nat" where
  "wi_get_id wi = m_id wi"

definition wi_get_raw_send_packet :: "work_item \<Rightarrow> send_packet" where
  "wi_get_raw_send_packet wi = m_send_packet wi"

definition wi_get_descr :: "work_item \<Rightarrow> string" where
  "wi_get_descr wi = m_descr wi"

definition wi_get_socket_address :: "work_item \<Rightarrow> ip_address" where
  "wi_get_socket_address wi = m_sa wi"

lemma wi_getters [simp]:
  "wi_get_type wi = m_work_type wi" "wi_get_socket wi = m_socket wi" "wi_get_id wi = m_id wi"
  "wi_get_raw_send_packet wi = m_send_packet wi" "wi_get_descr wi = m_descr wi"
  "wi_get_socket_address wi = m_sa wi"
  by (simp_all add: wi_get_type_def wi_get_socket_def wi_get_id_def wi_get_raw_send_packet_def
      wi_get_descr_def wi_get_socket_address_def)

definition wi_get_type_str :: "work_item \<Rightarrow> string" where
  "wi_get_type_str wi = type_to_string (wi_get_type wi)"

definition wi_is_stream :: "work_item \<Rightarrow> bool" where
  "wi_is_stream wi = is_stream (m_socket wi)"

definition is_recv_request :: "work_item \<Rightarrow> bool" where
  "is_recv_request wi \<longleftrightarrow> m_work_type wi = Type_RECV"

definition wi_next_request_should_wait :: "work_item \<Rightarrow> bool" where
  "wi_next_request_should_wait wi = m_link_to_next_request wi"

definition clean_send_packet :: "work_item \<Rightarrow> work_item" where
  "clean_send_packet wi = wi\<lparr>m_send_packet := sp_reset (m_send_packet wi)\<rparr>"

text \<open>\<open>get_send_packet()\<close> empties the packet and hands out a reference to it.\<close>

definition wi_get_send_packet :: "work_item \<Rightarrow> work_item" where
  "wi_get_send_packet wi = wi\<lparr>m_send_packet := sp_reset (m_send_packet wi)\<rparr>"

definition wi_packet_append :: "bytes \<Rightarrow> work_item \<Rightarrow> work_item outcome" where
  "wi_packet_append data wi =
     ebind (append_string data (m_send_packet wi)) (\<lambda>p. Inr (wi\<lparr>m_send_packet := p\<rparr>))"

section \<open>Submitting\<close>

type_synonym 'io io_submit = "work_item \<Rightarrow> 'io \<Rightarrow> (work_item \<times> 'io) outcome"

definition wi_submit_recv :: "'io io_submit \<Rightarrow> func \<Rightarrow> 'io io_submit" where
  "wi_submit_recv io_submit cb wi io =
     io_submit (wi\<lparr>m_callback := Recv_cb cb, m_work_type := Type_RECV\<rparr>) io"

definition wi_submit_packet ::
  "'io io_submit \<Rightarrow> datagram_params \<Rightarrow> func \<Rightarrow> 'io io_submit" where
  "wi_submit_packet io_submit params cb wi io =
     io_submit (wi\<lparr>m_params := params, m_callback := Send_cb cb,
                   m_work_type := Type_SEND_WORKPACKET\<rparr>) io"

definition wi_submit_stream_data :: "'io io_submit \<Rightarrow> func \<Rightarrow> 'io io_submit" where
  "wi_submit_stream_data io_submit cb wi io =
     io_submit (wi\<lparr>m_callback := Send_cb cb, m_work_type := Type_SEND_STREAM_DATA\<rparr>) io"

definition wi_submit_accept :: "'io io_submit \<Rightarrow> func \<Rightarrow> 'io io_submit" where
  "wi_submit_accept io_submit cb wi io =
     io_submit (wi\<lparr>m_callback := Accept_cb cb, m_work_type := Type_ACCEPT\<rparr>) io"

definition wi_submit_connect ::
  "'io io_submit \<Rightarrow> ip_address \<Rightarrow> func \<Rightarrow> 'io io_submit" where
  "wi_submit_connect io_submit target cb wi io =
     ebind (size_sockaddr target) (\<lambda>len.
     ebind (assert_that ''sizeof(m_buffer_for_uring) >= m_connect_sock_len''
              (unat len \<le> sizeof_sockaddr_storage)) (\<lambda>_.
     ebind (data_sockaddr target) (\<lambda>data.
     io_submit
       (wi\<lparr>m_connect_sock_len := len,
           m_buffer_for_uring := overwrite (m_buffer_for_uring wi) 0 (take (unat len) data),
           m_callback := Connect_cb cb,
           m_work_type := Type_CONNECT\<rparr>) io)))"

definition wi_submit_close :: "'io io_submit \<Rightarrow> func \<Rightarrow> 'io io_submit" where
  "wi_submit_close io_submit cb wi io =
     io_submit (wi\<lparr>m_callback := Close_cb cb, m_work_type := Type_CLOSE\<rparr>) io"

section \<open>Calling back\<close>

text \<open>
  Each \<open>call_*_callback\<close> asserts the alternative the variant holds and calls the copy of the
  function; an empty function throws. The result is the function to run and its argument. The
  send callback is followed by \<open>clean_send_packet\<close> (\<open>call_send_callback\<close> of theory \<open>Ring_Dispatch\<close>).
\<close>

definition invoke :: "func \<Rightarrow> cb_event \<Rightarrow> (nat \<times> cb_event) outcome" where
  "invoke f e = (case f of None \<Rightarrow> Inl Bad_function_call | Some n \<Rightarrow> Inr (n, e))"

definition wi_call_send_callback :: "int \<Rightarrow> work_item \<Rightarrow> (nat \<times> cb_event) outcome" where
  "wi_call_send_callback status wi =
     (case m_callback wi of
        Send_cb f \<Rightarrow> invoke f (Ev_send \<lparr>send_status = status\<rparr>)
      | _ \<Rightarrow> Inl (Assert_fail ''holds_alternative<send_callback_func_t>''))"

definition wi_call_close_callback :: "int \<Rightarrow> work_item \<Rightarrow> (nat \<times> cb_event) outcome" where
  "wi_call_close_callback status wi =
     (case m_callback wi of
        Close_cb f \<Rightarrow> invoke f (Ev_close \<lparr>close_status = status\<rparr>)
      | _ \<Rightarrow> Inl (Assert_fail ''holds_alternative<close_callback_func_t>''))"

definition wi_call_recv_callback ::
  "received_message \<Rightarrow> work_item \<Rightarrow> (nat \<times> cb_event) outcome" where
  "wi_call_recv_callback payload wi =
     (case m_callback wi of
        Recv_cb f \<Rightarrow> invoke f (Ev_recv payload)
      | _ \<Rightarrow> Inl (Assert_fail ''holds_alternative<recv_callback_func_t>''))"

definition wi_call_accept_callback ::
  "accept_result \<Rightarrow> work_item \<Rightarrow> (nat \<times> cb_event) outcome" where
  "wi_call_accept_callback new_conn wi =
     (case m_callback wi of
        Accept_cb f \<Rightarrow> invoke f (Ev_accept new_conn)
      | _ \<Rightarrow> Inl (Assert_fail ''holds_alternative<accept_callback_func_t>''))"

definition wi_call_connect_callback ::
  "connect_result \<Rightarrow> work_item \<Rightarrow> (nat \<times> cb_event) outcome" where
  "wi_call_connect_callback new_conn wi =
     (case m_callback wi of
        Connect_cb f \<Rightarrow> invoke f (Ev_connect new_conn)
      | _ \<Rightarrow> Inl (Assert_fail ''holds_alternative<connect_callback_func_t>''))"

section \<open>Control messages\<close>

definition sizeof_cmsghdr :: nat where "sizeof_cmsghdr = 16"

definition cmsg_align :: "nat \<Rightarrow> nat" where
  "cmsg_align n = (n + 7) div 8 * 8"

definition cmsg_space :: "nat \<Rightarrow> nat" where
  "cmsg_space len = cmsg_align len + cmsg_align sizeof_cmsghdr"

definition cmsg_len :: "nat \<Rightarrow> nat" where
  "cmsg_len len = cmsg_align sizeof_cmsghdr + len"

definition cmsg_firsthdr :: "nat \<Rightarrow> nat option" where
  "cmsg_firsthdr controllen = (if sizeof_cmsghdr \<le> controllen then Some 0 else None)"

definition cmsg_nxthdr :: "bytes \<Rightarrow> nat \<Rightarrow> nat \<Rightarrow> nat option" where
  "cmsg_nxthdr control controllen pos =
     (let l = unat (le_word (take 8 (drop pos control)) :: u64);
          nxt = pos + cmsg_align l
      in if l < sizeof_cmsghdr \<or> controllen < nxt + sizeof_cmsghdr then None else Some nxt)"

definition cmsg_bytes :: "int \<Rightarrow> int \<Rightarrow> bytes \<Rightarrow> bytes" where
  "cmsg_bytes level typ data =
     le_bytes 8 (word_of_nat (cmsg_len (length data)) :: u64) @
     le_bytes 4 (word_of_int level :: u32) @ le_bytes 4 (word_of_int typ :: u32) @ data"

function parse_cmsgs :: "bytes \<Rightarrow> (int \<times> int \<times> bytes) list" where
  "parse_cmsgs bs =
     (let l = unat (le_word (take 8 bs) :: u64) in
      if l < sizeof_cmsghdr \<or> length bs < l then []
      else (sint (le_word (take 4 (drop 8 bs)) :: u32),
            sint (le_word (take 4 (drop 12 bs)) :: u32),
            take (l - sizeof_cmsghdr) (drop sizeof_cmsghdr bs))
           # parse_cmsgs (drop (cmsg_align l) bs))"
  by pat_completeness auto
termination
proof (relation "measure length", goal_cases)
  case 1
  then show ?case by simp
next
  case (2 bs l)
  then have "0 < cmsg_align l" and "0 < length bs"
    by (auto simp: cmsg_align_def sizeof_cmsghdr_def)
  then show ?case by simp
qed

declare parse_cmsgs.simps [simp del]

section \<open>The message header of a datagram\<close>

definition init_send_msg :: "work_item \<Rightarrow> work_item outcome" where
  "init_send_msg wi =
     ebind (assert_that ''m_work_type == WorkItem::Type::SEND_WORKPACKET''
              (m_work_type wi = Type_SEND_WORKPACKET)) (\<lambda>_.
     let msg = (m_msg wi)\<lparr>msg_iov := To_iov, msg_iovlen := 1\<rparr> in
     ebind (assert_that ''m_msg.msg_iovlen == 1'' (msg_iovlen msg = 1)) (\<lambda>_.
     let iov = (m_msg_iov wi)\<lparr>iov_base := To_packet, iov_len := sp_size (m_send_packet wi)\<rparr>;
         tos = tos_of_dscp (param_dscp (m_params wi));
         ttl = ttl_of_params (param_ttl (m_params wi)) in
     ebind (assert_that ''ttl > 0 && ttl < 256'' (0 < sint ttl \<and> sint ttl < 256)) (\<lambda>_.
     let control = replicate (length (m_control wi)) 0;
         controllen = cmsg_space 1 + cmsg_space 4;
         msg = msg\<lparr>msg_control := To_control, msg_controllen := word_of_nat controllen\<rparr> in
     ebind (assert_that ''m_msg.msg_controllen < m_control.size()''
              (controllen < length (m_control wi))) (\<lambda>_.
     case cmsg_firsthdr controllen of
       None \<Rightarrow> Inl (Assert_fail ''cmsgptr'')
     | Some first \<Rightarrow>
         let control = overwrite control first (cmsg_bytes IPPROTO_IP IP_TOS [tos]) in
         (case cmsg_nxthdr control controllen first of
            None \<Rightarrow> Inl (Assert_fail ''cmsgptr'')
          | Some nxt \<Rightarrow>
              let control = overwrite control nxt
                    (cmsg_bytes IPPROTO_IP IP_TTL (le_bytes 4 ttl));
                  sa = destination_address (m_params wi);
                  msg = msg\<lparr>msg_flags := 0\<rparr>;
                  wi = wi\<lparr>m_msg_iov := iov, m_control := control, m_sa := sa\<rparr>
              in (case get_ipv4 sa of
                    Some v \<Rightarrow>
                      Inr (wi\<lparr>m_msg := msg\<lparr>msg_name := To_sa_in4,
                                        msg_namelen := word_of_nat sizeof_sockaddr_in\<rparr>\<rparr>)
                  | None \<Rightarrow>
                     (case get_ipv6 sa of
                        Some v \<Rightarrow>
                          Inr (wi\<lparr>m_msg := msg\<lparr>msg_name := To_sa_in6,
                                        msg_namelen := word_of_nat sizeof_sockaddr_in6\<rparr>\<rparr>)
                      | None \<Rightarrow> Inl (Abort_call ''init_send_msg''))))))))"

text \<open>The bytes a pointer of the item leads to, as \<open>sendmsg\<close> reads them.\<close>

definition deref :: "work_item \<Rightarrow> item_ptr \<Rightarrow> bytes" where
  "deref wi p =
     (case p of
        To_storage \<Rightarrow> m_buffer_for_uring wi
      | To_sa_in4 \<Rightarrow> (case m_in4 (m_sa wi) of Some v \<Rightarrow> sockaddr_in_bytes v | None \<Rightarrow> [])
      | To_sa_in6 \<Rightarrow> (case m_in6 (m_sa wi) of Some v \<Rightarrow> sockaddr_in6_bytes v | None \<Rightarrow> [])
      | To_control \<Rightarrow> m_control wi
      | To_packet \<Rightarrow> sp_data (m_send_packet wi)
      | To_iov \<Rightarrow> []
      | Null_ptr \<Rightarrow> [])"

definition deref_msg :: "work_item \<Rightarrow> msg_image" where
  "deref_msg wi =
     \<lparr>image_name = take (unat (msg_namelen (m_msg wi))) (deref wi (msg_name (m_msg wi))),
      image_data = take (unat (iov_len (m_msg_iov wi))) (deref wi (iov_base (m_msg_iov wi))),
      image_control = take (unat (msg_controllen (m_msg wi))) (deref wi (msg_control (m_msg wi)))\<rparr>"

section \<open>Invariant and lemmas\<close>

definition wi_inv :: "work_item \<Rightarrow> bool" where
  "wi_inv wi \<longleftrightarrow>
     sp_inv (m_send_packet wi) \<and> length (m_control wi) = 1024 \<and>
     length (m_buffer_for_uring wi) = sizeof_sockaddr_storage"

lemma new_work_item_inv [simp]: "wi_inv (new_work_item raw wid descr s)"
  by (simp add: wi_inv_def new_work_item_def)

lemma new_work_item_fields [simp]:
  "m_id (new_work_item raw wid descr s) = wid"
  "m_state (new_work_item raw wid descr s) = IN_USE"
  "m_socket (new_work_item raw wid descr s) = s"
  "m_work_type (new_work_item raw wid descr s) = Type_UNKNOWN"
  "m_link_to_next_request (new_work_item raw wid descr s) = False"
  by (simp_all add: new_work_item_def)

lemma wi_get_send_packet_inv: "wi_inv wi \<Longrightarrow> wi_inv (wi_get_send_packet wi)"
  by (simp add: wi_inv_def wi_get_send_packet_def sp_reset_inv)

lemma wi_packet_append_inv: "wi_inv wi \<Longrightarrow> wi_packet_append d wi = Inr wi' \<Longrightarrow> wi_inv wi'"
  by (auto simp: wi_inv_def wi_packet_append_def append_string_def outcome_simps
      dest: append_raw_inv)

lemma data_sockaddr_bounds:
  "size_sockaddr a = Inr n \<Longrightarrow> data_sockaddr a = Inr d \<Longrightarrow>
     length d = unat n \<and> unat n \<le> sizeof_sockaddr_storage"
  by (auto simp: size_sockaddr_def data_sockaddr_def split: option.splits)

lemma data_sockaddr_ok:
  "ip_valid a \<Longrightarrow> \<exists>n d. size_sockaddr a = Inr n \<and> data_sockaddr a = Inr d"
  by (auto simp: size_sockaddr_def data_sockaddr_def ip_valid_iff split: option.splits)

lemma length_cmsg_bytes [simp]: "length (cmsg_bytes l t d) = 16 + length d"
  by (simp add: cmsg_bytes_def)

lemma cmsg_sizes [simp]:
  "cmsg_space 1 = 24" "cmsg_space (Suc 0) = 24" "cmsg_space 4 = 24" "cmsg_align 17 = 24" "cmsg_align 20 = 24" "cmsg_len 1 = 17"
  "cmsg_len 4 = 20" "cmsg_len (Suc 0) = 17"
  by (simp_all add: cmsg_space_def cmsg_align_def cmsg_len_def sizeof_cmsghdr_def)

lemma parse_cmsgs_small [simp]: "length bs < 8 \<Longrightarrow> parse_cmsgs bs = []"
proof -
  assume a: "length bs < 8"
  show ?thesis
  proof (cases "unat (le_word (take 8 bs) :: u64) < sizeof_cmsghdr")
    case True
    then show ?thesis by (subst parse_cmsgs.simps) (simp add: Let_def)
  next
    case False
    then have "length bs < unat (le_word (take 8 bs) :: u64)"
      using a by (simp add: sizeof_cmsghdr_def)
    then show ?thesis by (subst parse_cmsgs.simps) (simp add: Let_def)
  qed
qed

lemma parse_cmsg_step:
  assumes "length d < 2 ^ 16" and "length d \<le> length (d @ rest)"
    and "- (2 ^ 31) \<le> level" "level < 2 ^ 31" "- (2 ^ 31) \<le> typ" "typ < 2 ^ 31"
  shows "parse_cmsgs (cmsg_bytes level typ d @ rest) =
    (level, typ, d) # parse_cmsgs (drop (cmsg_align (16 + length d) - 16 - length d) rest)"
proof -
  let ?bs = "cmsg_bytes level typ d @ rest"
  have al: "16 + length d \<le> cmsg_align (16 + length d)"
    by (simp add: cmsg_align_def)
  have len: "unat (le_word (take 8 ?bs) :: u64) = 16 + length d"
  proof -
    have "(le_word (take 8 ?bs) :: u64) = word_of_nat (cmsg_len (length d))"
      by (simp add: cmsg_bytes_def byte_simps)
    also have "unat \<dots> = 16 + length d"
      using assms(1)
      by (simp add: cmsg_len_def sizeof_cmsghdr_def cmsg_align_def unat_of_nat del: of_nat_add)
    finally show ?thesis .
  qed
  have "sint (le_word (take 4 (drop 8 ?bs)) :: u32) = level"
    and "sint (le_word (take 4 (drop 12 ?bs)) :: u32) = typ"
    using assms(3-6) by (simp_all add: cmsg_bytes_def byte_simps signed_of_int signed_take_bit_int_eq_self)
  moreover have "take (length d) (drop 16 ?bs) = d"
    and "drop (cmsg_align (16 + length d)) ?bs =
         drop (cmsg_align (16 + length d) - 16 - length d) rest"
    using al by (simp_all add: cmsg_bytes_def)
  ultimately show ?thesis
    by (subst parse_cmsgs.simps) (simp add: Let_def len sizeof_cmsghdr_def del: drop_append take_append)
qed

lemma tos_cmsg_nxthdr:
  "cmsg_nxthdr (overwrite (replicate 1024 0) 0 (cmsg_bytes IPPROTO_IP IP_TOS [t])) 48 0 = Some 24"
  by (simp add: cmsg_nxthdr_def overwrite_def cmsg_bytes_def byte_simps sizeof_cmsghdr_def)

definition datagram_control :: "dscp \<Rightarrow> timetolive \<Rightarrow> bytes" where
  "datagram_control d t =
     overwrite
       (overwrite (replicate 1024 0) 0 (cmsg_bytes IPPROTO_IP IP_TOS [tos_of_dscp d])) 24
       (cmsg_bytes IPPROTO_IP IP_TTL (le_bytes 4 (ttl_of_params t)))"

lemma datagram_control_48:
  "take 48 (datagram_control d t) =
     cmsg_bytes IPPROTO_IP IP_TOS [tos_of_dscp d] @ replicate 7 0 @
     cmsg_bytes IPPROTO_IP IP_TTL (le_bytes 4 (ttl_of_params t)) @ replicate 4 0"
  by (simp add: datagram_control_def overwrite_def take_replicate drop_replicate)

lemma length_datagram_control [simp]: "length (datagram_control d t) = 1024"
  by (simp add: datagram_control_def)

lemma parse_datagram_control:
  "parse_cmsgs (take 48 (datagram_control d t)) =
     [(IPPROTO_IP, IP_TOS, [tos_of_dscp d]), (IPPROTO_IP, IP_TTL, le_bytes 4 (ttl_of_params t))]"
  by (simp add: datagram_control_48 parse_cmsg_step)

lemma init_send_msg_eq:
  assumes "wi_inv wi" and "m_work_type wi = Type_SEND_WORKPACKET"
  shows "init_send_msg wi =
    (let p = m_params wi; a = destination_address p;
         wi' = wi\<lparr>m_msg_iov := \<lparr>iov_base = To_packet, iov_len = m_size (m_send_packet wi)\<rparr>,
                  m_control := datagram_control (param_dscp p) (param_ttl p), m_sa := a\<rparr>;
         hdr = (\<lambda>ptr len. (m_msg wi)\<lparr>msg_iov := To_iov, msg_iovlen := 1, msg_control := To_control,
                  msg_controllen := 48, msg_flags := 0, msg_name := ptr, msg_namelen := len\<rparr>)
     in if m_in4 a \<noteq> None then Inr (wi'\<lparr>m_msg := hdr To_sa_in4 16\<rparr>)
        else if m_in6 a \<noteq> None then Inr (wi'\<lparr>m_msg := hdr To_sa_in6 28\<rparr>)
        else Inl (Abort_call ''init_send_msg''))"
proof -
  obtain b l where iov: "m_msg_iov wi = \<lparr>iov_base = b, iov_len = l\<rparr>"
    by (metis iovec.surjective old.unit.exhaust)
  show ?thesis
    using assms tos_cmsg_nxthdr [of "tos_of_dscp (param_dscp (m_params wi))"]
    by (cases "m_in4 (destination_address (m_params wi))";
        cases "m_in6 (destination_address (m_params wi))")
      (simp_all add: init_send_msg_def wi_inv_def cmsg_firsthdr_def sizeof_cmsghdr_def Let_def
        ttl_signed_in_range datagram_control_def [symmetric] iov sp_size_def)
qed

lemma init_send_msg_inv:
  assumes "wi_inv wi" and "init_send_msg wi = Inr wi'"
  shows "wi_inv wi' \<and> m_id wi' = m_id wi \<and> m_state wi' = m_state wi \<and>
         m_callback wi' = m_callback wi \<and> m_work_type wi' = m_work_type wi \<and>
         m_socket wi' = m_socket wi \<and> m_send_packet wi' = m_send_packet wi"
proof -
  have t: "m_work_type wi = Type_SEND_WORKPACKET"
    using assms(2) by (auto simp: init_send_msg_def outcome_simps)
  show ?thesis
    using assms init_send_msg_eq [OF assms(1) t]
    by (auto simp: Let_def wi_inv_def split: if_splits)
qed

text \<open>What a reader of the message header finds behind its pointers.\<close>

lemma init_send_msg_deref:
  assumes "wi_inv wi" and "init_send_msg wi = Inr wi'"
  shows "data_sockaddr (destination_address (m_params wi)) = Inr (image_name (deref_msg wi'))"
    and "image_data (deref_msg wi') = sp_contents (m_send_packet wi)"
    and "parse_cmsgs (image_control (deref_msg wi')) =
      [(IPPROTO_IP, IP_TOS, [tos_of_dscp (param_dscp (m_params wi))]),
       (IPPROTO_IP, IP_TTL, le_bytes 4 (ttl_of_params (param_ttl (m_params wi))))]"
    and "msg_iovlen (m_msg wi') = 1" and "msg_iov (m_msg wi') = To_iov"
proof -
  let ?p = "m_params wi"
  let ?a = "destination_address ?p"
  have t: "m_work_type wi = Type_SEND_WORKPACKET"
    using assms(2) by (auto simp: init_send_msg_def outcome_simps)
  note eq = init_send_msg_eq [OF assms(1) t]
  have packet: "take (unat (m_size (m_send_packet wi))) (sp_data (m_send_packet wi)) =
      sp_contents (m_send_packet wi)"
    by (simp add: sp_contents_def sp_data_def)
  have "(\<exists>v. m_in4 ?a = Some v) \<or> (m_in4 ?a = None \<and> (\<exists>v. m_in6 ?a = Some v))"
    using assms(2) eq by (auto simp: Let_def split: if_splits)
  then show "data_sockaddr ?a = Inr (image_name (deref_msg wi'))"
    using assms(2) eq by (auto simp: Let_def deref_msg_def deref_def data_sockaddr_def)
  have "m_msg_iov wi' = \<lparr>iov_base = To_packet, iov_len = m_size (m_send_packet wi)\<rparr>"
    and "m_control wi' = datagram_control (param_dscp ?p) (param_ttl ?p)"
    and "m_send_packet wi' = m_send_packet wi"
    and "msg_control (m_msg wi') = To_control" and "msg_controllen (m_msg wi') = 48"
    using assms(2) eq by (auto simp: Let_def split: if_splits)
  then show "image_data (deref_msg wi') = sp_contents (m_send_packet wi)"
    and "parse_cmsgs (image_control (deref_msg wi')) =
      [(IPPROTO_IP, IP_TOS, [tos_of_dscp (param_dscp ?p)]),
       (IPPROTO_IP, IP_TTL, le_bytes 4 (ttl_of_params (param_ttl ?p)))]"
    using packet parse_datagram_control by (simp_all add: deref_msg_def deref_def)
  show "msg_iovlen (m_msg wi') = 1" and "msg_iov (m_msg wi') = To_iov"
    using assms(2) eq by (auto simp: Let_def split: if_splits)
qed

lemma init_send_msg_ok_iff:
  assumes "wi_inv wi" and "m_work_type wi = Type_SEND_WORKPACKET"
  shows "(\<exists>wi'. init_send_msg wi = Inr wi') \<longleftrightarrow> ip_valid (destination_address (m_params wi))"
    and "init_send_msg wi = Inl e \<longleftrightarrow>
      e = Abort_call ''init_send_msg'' \<and> \<not> ip_valid (destination_address (m_params wi))"
  using init_send_msg_eq [OF assms] by (auto simp: Let_def ip_valid_iff split: if_splits)

section \<open>Properties\<close>

text \<open>
  C16. The message header of a datagram says what the client asked for: following the pointers
  that \<open>init_send_msg\<close> stores, the kernel finds the destination's socket address, exactly the
  bytes of the packet, and two control messages, the type-of-service byte with the DSCP in its
  upper six bits and the time to live as a 4-byte integer; the assertions on the way never fail,
  and a destination of neither family aborts.
\<close>

theorem init_send_msg_image:
  assumes "wi_inv wi" and "m_work_type wi = Type_SEND_WORKPACKET"
  shows "(case init_send_msg wi of
      Inr wi' \<Rightarrow>
        data_sockaddr (destination_address (m_params wi)) = Inr (image_name (deref_msg wi')) \<and>
        image_data (deref_msg wi') = sp_contents (m_send_packet wi) \<and>
        parse_cmsgs (image_control (deref_msg wi')) =
          [(IPPROTO_IP, IP_TOS, [tos_of_dscp (param_dscp (m_params wi))]),
           (IPPROTO_IP, IP_TTL, le_bytes 4 (ucast (ttl_code (param_ttl (m_params wi))) :: u32))] \<and>
        drop_bit 2 (tos_of_dscp (param_dscp (m_params wi))) = dscp_code (param_dscp (m_params wi)) \<and>
        msg_iovlen (m_msg wi') = 1 \<and> msg_iov (m_msg wi') = To_iov \<and> wi_inv wi'
    | Inl e \<Rightarrow> e = Abort_call ''init_send_msg'' \<and>
        \<not> ip_valid (destination_address (m_params wi)))"
proof (cases "init_send_msg wi")
  case (Inl e)
  then show ?thesis using init_send_msg_ok_iff(2) [OF assms, of e] by simp
next
  case (Inr wi')
  then show ?thesis
    using init_send_msg_deref [OF assms(1) Inr] init_send_msg_inv [OF assms(1) Inr]
    by (simp add: ttl_of_params_def tos_of_dscp_bits)
qed

definition example_datagram :: work_item where
  "example_datagram =
     (new_work_item example_raw 0 ''d'' \<lparr>sock_type = IPV4_UDP, sock_port = 319,
          sock_kind = UNICAST_CLIENT_SOCKET, sock_fd = 3\<rparr>)
       \<lparr>m_params := \<lparr>destination_address = ip_of_sockaddr_in
            \<lparr>sin_family = 2, sin_port = bswap16 319, sin_addr = 1, sin_zero = 0\<rparr>,
          param_dscp = EXPEDITED_FORWARDING, param_ttl = PTP_TTL\<rparr>,
        m_work_type := Type_SEND_WORKPACKET\<rparr>"

lemma example_datagram_inv [simp]: "wi_inv example_datagram"
  by (simp add: example_datagram_def wi_inv_def new_work_item_def)

theorem init_send_msg_image_witness:
  "\<exists>wi'. init_send_msg example_datagram = Inr wi' \<and> image_data (deref_msg wi') = [] \<and>
     parse_cmsgs (image_control (deref_msg wi')) =
       [(0, 1, [184]), (0, 2, le_bytes 4 (16 :: u32))]"
  using init_send_msg_image [of example_datagram]
  by (cases "init_send_msg example_datagram")
    (simp_all add: example_datagram_def new_work_item_def ip_valid_iff tos_of_dscp_def
      wi_inv_def)

end
