(* ===== verification/Work_Pool.thy ===== *)
theory Work_Pool
  imports Work_Item
begin

text \<open>
  \<open>src/WorkPool.hpp\<close> and \<open>src/WorkPool.cpp\<close>: the table that turns the number a queue entry
  carries back into a work item. Work items are shared objects, so they live in a heap that only
  grows (an address is the index), and the pool's vector holds an address or null per slot;
  \<open>m_free_ids\<close> is the stack, top first. A client's \<open>shared_ptr\<close> is an address, and stays valid
  after the slot was cleared. Reading the vector at its length is the undefined behaviour the
  assertion \<open>id <= size()\<close> lets through. The mutex is left out: the model is sequential.

  \<^item> \<open>pool_inv\<close>: slots and free stack are complementary, a slot's item knows its slot.
  \<^item> \<open>pool_abs\<close>: the finite map from ids to live items the pool stands for; allocation adds a
    fresh id to it and freeing removes one (the refinement lemmas).
  \<^item> locale \<open>slot_registry\<close>: the contract of such a table, with the bound on its growth.
\<close>

section \<open>State\<close>

record workpool =
  wp_heap :: "work_item list"
  m_work_items :: "nat option list"
  m_free_ids :: "nat list"

definition new_pool :: workpool where
  "new_pool = \<lparr>wp_heap = [], m_work_items = [], m_free_ids = []\<rparr>"

definition heap_write :: "nat \<Rightarrow> work_item \<Rightarrow> workpool \<Rightarrow> workpool" where
  "heap_write a wi p = p\<lparr>wp_heap := (wp_heap p)[a := wi]\<rparr>"

section \<open>Operations\<close>

definition get_work_item :: "nat \<Rightarrow> workpool \<Rightarrow> nat option outcome" where
  "get_work_item wid p =
     ebind (assert_that ''id <= m_work_items.size()'' (wid \<le> length (m_work_items p))) (\<lambda>_.
     if wid = length (m_work_items p)
     then Inl (Undefined_behaviour ''m_work_items[id] past the end'')
     else
       (case m_work_items p ! wid of
          None \<Rightarrow> Inr None
        | Some a \<Rightarrow>
            ebind (assert_that ''!work_item->is_free()'' (\<not> is_free (wp_heap p ! a)))
              (\<lambda>_. Inr (Some a))))"

definition free_work_item :: "nat \<Rightarrow> workpool \<Rightarrow> workpool outcome" where
  "free_work_item wid p =
     ebind (assert_that ''id <= m_work_items.size()'' (wid \<le> length (m_work_items p))) (\<lambda>_.
     if wid = length (m_work_items p)
     then Inl (Undefined_behaviour ''m_work_items[id] past the end'')
     else
       (case m_work_items p ! wid of
          None \<Rightarrow> Inl (Assert_fail ''work_item != nullptr'')
        | Some a \<Rightarrow>
            ebind (assert_that ''!work_item->is_free()'' (\<not> is_free (wp_heap p ! a))) (\<lambda>_.
            ebind (mark_is_free (wp_heap p ! a)) (\<lambda>wi.
            Inr ((heap_write a wi p)\<lparr>m_work_items := (m_work_items p)[wid := None],
                                    m_free_ids := wid # m_free_ids p\<rparr>)))))"

definition internal_alloc_work_item ::
  "raw_memory \<Rightarrow> isocket \<Rightarrow> string \<Rightarrow> workpool \<Rightarrow> (nat \<times> workpool) outcome" where
  "internal_alloc_work_item raw socket descr p =
     (let a = length (wp_heap p) in
      case m_free_ids p of
        [] \<Rightarrow>
          let wid = length (m_work_items p);
              ret = new_work_item raw wid descr socket
          in ebind (assert_that ''!ret->is_free()'' (\<not> is_free ret)) (\<lambda>_.
             Inr (a, p\<lparr>wp_heap := wp_heap p @ [ret],
                       m_work_items := m_work_items p @ [Some a]\<rparr>))
      | wid # rest \<Rightarrow>
          let ret = new_work_item raw wid descr socket
          in ebind (assert_that ''!ret->is_free()'' (\<not> is_free ret)) (\<lambda>_.
             if wid < length (m_work_items p)
             then Inr (a, p\<lparr>wp_heap := wp_heap p @ [ret],
                            m_work_items := (m_work_items p)[wid := Some a],
                            m_free_ids := rest\<rparr>)
             else Inl (Undefined_behaviour ''m_work_items[id] past the end'')))"

text \<open>A member function of the item at an address that hands the item to the ring.\<close>

definition on_item :: "'io io_submit \<Rightarrow> nat \<Rightarrow> workpool \<Rightarrow> 'io \<Rightarrow> (workpool \<times> 'io) outcome" where
  "on_item f a p io =
     ebind (f (wp_heap p ! a) io) (\<lambda>(wi, io'). Inr (heap_write a wi p, io'))"

definition alloc_send_work_item ::
  "raw_memory \<Rightarrow> isocket \<Rightarrow> string \<Rightarrow> workpool \<Rightarrow> (nat \<times> workpool) outcome" where
  "alloc_send_work_item raw socket descr p = internal_alloc_work_item raw socket descr p"

definition alloc_recv_work_item ::
  "'io io_submit \<Rightarrow> raw_memory \<Rightarrow> isocket \<Rightarrow> func \<Rightarrow> string \<Rightarrow> workpool \<Rightarrow> 'io \<Rightarrow>
     (nat \<times> workpool \<times> 'io) outcome" where
  "alloc_recv_work_item io_submit raw socket callback descr p io =
     ebind (internal_alloc_work_item raw socket descr p) (\<lambda>(a, p).
     ebind (on_item (wi_submit_recv io_submit callback) a p io) (\<lambda>(p, io).
     Inr (a, p, io)))"

definition alloc_accept_work_item ::
  "'io io_submit \<Rightarrow> raw_memory \<Rightarrow> isocket \<Rightarrow> func \<Rightarrow> string \<Rightarrow> workpool \<Rightarrow> 'io \<Rightarrow>
     (nat \<times> workpool \<times> 'io) outcome" where
  "alloc_accept_work_item io_submit raw socket callback descr p io =
     ebind (internal_alloc_work_item raw socket descr p) (\<lambda>(a, p).
     ebind (on_item (wi_submit_accept io_submit callback) a p io) (\<lambda>(p, io).
     Inr (a, p, io)))"

definition alloc_connect_work_item ::
  "'io io_submit \<Rightarrow> raw_memory \<Rightarrow> ip_address \<Rightarrow> isocket \<Rightarrow> func \<Rightarrow> string \<Rightarrow> workpool \<Rightarrow> 'io \<Rightarrow>
     (nat \<times> workpool \<times> 'io) outcome" where
  "alloc_connect_work_item io_submit raw target socket callback descr p io =
     ebind (internal_alloc_work_item raw socket descr p) (\<lambda>(a, p).
     ebind (on_item (wi_submit_connect io_submit target callback) a p io) (\<lambda>(p, io).
     Inr (a, p, io)))"

definition alloc_close_work_item ::
  "'io io_submit \<Rightarrow> raw_memory \<Rightarrow> isocket \<Rightarrow> func \<Rightarrow> string \<Rightarrow> workpool \<Rightarrow> 'io \<Rightarrow>
     (nat \<times> workpool \<times> 'io) outcome" where
  "alloc_close_work_item io_submit raw socket callback descr p io =
     ebind (internal_alloc_work_item raw socket descr p) (\<lambda>(a, p).
     ebind (on_item (wi_submit_close io_submit callback) a p io) (\<lambda>(p, io).
     Inr (a, p, io)))"

text \<open>Only the tests may look at the table.\<close>

definition get_work_item_list :: "workpool \<Rightarrow> nat option list" where
  "get_work_item_list p = m_work_items p"

section \<open>Invariant and abstraction\<close>

definition slot_ok :: "workpool \<Rightarrow> nat \<Rightarrow> bool" where
  "slot_ok p i \<longleftrightarrow>
     (case m_work_items p ! i of
        None \<Rightarrow> True
      | Some a \<Rightarrow> a < length (wp_heap p) \<and> m_id (wp_heap p ! a) = i \<and>
                  m_state (wp_heap p ! a) = IN_USE)"

definition pool_inv :: "workpool \<Rightarrow> bool" where
  "pool_inv p \<longleftrightarrow>
     (\<forall>i < length (m_work_items p). slot_ok p i) \<and>
     distinct (m_free_ids p) \<and>
     set (m_free_ids p) = {i. i < length (m_work_items p) \<and> m_work_items p ! i = None} \<and>
     (\<forall>a < length (wp_heap p). wi_inv (wp_heap p ! a) \<and>
        m_id (wp_heap p ! a) < length (m_work_items p))"

definition pool_abs :: "workpool \<Rightarrow> nat \<Rightarrow> work_item option" where
  "pool_abs p i =
     (if i < length (m_work_items p)
      then (case m_work_items p ! i of None \<Rightarrow> None | Some a \<Rightarrow> Some (wp_heap p ! a))
      else None)"

definition pool_slots :: "workpool \<Rightarrow> nat" where
  "pool_slots p = length (m_work_items p)"

lemma pool_invI:
  assumes "\<And>i a. i < length (m_work_items p) \<Longrightarrow> m_work_items p ! i = Some a \<Longrightarrow>
      a < length (wp_heap p) \<and> m_id (wp_heap p ! a) = i \<and> m_state (wp_heap p ! a) = IN_USE"
    and "distinct (m_free_ids p)"
    and "\<And>i. i \<in> set (m_free_ids p) \<longleftrightarrow> i < length (m_work_items p) \<and> m_work_items p ! i = None"
    and "\<And>a. a < length (wp_heap p) \<Longrightarrow>
      wi_inv (wp_heap p ! a) \<and> m_id (wp_heap p ! a) < length (m_work_items p)"
  shows "pool_inv p"
  using assms by (auto simp: pool_inv_def slot_ok_def split: option.splits)

lemma pool_invD:
  assumes "pool_inv p"
  shows "\<And>i a. i < length (m_work_items p) \<Longrightarrow> m_work_items p ! i = Some a \<Longrightarrow>
      a < length (wp_heap p) \<and> m_id (wp_heap p ! a) = i \<and> m_state (wp_heap p ! a) = IN_USE"
    and "distinct (m_free_ids p)"
    and "\<And>i. i \<in> set (m_free_ids p) \<longleftrightarrow> i < length (m_work_items p) \<and> m_work_items p ! i = None"
    and "\<And>a. a < length (wp_heap p) \<Longrightarrow>
      wi_inv (wp_heap p ! a) \<and> m_id (wp_heap p ! a) < length (m_work_items p)"
  using assms by (auto simp: pool_inv_def slot_ok_def split: option.splits)

lemma new_pool_inv [simp]: "pool_inv new_pool"
  by (simp add: pool_inv_def new_pool_def)

lemma pool_abs_new [simp]: "pool_abs new_pool = Map.empty"
  by (simp add: pool_abs_def new_pool_def fun_eq_iff)

lemma pool_abs_Some:
  "pool_abs p i = Some wi \<longleftrightarrow>
     (\<exists>a. i < length (m_work_items p) \<and> m_work_items p ! i = Some a \<and> wi = wp_heap p ! a)"
  by (auto simp: pool_abs_def split: option.splits)

lemma dom_pool_abs: "dom (pool_abs p) = {i. i < length (m_work_items p) \<and> m_work_items p ! i \<noteq> None}"
  by (auto simp: pool_abs_def split: option.splits if_splits)

text \<open>Two slots never share an object, since an object knows its slot.\<close>

lemma slot_addr_inject:
  assumes "pool_inv p" and "i < length (m_work_items p)" and "j < length (m_work_items p)"
    and "m_work_items p ! i = Some a" and "m_work_items p ! j = Some a"
  shows "i = j"
  using pool_invD(1) [OF assms(1)] assms(2-) by metis

section \<open>Allocation, lookup and release against the abstraction\<close>

definition next_id :: "workpool \<Rightarrow> nat" where
  "next_id p = (case m_free_ids p of [] \<Rightarrow> length (m_work_items p) | wid # _ \<Rightarrow> wid)"

lemma alloc_result:
  assumes "pool_inv p"
  obtains p' where
    "internal_alloc_work_item raw s d p = Inr (length (wp_heap p), p')"
    "wp_heap p' = wp_heap p @ [new_work_item raw (next_id p) d s]"
    "m_work_items p' = (if m_free_ids p = [] then m_work_items p @ [Some (length (wp_heap p))]
       else (m_work_items p)[next_id p := Some (length (wp_heap p))])"
    "m_free_ids p' = tl (m_free_ids p)"
proof (cases "m_free_ids p")
  case Nil
  let ?w = "new_work_item raw (length (m_work_items p)) d s"
  show ?thesis
    by (rule that [of "p\<lparr>wp_heap := wp_heap p @ [?w],
          m_work_items := m_work_items p @ [Some (length (wp_heap p))]\<rparr>"])
      (simp_all add: internal_alloc_work_item_def next_id_def is_free_def Let_def Nil)
next
  case (Cons wid rest)
  then have "wid < length (m_work_items p)"
    using pool_invD(3) [OF assms, of wid] by simp
  then show ?thesis
    by (intro that [of "p\<lparr>wp_heap := wp_heap p @ [new_work_item raw wid d s],
          m_work_items := (m_work_items p)[wid := Some (length (wp_heap p))],
          m_free_ids := rest\<rparr>"])
      (simp_all add: internal_alloc_work_item_def next_id_def is_free_def Let_def Cons)
qed

lemma next_id_fresh:
  assumes "pool_inv p"
  shows "next_id p \<le> length (m_work_items p)" and "pool_abs p (next_id p) = None"
    and "m_free_ids p \<noteq> [] \<Longrightarrow> next_id p < length (m_work_items p)"
  using pool_invD(3) [OF assms, of "next_id p"]
  by (auto simp: next_id_def pool_abs_def split: list.splits)

lemma alloc_inv:
  assumes "pool_inv p" and "internal_alloc_work_item raw s d p = Inr (a, p')"
  shows "pool_inv p'"
proof -
  obtain q where q: "internal_alloc_work_item raw s d p = Inr (length (wp_heap p), q)"
    "wp_heap q = wp_heap p @ [new_work_item raw (next_id p) d s]"
    "m_work_items q = (if m_free_ids p = [] then m_work_items p @ [Some (length (wp_heap p))]
       else (m_work_items p)[next_id p := Some (length (wp_heap p))])"
    "m_free_ids q = tl (m_free_ids p)"
    by (rule alloc_result [OF assms(1)])
  note inv = pool_invD [OF assms(1)]
  show ?thesis
  proof (cases "m_free_ids p")
    case Nil
    then have "pool_inv q"
      using q inv(1,3,4)
      by (intro pool_invI) (auto simp: next_id_def nth_append less_Suc_eq)
    with q assms(2) show ?thesis by simp
  next
    case (Cons wid rest)
    then have wid: "next_id p = wid" "wid < length (m_work_items p)" "wid \<notin> set rest"
      using inv(2,3) by (auto simp: next_id_def)
    have "pool_inv q"
    proof (rule pool_invI)
      show "distinct (m_free_ids q)" using q Cons inv(2) by simp
      show "i \<in> set (m_free_ids q) \<longleftrightarrow> i < length (m_work_items q) \<and> m_work_items q ! i = None" for i
        using q Cons wid inv(3) [of i] by (auto simp: nth_list_update)
      show "a < length (wp_heap q) \<and> m_id (wp_heap q ! a) = i \<and> m_state (wp_heap q ! a) = IN_USE"
        if "i < length (m_work_items q)" "m_work_items q ! i = Some a" for i a
        using q Cons wid that inv(1) [of i a]
        by (auto simp: nth_list_update nth_append split: if_splits)
      show "wi_inv (wp_heap q ! a) \<and> m_id (wp_heap q ! a) < length (m_work_items q)"
        if "a < length (wp_heap q)" for a
        using q Cons wid that inv(4) [of a] by (auto simp: nth_append)
    qed
    with q assms(2) show ?thesis by simp
  qed
qed

lemma alloc_abs:
  assumes "pool_inv p" and "internal_alloc_work_item raw s d p = Inr (a, p')"
  shows "pool_abs p' = (pool_abs p)(next_id p \<mapsto> new_work_item raw (next_id p) d s)"
    and "a = length (wp_heap p)" and "a < length (wp_heap p')"
    and "wp_heap p' ! a = new_work_item raw (next_id p) d s"
    and "length (m_work_items p') =
      (if m_free_ids p = [] then Suc (length (m_work_items p)) else length (m_work_items p))"
    and "m_work_items p' ! next_id p = Some a"
    and "\<And>b. b < length (wp_heap p) \<Longrightarrow> wp_heap p' ! b = wp_heap p ! b"
proof -
  obtain q where q: "internal_alloc_work_item raw s d p = Inr (length (wp_heap p), q)"
    "wp_heap q = wp_heap p @ [new_work_item raw (next_id p) d s]"
    "m_work_items q = (if m_free_ids p = [] then m_work_items p @ [Some (length (wp_heap p))]
       else (m_work_items p)[next_id p := Some (length (wp_heap p))])"
    "m_free_ids q = tl (m_free_ids p)"
    by (rule alloc_result [OF assms(1)])
  have pq: "p' = q" "a = length (wp_heap p)" using q(1) assms(2) by auto
  show "a = length (wp_heap p)" "a < length (wp_heap p')"
    "wp_heap p' ! a = new_work_item raw (next_id p) d s"
    "length (m_work_items p') =
      (if m_free_ids p = [] then Suc (length (m_work_items p)) else length (m_work_items p))"
    "\<And>b. b < length (wp_heap p) \<Longrightarrow> wp_heap p' ! b = wp_heap p ! b"
    using q pq by (auto simp: nth_append)
  have lt: "m_free_ids p \<noteq> [] \<Longrightarrow> next_id p < length (m_work_items p)"
    by (rule next_id_fresh(3) [OF assms(1)])
  then show "m_work_items p' ! next_id p = Some a"
    using q pq by (auto simp: next_id_def nth_append split: if_splits)
  show "pool_abs p' = (pool_abs p)(next_id p \<mapsto> new_work_item raw (next_id p) d s)"
  proof
    fix i
    show "pool_abs p' i = ((pool_abs p)(next_id p \<mapsto> new_work_item raw (next_id p) d s)) i"
      using q pq lt pool_invD(1) [OF assms(1), of i]
      by (cases "m_free_ids p")
        (auto simp: pool_abs_def next_id_def nth_append nth_list_update less_Suc_eq
          split: option.splits)
  qed
qed

lemma heap_write_simps [simp]:
  "m_work_items (heap_write a wi p) = m_work_items p"
  "m_free_ids (heap_write a wi p) = m_free_ids p"
  "length (wp_heap (heap_write a wi p)) = length (wp_heap p)"
  by (simp_all add: heap_write_def)

lemma heap_write_nth:
  "a < length (wp_heap p) \<Longrightarrow>
     wp_heap (heap_write a wi p) ! b = (if b = a then wi else wp_heap p ! b)"
  by (simp add: heap_write_def nth_list_update)

definition same_identity :: "work_item \<Rightarrow> work_item \<Rightarrow> bool" where
  "same_identity wi wi' \<longleftrightarrow>
     m_id wi' = m_id wi \<and> m_state wi' = m_state wi \<and> m_socket wi' = m_socket wi"

lemma same_identity_refl [simp]: "same_identity wi wi"
  by (simp add: same_identity_def)

lemma same_identity_trans: "same_identity a b \<Longrightarrow> same_identity b c \<Longrightarrow> same_identity a c"
  by (simp add: same_identity_def)

lemma heap_write_inv:
  assumes "pool_inv p" and "a < length (wp_heap p)" and "wi_inv wi"
    and "same_identity (wp_heap p ! a) wi"
  shows "pool_inv (heap_write a wi p)"
  using assms pool_invD [OF assms(1)]
  by (intro pool_invI) (auto simp: heap_write_nth same_identity_def)

lemma heap_write_abs:
  assumes "pool_inv p" and "i < length (m_work_items p)" and "m_work_items p ! i = Some a"
  shows "pool_abs (heap_write a wi p) = (pool_abs p)(i \<mapsto> wi)"
proof
  fix j
  have la: "a < length (wp_heap p)" using pool_invD(1) [OF assms] by simp
  show "pool_abs (heap_write a wi p) j = ((pool_abs p)(i \<mapsto> wi)) j"
  proof (cases "j = i")
    case True
    then show ?thesis using assms(2,3) la by (simp add: pool_abs_def heap_write_nth)
  next
    case False
    then have "j < length (m_work_items p) \<Longrightarrow> m_work_items p ! j \<noteq> Some a"
      using slot_addr_inject [OF assms(1) _ assms(2) _ assms(3), of j] by blast
    with False show ?thesis
      by (cases "m_work_items p ! j") (auto simp: pool_abs_def heap_write_nth la)
  qed
qed

lemma heap_write_abs_stale:
  assumes "a < length (wp_heap p)"
    and "\<And>i. i < length (m_work_items p) \<Longrightarrow> m_work_items p ! i \<noteq> Some a"
  shows "pool_abs (heap_write a wi p) = pool_abs p"
  using assms by (auto simp: pool_abs_def heap_write_nth fun_eq_iff split: option.splits)

lemma heap_write_dom [simp]: "dom (pool_abs (heap_write a wi p)) = dom (pool_abs p)"
  by (simp add: dom_pool_abs)

lemma get_work_item_live:
  assumes "pool_inv p" and "pool_abs p i = Some wi"
  shows "\<exists>a. get_work_item i p = Inr (Some a) \<and> a < length (wp_heap p) \<and> wp_heap p ! a = wi \<and>
           m_work_items p ! i = Some a \<and> i < length (m_work_items p) \<and> m_id wi = i"
  using assms(2) pool_invD(1) [OF assms(1), of i]
  by (auto simp: pool_abs_Some get_work_item_def is_free_def)

lemma get_work_item_dead:
  "i < length (m_work_items p) \<Longrightarrow> pool_abs p i = None \<Longrightarrow> get_work_item i p = Inr None"
  by (auto simp: pool_abs_def get_work_item_def split: option.splits)

lemma get_work_item_cases:
  assumes "pool_inv p"
  shows "get_work_item i p =
    (if i < length (m_work_items p)
     then Inr (case pool_abs p i of None \<Rightarrow> None | Some _ \<Rightarrow> m_work_items p ! i)
     else if i = length (m_work_items p)
     then Inl (Undefined_behaviour ''m_work_items[id] past the end'')
     else Inl (Assert_fail ''id <= m_work_items.size()''))"
  using get_work_item_live [OF assms, of i] get_work_item_dead [of i p]
  by (auto simp: get_work_item_def split: option.splits)

lemma free_live:
  assumes "pool_inv p" and "pool_abs p i = Some wi"
  obtains p' where "free_work_item i p = Inr p'" and "pool_inv p'"
    and "pool_abs p' = (pool_abs p)(i := None)"
    and "m_free_ids p' = i # m_free_ids p"
    and "length (m_work_items p') = length (m_work_items p)"
    and "length (wp_heap p') = length (wp_heap p)"
proof -
  obtain a where a: "i < length (m_work_items p)" "m_work_items p ! i = Some a"
    "wi = wp_heap p ! a"
    using assms(2) by (auto simp: pool_abs_Some)
  note inv = pool_invD [OF assms(1)]
  have st: "a < length (wp_heap p)" "m_state wi = IN_USE" "m_id wi = i"
    using inv(1) [OF a(1,2)] a(3) by auto
  let ?p' = "(heap_write a (wi\<lparr>m_state := FREE\<rparr>) p)\<lparr>m_work_items := (m_work_items p)[i := None],
                                    m_free_ids := i # m_free_ids p\<rparr>"
  have inj: "m_work_items p ! j = Some a \<Longrightarrow> j < length (m_work_items p) \<Longrightarrow> j = i" for j
    using slot_addr_inject [OF assms(1) _ a(1) _ a(2)] by blast
  show thesis
  proof (rule that [of ?p'])
    show "free_work_item i p = Inr ?p'"
      using a st by (simp add: free_work_item_def mark_is_free_def is_free_def)
    have h: "wp_heap ?p' ! b = (if b = a then wi\<lparr>m_state := FREE\<rparr> else wp_heap p ! b)" for b
      using st by (simp add: heap_write_nth)
    show "pool_inv ?p'"
    proof (rule pool_invI)
      show "distinct (m_free_ids ?p')" using inv(2) inv(3) [of i] a by auto
      show "j \<in> set (m_free_ids ?p') \<longleftrightarrow> j < length (m_work_items ?p') \<and> m_work_items ?p' ! j = None" for j
        using inv(3) [of j] a by (auto simp: nth_list_update)
      show "b < length (wp_heap ?p') \<and> m_id (wp_heap ?p' ! b) = j \<and> m_state (wp_heap ?p' ! b) = IN_USE"
        if "j < length (m_work_items ?p')" "m_work_items ?p' ! j = Some b" for j b
      proof -
        have "j \<noteq> i" "m_work_items p ! j = Some b" "j < length (m_work_items p)"
          using that a(1) by (auto simp: nth_list_update split: if_splits)
        then have "b \<noteq> a" using inj [of j] by auto
        then show ?thesis using inv(1) [of j b] h \<open>m_work_items p ! j = Some b\<close> \<open>j < length (m_work_items p)\<close>
          by (simp add: heap_write_nth st)
      qed
      show "wi_inv (wp_heap ?p' ! b) \<and> m_id (wp_heap ?p' ! b) < length (m_work_items ?p')"
        if "b < length (wp_heap ?p')" for b
        using that inv(4) [of b] h [of b] st a by (auto simp: wi_inv_def)
    qed
    show "pool_abs ?p' = (pool_abs p)(i := None)"
    proof
      fix j
      show "pool_abs ?p' j = ((pool_abs p)(i := None)) j"
        using a inj [of j] h
        by (cases "m_work_items p ! j") (auto simp: pool_abs_def nth_list_update heap_write_nth st)
    qed
  qed simp_all
qed

lemma free_work_item_cases:
  assumes "pool_inv p"
  shows "free_work_item i p =
    (if length (m_work_items p) < i then Inl (Assert_fail ''id <= m_work_items.size()'')
     else if i = length (m_work_items p)
     then Inl (Undefined_behaviour ''m_work_items[id] past the end'')
     else if pool_abs p i = None then Inl (Assert_fail ''work_item != nullptr'')
     else free_work_item i p)"
  by (auto simp: free_work_item_def pool_abs_def split: option.splits)

lemma free_ok_live:
  "pool_inv p \<Longrightarrow> free_work_item i p = Inr p' \<Longrightarrow> \<exists>wi. pool_abs p i = Some wi"
  using free_work_item_cases [of p i] by (auto split: if_splits)

lemma free_inv: "pool_inv p \<Longrightarrow> free_work_item i p = Inr p' \<Longrightarrow> pool_inv p'"
  using free_ok_live [of p i p'] free_live [of p i] by (metis sum.inject(2))

lemma pool_live_count:
  assumes "pool_inv p"
  shows "card (dom (pool_abs p)) + length (m_free_ids p) = length (m_work_items p)"
proof -
  let ?n = "length (m_work_items p)"
  have free: "set (m_free_ids p) = {i. i < ?n \<and> m_work_items p ! i = None}"
    and "distinct (m_free_ids p)"
    using pool_invD [OF assms] by auto
  then have "length (m_free_ids p) = card {i. i < ?n \<and> m_work_items p ! i = None}"
    by (metis distinct_card)
  moreover have "card {i. i < ?n \<and> m_work_items p ! i \<noteq> None} +
      card {i. i < ?n \<and> m_work_items p ! i = None} = card {i. i < ?n}"
  proof (subst card_Un_disjoint [symmetric])
    show "card ({i. i < ?n \<and> m_work_items p ! i \<noteq> None} \<union>
        {i. i < ?n \<and> m_work_items p ! i = None}) = card {i. i < ?n}"
      by (rule arg_cong [of _ _ card]) auto
  qed auto
  ultimately show ?thesis by (simp add: dom_pool_abs)
qed

section \<open>The contract of a slot table\<close>

datatype reg_op = Op_alloc | Op_free nat

primrec run_ops ::
  "('p \<Rightarrow> (nat \<times> 'p) outcome) \<Rightarrow> (nat \<Rightarrow> 'p \<Rightarrow> 'p outcome) \<Rightarrow> reg_op list \<Rightarrow> 'p \<Rightarrow> 'p outcome" where
  "run_ops alloc rel [] p = Inr p"
| "run_ops alloc rel (x # xs) p =
     ebind (case x of Op_alloc \<Rightarrow> ebind (alloc p) (\<lambda>(i, p). Inr p) | Op_free i \<Rightarrow> rel i p)
       (run_ops alloc rel xs)"

text \<open>The largest number of live slots on the way, from \<open>n\<close> of them.\<close>

primrec peak :: "reg_op list \<Rightarrow> nat \<Rightarrow> nat" where
  "peak [] n = n"
| "peak (x # xs) n = max n (peak xs (case x of Op_alloc \<Rightarrow> Suc n | Op_free i \<Rightarrow> n - 1))"

lemma peak_ge: "n \<le> peak xs n"
  by (cases xs) simp_all

locale slot_registry =
  fixes alloc :: "'p \<Rightarrow> (nat \<times> 'p) outcome"
    and rel :: "nat \<Rightarrow> 'p \<Rightarrow> 'p outcome"
    and live :: "'p \<Rightarrow> nat set"
    and slots :: "'p \<Rightarrow> nat"
    and invar :: "'p \<Rightarrow> bool"
  assumes alloc_total: "invar p \<Longrightarrow> \<exists>i p'. alloc p = Inr (i, p')"
    and alloc_invar: "invar p \<Longrightarrow> alloc p = Inr (i, p') \<Longrightarrow> invar p'"
    and alloc_live: "invar p \<Longrightarrow> alloc p = Inr (i, p') \<Longrightarrow>
          i \<notin> live p \<and> live p' = insert i (live p)"
    and alloc_slots: "invar p \<Longrightarrow> alloc p = Inr (i, p') \<Longrightarrow>
          slots p' = max (slots p) (Suc (card (live p)))"
    and rel_total: "invar p \<Longrightarrow> i \<in> live p \<Longrightarrow> \<exists>p'. rel i p = Inr p'"
    and rel_invar: "invar p \<Longrightarrow> rel i p = Inr p' \<Longrightarrow> invar p'"
    and rel_live: "invar p \<Longrightarrow> rel i p = Inr p' \<Longrightarrow> i \<in> live p \<and> live p' = live p - {i}"
    and rel_slots: "invar p \<Longrightarrow> rel i p = Inr p' \<Longrightarrow> slots p' = slots p"
    and live_slots: "invar p \<Longrightarrow> live p \<subseteq> {..<slots p}"
begin

lemma finite_live: "invar p \<Longrightarrow> finite (live p)"
  using live_slots finite_subset by blast

lemma card_live_le: "invar p \<Longrightarrow> card (live p) \<le> slots p"
  using card_mono [OF _ live_slots] by fastforce

lemma step_cases:
  assumes "invar p" and "run_ops alloc rel (x # xs) p = Inr p'"
  obtains p1 where "run_ops alloc rel xs p1 = Inr p'" and "invar p1"
    and "card (live p1) = (case x of Op_alloc \<Rightarrow> Suc (card (live p)) | Op_free i \<Rightarrow> card (live p) - 1)"
    and "slots p1 = (case x of Op_alloc \<Rightarrow> max (slots p) (Suc (card (live p))) | Op_free i \<Rightarrow> slots p)"
proof (cases x)
  case Op_alloc
  with assms(2) obtain i p1 where a: "alloc p = Inr (i, p1)" "run_ops alloc rel xs p1 = Inr p'"
    by (auto simp: outcome_simps)
  moreover have "card (live p1) = Suc (card (live p))"
    using alloc_live [OF assms(1) a(1)] finite_live [OF assms(1)] by simp
  ultimately show ?thesis
    using that [of p1] alloc_invar [OF assms(1) a(1)] alloc_slots [OF assms(1) a(1)] Op_alloc
    by simp
next
  case (Op_free i)
  with assms(2) obtain p1 where a: "rel i p = Inr p1" "run_ops alloc rel xs p1 = Inr p'"
    by (auto simp: outcome_simps)
  then show ?thesis
    using that [of p1] rel_invar [OF assms(1) a(1)] rel_live [OF assms(1) a(1)]
      rel_slots [OF assms(1) a(1)] Op_free finite_live [OF assms(1)]
    by simp
qed

lemma run_invar: "invar p \<Longrightarrow> run_ops alloc rel xs p = Inr p' \<Longrightarrow> invar p'"
proof (induction xs arbitrary: p)
  case Nil
  then show ?case by simp
next
  case (Cons x xs)
  then show ?case using step_cases [OF Cons.prems] by blast
qed

lemma slots_peak:
  "invar p \<Longrightarrow> run_ops alloc rel xs p = Inr p' \<Longrightarrow>
     slots p' = max (slots p) (peak xs (card (live p)))"
proof (induction xs arbitrary: p)
  case Nil
  then show ?case using card_live_le [of p] by simp
next
  case (Cons x xs)
  obtain p1 where p1: "run_ops alloc rel xs p1 = Inr p'" "invar p1"
    "card (live p1) = (case x of Op_alloc \<Rightarrow> Suc (card (live p)) | Op_free i \<Rightarrow> card (live p) - 1)"
    "slots p1 = (case x of Op_alloc \<Rightarrow> max (slots p) (Suc (card (live p))) | Op_free i \<Rightarrow> slots p)"
    using step_cases [OF Cons.prems] by blast
  have "Suc (card (live p)) \<le> peak xs (Suc (card (live p)))" by (rule peak_ge)
  then show ?case
    using Cons.IH [OF p1(2,1)] p1(3,4) card_live_le [OF Cons.prems(1)]
    by (cases x) auto
qed

end

text \<open>Allocation as a client sees it through the returned item: \<open>get_id()\<close> of it.\<close>

definition alloc_id :: "raw_memory \<Rightarrow> isocket \<Rightarrow> string \<Rightarrow> workpool \<Rightarrow> (nat \<times> workpool) outcome" where
  "alloc_id raw s d p =
     ebind (alloc_send_work_item raw s d p) (\<lambda>(a, p'). Inr (m_id (wp_heap p' ! a), p'))"

lemma alloc_id_result:
  assumes "pool_inv p"
  obtains a p' where "internal_alloc_work_item raw s d p = Inr (a, p')"
    and "alloc_id raw s d p = Inr (next_id p, p')"
proof -
  obtain p' where p': "internal_alloc_work_item raw s d p = Inr (length (wp_heap p), p')"
    using alloc_result [OF assms] by blast
  then show thesis
    using that alloc_abs(4) [OF assms p']
    by (simp add: alloc_id_def alloc_send_work_item_def)
qed

interpretation pool: slot_registry "alloc_id raw s d" free_work_item
  "\<lambda>p. dom (pool_abs p)" "pool_slots" pool_inv for raw s d
proof unfold_locales
  fix p :: workpool
  assume inv: "pool_inv p"
  obtain a q where q: "internal_alloc_work_item raw s d p = Inr (a, q)"
    and aq: "alloc_id raw s d p = Inr (next_id p, q)"
    by (rule alloc_id_result [OF inv])
  show "\<exists>i p'. alloc_id raw s d p = Inr (i, p')" using aq by blast
  show "pool_inv p'" if "alloc_id raw s d p = Inr (i, p')" for i p'
    using that aq alloc_inv [OF inv q] by simp
  show "i \<notin> dom (pool_abs p) \<and> dom (pool_abs p') = insert i (dom (pool_abs p))"
    if "alloc_id raw s d p = Inr (i, p')" for i p'
    using that aq alloc_abs(1) [OF inv q] next_id_fresh(2) [OF inv] by auto
  show "pool_slots p' = max (pool_slots p) (Suc (card (dom (pool_abs p))))"
    if "alloc_id raw s d p = Inr (i, p')" for i p'
    using that aq alloc_abs(5) [OF inv q] pool_live_count [OF inv]
    by (cases "m_free_ids p") (auto simp: pool_slots_def)
  show "\<exists>p'. free_work_item i p = Inr p'" if "i \<in> dom (pool_abs p)" for i
    using that free_live [OF inv] by blast
  show "pool_inv p'" if "free_work_item i p = Inr p'" for i p'
    using free_inv [OF inv that] .
  show "i \<in> dom (pool_abs p) \<and> dom (pool_abs p') = dom (pool_abs p) - {i}"
    if f: "free_work_item i p = Inr p'" for i p'
  proof -
    obtain wi where "pool_abs p i = Some wi" using free_ok_live [OF inv f] by blast
    then show ?thesis using free_live [OF inv, of i wi] f by (metis domI dom_fun_upd sum.inject(2))
  qed
  show "pool_slots p' = pool_slots p" if f: "free_work_item i p = Inr p'" for i p'
  proof -
    obtain wi where "pool_abs p i = Some wi" using free_ok_live [OF inv f] by blast
    then show ?thesis
      using free_live [OF inv, of i wi] f by (metis pool_slots_def sum.inject(2))
  qed
  show "dom (pool_abs p) \<subseteq> {..<pool_slots p}"
    by (auto simp: dom_pool_abs pool_slots_def)
qed

section \<open>The contract of the ring a work item is submitted to\<close>

text \<open>What a submitting member does to the item: it keeps its identity and gets this type and
  callback.\<close>

definition submits :: "'io io_submit \<Rightarrow> work_type \<Rightarrow> callback_var \<Rightarrow> bool" where
  "submits f t cb \<longleftrightarrow>
     (\<forall>wi io wi' io'. wi_inv wi \<longrightarrow> f wi io = Inr (wi', io') \<longrightarrow>
        wi_inv wi' \<and> same_identity wi wi' \<and> m_work_type wi' = t \<and> m_callback wi' = cb)"

text \<open>A submitting member forwards to the ring an item with the same identity.\<close>

definition forwards :: "'io io_submit \<Rightarrow> 'io io_submit \<Rightarrow> work_type \<Rightarrow> callback_var \<Rightarrow> bool" where
  "forwards io_submit f t cb \<longleftrightarrow>
     (\<forall>wi io wi' io'. wi_inv wi \<longrightarrow> f wi io = Inr (wi', io') \<longrightarrow>
        (\<exists>v. wi_inv v \<and> same_identity wi v \<and> m_work_type v = t \<and> m_callback v = cb \<and>
             io_submit v io = Inr (wi', io')))"

lemma forwardsE:
  assumes "forwards io_submit f t cb" and "wi_inv wi" and "f wi io = Inr (wi', io')"
  obtains v where "wi_inv v" and "same_identity wi v" and "m_work_type v = t"
    and "m_callback v = cb" and "io_submit v io = Inr (wi', io')"
  using assms unfolding forwards_def by blast

lemma forwards_by:
  assumes "\<And>wi io. f wi io = io_submit (g wi) io"
    and "\<And>wi. wi_inv wi \<Longrightarrow> wi_inv (g wi) \<and> same_identity wi (g wi) \<and>
       m_work_type (g wi) = t \<and> m_callback (g wi) = cb"
  shows "forwards io_submit f t cb"
  unfolding forwards_def using assms by metis

lemma forwards_recv: "forwards io_submit (wi_submit_recv io_submit cb) Type_RECV (Recv_cb cb)"
  by (rule forwards_by [where g = "\<lambda>wi. wi\<lparr>m_callback := Recv_cb cb, m_work_type := Type_RECV\<rparr>"])
    (simp_all add: wi_submit_recv_def same_identity_def wi_inv_def)

lemma forwards_accept: "forwards io_submit (wi_submit_accept io_submit cb) Type_ACCEPT (Accept_cb cb)"
  by (rule forwards_by [where g = "\<lambda>wi. wi\<lparr>m_callback := Accept_cb cb, m_work_type := Type_ACCEPT\<rparr>"])
    (simp_all add: wi_submit_accept_def same_identity_def wi_inv_def)

lemma forwards_close: "forwards io_submit (wi_submit_close io_submit cb) Type_CLOSE (Close_cb cb)"
  by (rule forwards_by [where g = "\<lambda>wi. wi\<lparr>m_callback := Close_cb cb, m_work_type := Type_CLOSE\<rparr>"])
    (simp_all add: wi_submit_close_def same_identity_def wi_inv_def)

lemma forwards_stream_data:
  "forwards io_submit (wi_submit_stream_data io_submit cb) Type_SEND_STREAM_DATA (Send_cb cb)"
  by (rule forwards_by [where g = "\<lambda>wi. wi\<lparr>m_callback := Send_cb cb, m_work_type := Type_SEND_STREAM_DATA\<rparr>"])
    (simp_all add: wi_submit_stream_data_def same_identity_def wi_inv_def)

lemma forwards_packet:
  "forwards io_submit (wi_submit_packet io_submit params cb) Type_SEND_WORKPACKET (Send_cb cb)"
  by (rule forwards_by [where g = "\<lambda>wi. wi\<lparr>m_params := params, m_callback := Send_cb cb,
        m_work_type := Type_SEND_WORKPACKET\<rparr>"])
    (simp_all add: wi_submit_packet_def same_identity_def wi_inv_def)

lemma forwards_connect:
  "forwards io_submit (wi_submit_connect io_submit target cb) Type_CONNECT (Connect_cb cb)"
  unfolding forwards_def
proof (intro allI impI)
  fix wi io wi' io'
  assume inv: "wi_inv wi" and f: "wi_submit_connect io_submit target cb wi io = Inr (wi', io')"
  obtain n d where nd: "size_sockaddr target = Inr n" "data_sockaddr target = Inr d"
    using f by (auto simp: wi_submit_connect_def outcome_simps)
  let ?v = "wi\<lparr>m_connect_sock_len := n,
       m_buffer_for_uring := overwrite (m_buffer_for_uring wi) 0 (take (unat n) d),
       m_callback := Connect_cb cb, m_work_type := Type_CONNECT\<rparr>"
  have "length d = unat n" and "unat n \<le> 128"
    using data_sockaddr_bounds [OF nd] by simp_all
  then have "wi_inv ?v" using inv by (simp add: wi_inv_def)
  moreover have "io_submit ?v io = Inr (wi', io')"
    using f nd by (simp add: wi_submit_connect_def outcome_simps)
  ultimately show "\<exists>v. wi_inv v \<and> same_identity wi v \<and> m_work_type v = Type_CONNECT \<and>
      m_callback v = Connect_cb cb \<and> io_submit v io = Inr (wi', io')"
    by (intro exI [of _ ?v]) (simp add: same_identity_def)
qed

lemmas forwards_members = forwards_recv forwards_accept forwards_close forwards_stream_data
  forwards_packet forwards_connect

text \<open>
  What \<open>WorkItem\<close> and \<open>WorkPool\<close> rely on of \<open>IOUringInterface::submit\<close>: an item it returns is
  the same item, well formed, with its type and callback.
\<close>

locale ring_submitter =
  fixes io_submit :: "'io io_submit"
  assumes submit_inv: "wi_inv wi \<Longrightarrow> io_submit wi io = Inr (wi', io') \<Longrightarrow> wi_inv wi'"
    and submit_identity: "wi_inv wi \<Longrightarrow> io_submit wi io = Inr (wi', io') \<Longrightarrow>
      same_identity wi wi' \<and> m_callback wi' = m_callback wi \<and> m_work_type wi' = m_work_type wi"
begin

lemma submits_forwards:
  assumes "forwards io_submit f t cb"
  shows "submits f t cb"
  unfolding submits_def
proof (intro allI impI)
  fix wi io wi' io'
  assume "wi_inv wi" and "f wi io = Inr (wi', io')"
  then obtain v where "wi_inv v" "same_identity wi v" "m_work_type v = t" "m_callback v = cb"
    "io_submit v io = Inr (wi', io')"
    by (rule forwardsE [OF assms])
  then show "wi_inv wi' \<and> same_identity wi wi' \<and> m_work_type wi' = t \<and> m_callback wi' = cb"
    using submit_inv submit_identity same_identity_trans by metis
qed

lemmas submits_recv = submits_forwards [OF forwards_recv]
lemmas submits_accept = submits_forwards [OF forwards_accept]
lemmas submits_close = submits_forwards [OF forwards_close]
lemmas submits_connect = submits_forwards [OF forwards_connect]

lemma on_item_inv:
  assumes "submits f t cb" and "pool_inv p" and "a < length (wp_heap p)"
    and "on_item f a p io = Inr (p', io')"
  shows "\<exists>wi. p' = heap_write a wi p \<and> same_identity (wp_heap p ! a) wi \<and> wi_inv wi \<and>
     m_work_type wi = t \<and> m_callback wi = cb \<and> pool_inv p'"
proof -
  obtain wi where wi: "f (wp_heap p ! a) io = Inr (wi, io')" "p' = heap_write a wi p"
    using assms(4) by (auto simp: on_item_def outcome_simps)
  moreover have "wi_inv (wp_heap p ! a)" using pool_invD(4) [OF assms(2,3)] by simp
  ultimately have "wi_inv wi \<and> same_identity (wp_heap p ! a) wi \<and> m_work_type wi = t \<and>
      m_callback wi = cb"
    using assms(1) by (auto simp: submits_def)
  then show ?thesis using wi heap_write_inv [OF assms(2,3)] by blast
qed

lemma alloc_submit:
  assumes "submits f t cb" and "pool_inv p"
    and "ebind (internal_alloc_work_item raw s d p) (\<lambda>(a, p).
           ebind (on_item f a p io) (\<lambda>(p, io). Inr (a, p, io))) = Inr (a, p', io')"
  shows "\<exists>wi. pool_inv p' \<and> pool_abs p (next_id p) = None \<and>
     pool_abs p' = (pool_abs p)(next_id p \<mapsto> wi) \<and> m_id wi = next_id p \<and> m_socket wi = s \<and>
     m_work_type wi = t \<and> m_callback wi = cb \<and> wp_heap p' ! a = wi \<and>
     a = length (wp_heap p) \<and> length (m_work_items p) \<le> length (m_work_items p')"
proof -
  obtain p1 where al: "internal_alloc_work_item raw s d p = Inr (a, p1)"
    and on: "on_item f a p1 io = Inr (p', io')"
    using assms(3) by (auto simp: outcome_simps)
  note ab = alloc_abs [OF assms(2) al]
  obtain wi where wi: "p' = heap_write a wi p1" "same_identity (wp_heap p1 ! a) wi"
    "m_work_type wi = t" "m_callback wi = cb" "pool_inv p'"
    using on_item_inv [OF assms(1) alloc_inv [OF assms(2) al] ab(3) on] by blast
  have lt: "next_id p < length (m_work_items p1)"
    using ab(5) next_id_fresh [OF assms(2)] by (cases "m_free_ids p") (auto simp: next_id_def)
  show ?thesis
    using wi ab heap_write_abs [OF alloc_inv [OF assms(2) al] lt ab(6)] next_id_fresh(2) [OF assms(2)]
    by (intro exI [of _ wi]) (auto simp: same_identity_def heap_write_nth)
qed

lemmas alloc_recv = alloc_submit [OF submits_recv, folded alloc_recv_work_item_def]
lemmas alloc_accept = alloc_submit [OF submits_accept, folded alloc_accept_work_item_def]
lemmas alloc_close = alloc_submit [OF submits_close, folded alloc_close_work_item_def]
lemmas alloc_connect = alloc_submit [OF submits_connect, folded alloc_connect_work_item_def]

end

section \<open>Properties\<close>

text \<open>
  C11. The pool implements a finite map from ids to work items: from a well-formed pool an
  allocation always succeeds, takes an id outside the map and adds the new item under it,
  touching no other entry; a release succeeds exactly on an id of the map and removes it; a
  lookup returns the entry's object, null for a cleared slot, and faults only on an id no slot
  was ever made for. Each operation keeps the pool well formed.
\<close>

theorem pool_refines_map:
  assumes "pool_inv p"
  shows "(\<exists>a p'. internal_alloc_work_item raw s d p = Inr (a, p') \<and> pool_inv p' \<and>
            pool_abs p (next_id p) = None \<and> wp_heap p' ! a = new_work_item raw (next_id p) d s \<and>
            pool_abs p' = (pool_abs p)(next_id p \<mapsto> new_work_item raw (next_id p) d s)) \<and>
         (case free_work_item i p of
            Inr p' \<Rightarrow> i \<in> dom (pool_abs p) \<and> pool_inv p' \<and> pool_abs p' = (pool_abs p)(i := None)
          | Inl e \<Rightarrow> i \<notin> dom (pool_abs p)) \<and>
         (case get_work_item i p of
            Inr None \<Rightarrow> pool_abs p i = None
          | Inr (Some a) \<Rightarrow> pool_abs p i = Some (wp_heap p ! a) \<and> m_id (wp_heap p ! a) = i
          | Inl e \<Rightarrow> length (m_work_items p) \<le> i)" (is "?alloc \<and> ?free \<and> ?get")
proof (intro conjI)
  obtain a p' where al: "internal_alloc_work_item raw s d p = Inr (a, p')"
    by (rule alloc_id_result [OF assms])
  then show ?alloc
    using alloc_inv [OF assms al] alloc_abs [OF assms al] next_id_fresh(2) [OF assms] by blast
  show ?free
  proof (cases "pool_abs p i")
    case None
    then show ?thesis
      using free_ok_live [OF assms, of i] by (cases "free_work_item i p") auto
  next
    case (Some wi)
    obtain p' where "free_work_item i p = Inr p'" "pool_inv p'"
      "pool_abs p' = (pool_abs p)(i := None)"
      by (rule free_live [OF assms Some])
    with Some show ?thesis by auto
  qed
  show ?get
    using get_work_item_live [OF assms, of i] get_work_item_cases [OF assms, of i]
    by (cases "pool_abs p i") (auto split: if_splits)
qed

definition example_socket :: isocket where
  "example_socket = \<lparr>sock_type = IPV4_TCP, sock_port = LOCAL_WEB_PORT,
     sock_kind = UNICAST_CLIENT_SOCKET, sock_fd = 42\<rparr>"

theorem pool_refines_map_witness:
  "\<exists>a p'. internal_alloc_work_item example_raw example_socket ''test'' new_pool = Inr (a, p') \<and>
      dom (pool_abs p') = {0} \<and> get_work_item 0 new_pool \<noteq> Inr None"
proof -
  have "next_id new_pool = 0" and "get_work_item 0 new_pool \<noteq> Inr None"
    by (simp_all add: next_id_def new_pool_def get_work_item_def)
  then show ?thesis
    using pool_refines_map [OF new_pool_inv, of example_raw example_socket "''test''" 0] by auto
qed

text \<open>
  The bounds check of \<open>get_work_item\<close> and \<open>free_work_item\<close> is off by one: the assertion
  admits the id equal to the number of slots, and the read that follows is past the end of the
  vector; only larger ids are caught.
\<close>

theorem slot_check_off_by_one:
  "get_work_item (length (m_work_items p)) p =
     Inl (Undefined_behaviour ''m_work_items[id] past the end'') \<and>
   free_work_item (length (m_work_items p)) p =
     Inl (Undefined_behaviour ''m_work_items[id] past the end'') \<and>
   get_work_item (Suc (length (m_work_items p) + k)) p =
     Inl (Assert_fail ''id <= m_work_items.size()'') \<and>
   free_work_item (Suc (length (m_work_items p) + k)) p =
     Inl (Assert_fail ''id <= m_work_items.size()'')"
  by (simp add: get_work_item_def free_work_item_def)

text \<open>
  C19. The pool grows only as far as requests are outstanding at once: after any sequence of
  allocations and releases that runs through, the number of slots is exactly the largest number
  of items that were live together, since a released id is reused before the vector grows.
\<close>

theorem pool_size_is_peak:
  assumes "run_ops (alloc_id raw s d) free_work_item ops new_pool = Inr p"
  shows "length (m_work_items p) = peak ops 0 \<and>
         card (dom (pool_abs p)) + length (m_free_ids p) = length (m_work_items p)"
proof -
  have "pool_inv p" using pool.run_invar [OF new_pool_inv assms] .
  then show ?thesis
    using pool.slots_peak [OF new_pool_inv assms] pool_live_count [of p]
    by (simp add: pool_slots_def) (simp add: new_pool_def)
qed

theorem pool_size_is_peak_witness:
  "\<exists>p. run_ops (alloc_id example_raw example_socket ''t'') free_work_item
         [Op_alloc, Op_free 0, Op_alloc, Op_alloc, Op_free 1, Op_alloc] new_pool = Inr p \<and>
       length (m_work_items p) = 2"
proof -
  let ?ops = "[Op_alloc, Op_free 0, Op_alloc, Op_alloc, Op_free 1, Op_alloc]"
  obtain p where p: "run_ops (alloc_id example_raw example_socket ''t'') free_work_item ?ops new_pool = Inr p"
    by (simp add: alloc_id_def alloc_send_work_item_def internal_alloc_work_item_def new_pool_def
        free_work_item_def mark_is_free_def is_free_def heap_write_def Let_def)
  then show ?thesis using pool_size_is_peak [OF p] by auto
qed

text \<open>
  After a release the id is dead until it is handed out again: a lookup gives null, a second
  release fails the null assertion, the object a client still holds is marked free and keeps its
  id, and the very next allocation of any kind takes this id.
\<close>

theorem released_id_is_next:
  assumes "pool_inv p" and "free_work_item i p = Inr p'"
  shows "get_work_item i p' = Inr None \<and>
         free_work_item i p' = Inl (Assert_fail ''work_item != nullptr'') \<and>
         (\<exists>a. m_work_items p ! i = Some a \<and> m_id (wp_heap p' ! a) = i \<and> is_free (wp_heap p' ! a)) \<and>
         (\<exists>p''. alloc_id raw s d p' = Inr (i, p''))"
proof -
  obtain wi where wi: "pool_abs p i = Some wi" using free_ok_live [OF assms] by blast
  then have p': "pool_inv p'" "pool_abs p' i = None" "m_free_ids p' = i # m_free_ids p"
    "length (m_work_items p') = length (m_work_items p)"
    using free_live [OF assms(1) wi] assms(2) by (metis fun_upd_same sum.inject(2))+
  have lt: "i < length (m_work_items p')" using p' wi by (auto simp: pool_abs_Some)
  obtain a where a: "m_work_items p ! i = Some a" "a < length (wp_heap p)"
    "m_id (wp_heap p ! a) = i"
    using wi pool_invD(1) [OF assms(1)] by (auto simp: pool_abs_Some)
  then have "m_id (wp_heap p' ! a) = i \<and> is_free (wp_heap p' ! a)"
    using assms(2) wi
    by (auto simp: free_work_item_def outcome_simps mark_is_free_def is_free_def
        pool_abs_Some heap_write_nth)
  moreover have "get_work_item i p' = Inr None" by (rule get_work_item_dead [OF lt p'(2)])
  moreover have "free_work_item i p' = Inl (Assert_fail ''work_item != nullptr'')"
    using free_work_item_cases [OF p'(1), of i] lt p'(2) by simp
  moreover have "next_id p' = i" by (simp add: next_id_def p'(3))
  ultimately show ?thesis using a alloc_id_result [OF p'(1)] by metis
qed

theorem released_id_is_next_witness:
  "\<exists>p'. free_work_item 0 (snd (case alloc_id example_raw example_socket ''t'' new_pool of
            Inr r \<Rightarrow> r | Inl _ \<Rightarrow> (0, new_pool))) = Inr p' \<and>
        get_work_item 0 p' = Inr None"
proof -
  obtain a p where al: "internal_alloc_work_item example_raw example_socket ''t'' new_pool = Inr (a, p)"
    and id: "alloc_id example_raw example_socket ''t'' new_pool = Inr (next_id new_pool, p)"
    by (rule alloc_id_result [OF new_pool_inv])
  have inv: "pool_inv p" by (rule alloc_inv [OF new_pool_inv al])
  have "next_id new_pool = 0" by (simp add: next_id_def new_pool_def)
  then have "pool_abs p 0 = Some (new_work_item example_raw 0 ''t'' example_socket)"
    using alloc_abs(1) [OF new_pool_inv al] by simp
  then obtain p' where p': "free_work_item 0 p = Inr p'" using free_live [OF inv] by blast
  then show ?thesis using released_id_is_next [OF inv p'] id by auto
qed
end
