(* ===== verification/Ring_Submit.thy ===== *)
theory Ring_Submit
  imports Work_Pool
begin

text \<open>
  The submission side of \<open>src/IOUring.cpp\<close>: \<open>submit_all_requests\<close>, \<open>get_sqe\<close> and
  \<open>IOUring::submit\<close>. The submission queue is the trace: \<open>Get_sqe\<close> asks for an entry, which the
  world grants or not, \<open>Prep\<close> is the entry as it is when \<open>io_uring_submit\<close> runs. An entry comes
  with all flags clear and its preparation leaves the user data alone, as \<open>liburing\<close> has it from
  version 2.3 on, the first with \<open>io_uring_prep_recvmsg_multishot\<close>. Data a queue entry points to
  is given as it is at the submission.

  \<^item> \<open>prep_request\<close>: the \<open>switch\<close> of \<open>submit\<close>, one branch per type of work item.
  \<^item> \<open>request\<close>, \<open>requested\<close>, \<open>kernel_view\<close>: what a work item asks for, and what the kernel is
    asked by an entry; the refinement property says that they agree.
  \<^item> interpretation of \<open>ring_submitter\<close> on the ring's \<open>submit\<close>.
\<close>

section \<open>Queue entries\<close>

abbreviation buf_shift :: nat where "buf_shift \<equiv> 12"

definition buffer_size :: nat where
  "buffer_size = push_bit buf_shift 1"

lemma buffer_size_4096 [simp]: "buffer_size = 4096"
  by (simp add: buffer_size_def push_bit_eq_mult)

text \<open>The result of \<open>io_uring_submit\<close> is only logged.\<close>

definition submit_all_requests :: "io_trace \<Rightarrow> io_trace" where
  "submit_all_requests tr = Uring_submit # tr"

definition get_sqe :: "world \<Rightarrow> io_trace \<Rightarrow> io_trace outcome" where
  "get_sqe w tr =
     (let tr = Get_sqe # tr in
      if w_get_sqe w tr then Inr tr
      else
        let tr = Get_sqe # submit_all_requests tr in
        if w_get_sqe w tr then Inr tr
        else Inl (Abort_call ''sqe entry is NULL from get-sqe''))"

text \<open>\<open>io_uring_get_sqe\<close> and \<open>io_uring_sqe_set_data\<close>, then one of the preparations.\<close>

definition sqe_with :: "work_item \<Rightarrow> sqe_op \<Rightarrow> sqe" where
  "sqe_with wi oper =
     \<lparr>sqe_user_data = m_id wi, sqe_operation = oper, sqe_flags = 0, sqe_buf_group = 0\<rparr>"

definition set_flag :: "u8 \<Rightarrow> sqe \<Rightarrow> sqe" where
  "set_flag f s = s\<lparr>sqe_flags := sqe_flags s OR f\<rparr>"

definition link_if_wanted :: "work_item \<Rightarrow> sqe \<Rightarrow> sqe" where
  "link_if_wanted wi s =
     (if wi_next_request_should_wait wi then set_flag IOSQE_IO_LINK s else s)"

section \<open>The switch over the work types\<close>

definition zero_msghdr :: msghdr where
  "zero_msghdr =
     \<lparr>msg_name = Null_ptr, msg_namelen = 0, msg_iov = Null_ptr, msg_iovlen = 0,
      msg_control = Null_ptr, msg_controllen = 0, msg_flags = 0\<rparr>"

definition prep_close :: "work_item \<Rightarrow> (work_item \<times> sqe) outcome" where
  "prep_close wi = Inr (wi, sqe_with wi (Prep_close (get_fd (wi_get_socket wi))))"

definition prep_accept :: "work_item \<Rightarrow> (work_item \<times> sqe) outcome" where
  "prep_accept wi =
     (let wi = wi\<lparr>m_accept_sock_len := 0\<rparr> in
      Inr (wi, sqe_with wi (Prep_accept (get_fd (wi_get_socket wi)) (m_accept_sock_len wi) 0)))"

definition prep_connect :: "work_item \<Rightarrow> (work_item \<times> sqe) outcome" where
  "prep_connect wi =
     ebind (assert_that ''item.m_connect_sock_len > 0'' (0 < m_connect_sock_len wi)) (\<lambda>_.
     ebind (assert_that ''item.m_connect_sock_len == sizeof(*sa)''
              (unat (m_connect_sock_len wi) = sizeof_sockaddr_in)) (\<lambda>_.
     Inr (wi, link_if_wanted wi
           (sqe_with wi (Prep_connect (get_fd (wi_get_socket wi))
              (take (unat (m_connect_sock_len wi)) (m_buffer_for_uring wi))
              (m_connect_sock_len wi))))))"

definition prep_recv :: "work_item \<Rightarrow> (work_item \<times> sqe) outcome" where
  "prep_recv wi =
     ebind
       (if wi_is_stream wi
        then Inr (wi, sqe_with wi (Prep_recv (get_fd (wi_get_socket wi)) Null_ptr buffer_size 0))
        else
          let msg = zero_msghdr\<lparr>msg_name := To_storage,
                      msg_namelen := word_of_nat sizeof_sockaddr_storage,
                      msg_iov := To_iov, msg_iovlen := 1\<rparr>
          in ebind (assert_that ''item.m_msg.msg_iovlen == 1'' (msg_iovlen msg = 1)) (\<lambda>_.
             let wi = wi\<lparr>m_msg := msg, m_msg_iov := (m_msg_iov wi)\<lparr>iov_base := Null_ptr\<rparr>\<rparr>
             in Inr (wi, sqe_with wi
                  (Prep_recvmsg_multishot (get_fd (wi_get_socket wi)) (m_msg wi) MSG_TRUNC))))
       (\<lambda>(wi, s). Inr (wi, (set_flag IOSQE_BUFFER_SELECT s)\<lparr>sqe_buf_group := 0\<rparr>))"

definition prep_send_stream :: "work_item \<Rightarrow> (work_item \<times> sqe) outcome" where
  "prep_send_stream wi =
     ebind (assert_that ''item.is_stream()'' (wi_is_stream wi)) (\<lambda>_.
     let sp = wi_get_raw_send_packet wi in
     Inr (wi, link_if_wanted wi
           (sqe_with wi (Prep_send (get_fd (wi_get_socket wi)) (sp_data sp) (sp_size sp) 0))))"

definition prep_send_workpacket :: "work_item \<Rightarrow> (work_item \<times> sqe) outcome" where
  "prep_send_workpacket wi =
     ebind (assert_that ''!item.is_stream()'' (\<not> wi_is_stream wi)) (\<lambda>_.
     ebind (init_send_msg wi) (\<lambda>wi.
     Inr (wi, link_if_wanted wi
           (sqe_with wi (Prep_sendmsg (get_fd (wi_get_socket wi)) (m_msg wi) (deref_msg wi) 0)))))"

definition prep_request :: "work_item \<Rightarrow> (work_item \<times> sqe) outcome" where
  "prep_request wi =
     (case wi_get_type wi of
        Type_UNKNOWN \<Rightarrow> Inl (Abort_call ''unhandled work item type'')
      | Type_CLOSE \<Rightarrow> prep_close wi
      | Type_ACCEPT \<Rightarrow> prep_accept wi
      | Type_CONNECT \<Rightarrow> prep_connect wi
      | Type_RECV \<Rightarrow> prep_recv wi
      | Type_SEND_STREAM_DATA \<Rightarrow> prep_send_stream wi
      | Type_SEND_WORKPACKET \<Rightarrow> prep_send_workpacket wi)"

definition ring_submit :: "world \<Rightarrow> io_trace io_submit" where
  "ring_submit w wi tr =
     ebind (get_sqe w tr) (\<lambda>tr.
     ebind (prep_request wi) (\<lambda>(wi, s).
     Inr (wi, submit_all_requests (Prep s # tr))))"

section \<open>Lemmas\<close>

lemma get_sqe_cases:
  "get_sqe w tr =
     (if w_get_sqe w (Get_sqe # tr) then Inr (Get_sqe # tr)
      else if w_get_sqe w (Get_sqe # Uring_submit # Get_sqe # tr)
      then Inr (Get_sqe # Uring_submit # Get_sqe # tr)
      else Inl (Abort_call ''sqe entry is NULL from get-sqe''))"
  by (simp add: get_sqe_def submit_all_requests_def Let_def)

lemma get_sqe_keeps:
  "get_sqe w tr = Inr tr' \<Longrightarrow> submitted tr' = submitted tr \<and> callbacks_run tr' = callbacks_run tr"
  by (auto simp: get_sqe_cases split: if_splits)

text \<open>What every branch leaves alone, and what it puts into its entry.\<close>

definition prepared :: "work_item \<Rightarrow> work_item \<times> sqe \<Rightarrow> bool" where
  "prepared wi r \<longleftrightarrow>
     sqe_user_data (snd r) = m_id wi \<and> sqe_buf_group (snd r) = 0 \<and> wi_inv (fst r) \<and>
     same_identity wi (fst r) \<and> m_callback (fst r) = m_callback wi \<and>
     m_work_type (fst r) = m_work_type wi \<and>
     m_link_to_next_request (fst r) = m_link_to_next_request wi"

lemma sqe_with_simps [simp]:
  "sqe_user_data (sqe_with wi oper) = m_id wi"
  "sqe_operation (sqe_with wi oper) = oper"
  "sqe_flags (sqe_with wi oper) = 0"
  "sqe_buf_group (sqe_with wi oper) = 0"
  by (simp_all add: sqe_with_def)

lemma set_flag_simps [simp]:
  "sqe_user_data (set_flag f s) = sqe_user_data s"
  "sqe_operation (set_flag f s) = sqe_operation s"
  "sqe_flags (set_flag f s) = sqe_flags s OR f"
  "sqe_buf_group (set_flag f s) = sqe_buf_group s"
  by (simp_all add: set_flag_def)

lemma link_if_wanted_simps [simp]:
  "sqe_user_data (link_if_wanted wi s) = sqe_user_data s"
  "sqe_operation (link_if_wanted wi s) = sqe_operation s"
  "sqe_flags (link_if_wanted wi s) =
     (if m_link_to_next_request wi then sqe_flags s OR IOSQE_IO_LINK else sqe_flags s)"
  "sqe_buf_group (link_if_wanted wi s) = sqe_buf_group s"
  by (simp_all add: link_if_wanted_def wi_next_request_should_wait_def)

lemma prep_close_eq:
  "prep_close wi = Inr (wi, sqe_with wi (Prep_close (get_fd (m_socket wi))))"
  by (simp add: prep_close_def)

lemma prep_accept_eq:
  "prep_accept wi = Inr (wi\<lparr>m_accept_sock_len := 0\<rparr>,
     sqe_with wi (Prep_accept (get_fd (m_socket wi)) 0 0))"
  by (simp add: prep_accept_def Let_def sqe_with_def)

lemma prep_connect_eq:
  "prep_connect wi =
     (if m_connect_sock_len wi = 0 then Inl (Assert_fail ''item.m_connect_sock_len > 0'')
      else if m_connect_sock_len wi = 16
      then Inr (wi, link_if_wanted wi (sqe_with wi (Prep_connect (get_fd (m_socket wi))
             (take 16 (m_buffer_for_uring wi)) 16)))
      else Inl (Assert_fail ''item.m_connect_sock_len == sizeof(*sa)''))"
proof -
  have "unat (m_connect_sock_len wi) = 16 \<longleftrightarrow> m_connect_sock_len wi = 16"
    by (simp add: word_unat_eq_iff)
  then show ?thesis by (simp add: prep_connect_def word_neq_0_conv [symmetric])
qed

definition recv_item :: "work_item \<Rightarrow> work_item" where
  "recv_item wi =
     (if wi_is_stream wi then wi
      else wi\<lparr>m_msg := zero_msghdr\<lparr>msg_name := To_storage, msg_namelen := 128,
                         msg_iov := To_iov, msg_iovlen := 1\<rparr>,
              m_msg_iov := (m_msg_iov wi)\<lparr>iov_base := Null_ptr\<rparr>\<rparr>)"

lemma prep_recv_eq:
  "prep_recv wi =
     Inr (recv_item wi, (set_flag IOSQE_BUFFER_SELECT
       (sqe_with wi
         (if wi_is_stream wi then Prep_recv (get_fd (m_socket wi)) Null_ptr 4096 0
          else Prep_recvmsg_multishot (get_fd (m_socket wi)) (m_msg (recv_item wi)) MSG_TRUNC)))
         \<lparr>sqe_buf_group := 0\<rparr>)"
  by (simp add: prep_recv_def recv_item_def Let_def sqe_with_def)

lemma prep_send_stream_eq:
  "prep_send_stream wi =
     (if wi_is_stream wi
      then Inr (wi, link_if_wanted wi (sqe_with wi
             (Prep_send (get_fd (m_socket wi)) (sp_data (m_send_packet wi))
                (sp_size (m_send_packet wi)) 0)))
      else Inl (Assert_fail ''item.is_stream()''))"
  by (simp add: prep_send_stream_def Let_def)

lemma init_send_msg_link:
  assumes "wi_inv wi" and "init_send_msg wi = Inr wi'"
  shows "m_link_to_next_request wi' = m_link_to_next_request wi"
proof -
  have "m_work_type wi = Type_SEND_WORKPACKET"
    using assms(2) by (auto simp: init_send_msg_def outcome_simps)
  then show ?thesis
    using assms(2) init_send_msg_eq [OF assms(1)] by (auto simp: Let_def split: if_splits)
qed

lemma prep_send_workpacket_prepared:
  assumes "wi_inv wi" and "prep_send_workpacket wi = Inr r"
  shows "prepared wi r"
proof -
  obtain wi1 where wi1: "init_send_msg wi = Inr wi1"
    and r: "r = (wi1, link_if_wanted wi1
       (sqe_with wi1 (Prep_sendmsg (get_fd (m_socket wi1)) (m_msg wi1) (deref_msg wi1) 0)))"
    using assms(2) by (auto simp: prep_send_workpacket_def outcome_simps)
  show ?thesis
    using init_send_msg_inv [OF assms(1) wi1] init_send_msg_link [OF assms(1) wi1]
    by (simp add: r prepared_def same_identity_def)
qed

lemma prep_request_prepared:
  assumes "wi_inv wi" and "prep_request wi = Inr r"
  shows "prepared wi r"
proof (cases "m_work_type wi")
  case Type_SEND_WORKPACKET
  then show ?thesis
    using assms prep_send_workpacket_prepared by (simp add: prep_request_def)
next
  case Type_RECV
  then show ?thesis
    using assms
    by (cases "wi_is_stream wi")
      (auto simp: prep_request_def prep_recv_eq prepared_def recv_item_def same_identity_def
        wi_inv_def)
next
  case Type_CONNECT
  then show ?thesis
    using assms
    by (auto simp: prep_request_def prep_connect_eq prepared_def split: if_splits)
qed (use assms in \<open>auto simp: prep_request_def prep_close_eq prep_accept_eq prep_send_stream_eq
    prepared_def same_identity_def wi_inv_def split: if_splits\<close>)

lemma ring_submitE:
  assumes "ring_submit w wi tr = Inr (wi', tr')"
  obtains s tr1 where "get_sqe w tr = Inr tr1" and "prep_request wi = Inr (wi', s)"
    and "tr' = Uring_submit # Prep s # tr1"
  using assms by (auto simp: ring_submit_def submit_all_requests_def outcome_simps)

lemma ring_submit_trace:
  assumes "wi_inv wi" and "ring_submit w wi tr = Inr (wi', tr')"
  shows "\<exists>s. prep_request wi = Inr (wi', s) \<and> submitted tr' = s # submitted tr \<and>
    callbacks_run tr' = callbacks_run tr \<and> sqe_user_data s = m_id wi \<and> hd tr' = Uring_submit"
proof -
  obtain s tr1 where s: "get_sqe w tr = Inr tr1" "prep_request wi = Inr (wi', s)"
    "tr' = Uring_submit # Prep s # tr1"
    by (rule ring_submitE [OF assms(2)])
  show ?thesis
    using s get_sqe_keeps [OF s(1)] prep_request_prepared [OF assms(1) s(2)]
    by (simp add: prepared_def)
qed

interpretation ring: ring_submitter "ring_submit w" for w
proof unfold_locales
  fix wi wi' :: work_item and tr tr' :: io_trace
  assume a: "wi_inv wi" "ring_submit w wi tr = Inr (wi', tr')"
  obtain s where s: "prep_request wi = Inr (wi', s)" using ring_submitE [OF a(2)] by metis
  show "wi_inv wi'"
    and "same_identity wi wi' \<and> m_callback wi' = m_callback wi \<and> m_work_type wi' = m_work_type wi"
    using prep_request_prepared [OF a(1) s] by (simp_all add: prepared_def)
qed

section \<open>What a request means\<close>

text \<open>
  The requests of the library's interface: the file descriptor and what is to happen there. The
  entry's pointers, lengths and flags are one encoding of them, which \<open>kernel_view\<close> decodes the
  way the kernel reads an entry; a reception without a selected buffer, or into memory the entry
  names itself, is none of them.
\<close>

datatype request =
    Close_fd int
  | Accept_on int
  | Connect_to int bytes
  | Receive_stream int nat
  | Receive_datagrams int nat
  | Send_bytes int bytes
  | Send_datagram int bytes bytes "(int \<times> int \<times> bytes) list"

definition kernel_view :: "sqe \<Rightarrow> request option" where
  "kernel_view s =
     (let selects = (sqe_flags s AND IOSQE_BUFFER_SELECT = IOSQE_BUFFER_SELECT) in
      case sqe_operation s of
        Prep_close fd \<Rightarrow> Some (Close_fd fd)
      | Prep_accept fd len flags \<Rightarrow> Some (Accept_on fd)
      | Prep_connect fd sa len \<Rightarrow>
          if unat len = length sa then Some (Connect_to fd sa) else None
      | Prep_recv fd buf len flags \<Rightarrow>
          if selects \<and> buf = Null_ptr then Some (Receive_stream fd len) else None
      | Prep_recvmsg_multishot fd msg flags \<Rightarrow>
          if selects \<and> msg_iovlen msg = 1 \<and> msg_iov msg = To_iov \<and> msg_name msg = To_storage
          then Some (Receive_datagrams fd (unat (msg_namelen msg))) else None
      | Prep_send fd buf len flags \<Rightarrow> Some (Send_bytes fd (take (unat len) buf))
      | Prep_sendmsg fd msg img flags \<Rightarrow>
          Some (Send_datagram fd (image_name img) (image_data img)
                 (parse_cmsgs (image_control img))))"

definition requested :: "work_item \<Rightarrow> request option" where
  "requested wi =
     (let fd = get_fd (m_socket wi) in
      case m_work_type wi of
        Type_UNKNOWN \<Rightarrow> None
      | Type_CLOSE \<Rightarrow> Some (Close_fd fd)
      | Type_ACCEPT \<Rightarrow> Some (Accept_on fd)
      | Type_CONNECT \<Rightarrow>
          Some (Connect_to fd (take (unat (m_connect_sock_len wi)) (m_buffer_for_uring wi)))
      | Type_RECV \<Rightarrow>
          Some (if wi_is_stream wi then Receive_stream fd 4096 else Receive_datagrams fd 128)
      | Type_SEND_STREAM_DATA \<Rightarrow> Some (Send_bytes fd (sp_contents (m_send_packet wi)))
      | Type_SEND_WORKPACKET \<Rightarrow>
          (case data_sockaddr (destination_address (m_params wi)) of
             Inl e \<Rightarrow> None
           | Inr name \<Rightarrow>
               Some (Send_datagram fd name (sp_contents (m_send_packet wi))
                 [(IPPROTO_IP, IP_TOS, [tos_of_dscp (param_dscp (m_params wi))]),
                  (IPPROTO_IP, IP_TTL, le_bytes 4 (ttl_of_params (param_ttl (m_params wi))))])))"

lemma requested_sendmsg:
  assumes "wi_inv wi" and "prep_send_workpacket wi = Inr (wi', s)"
    and "m_work_type wi = Type_SEND_WORKPACKET"
  shows "kernel_view s = requested wi \<and>
    sqe_flags s = (if m_link_to_next_request wi then IOSQE_IO_LINK else 0)"
proof -
  obtain wi1 where wi1: "init_send_msg wi = Inr wi1"
    and s: "s = link_if_wanted wi1
       (sqe_with wi1 (Prep_sendmsg (get_fd (m_socket wi1)) (m_msg wi1) (deref_msg wi1) 0))"
    using assms(2) by (auto simp: prep_send_workpacket_def outcome_simps)
  show ?thesis
    using init_send_msg_deref [OF assms(1) wi1] init_send_msg_inv [OF assms(1) wi1]
      init_send_msg_link [OF assms(1) wi1] assms(3)
    by (simp add: s kernel_view_def requested_def Let_def)
qed

lemma sent_bytes: "take (unat (sp_size p)) (sp_data p) = sp_contents p"
  by (simp add: sp_contents_def sp_data_def sp_size_def)

lemma requested_simple:
  assumes "wi_inv wi" and "prep_request wi = Inr (wi', s)"
    and "m_work_type wi \<noteq> Type_SEND_WORKPACKET"
  shows "kernel_view s = requested wi \<and>
    sqe_flags s =
      (if m_work_type wi = Type_RECV then IOSQE_BUFFER_SELECT
       else if m_link_to_next_request wi \<and> m_work_type wi \<in> {Type_CONNECT, Type_SEND_STREAM_DATA}
       then IOSQE_IO_LINK else 0)"
proof (cases "m_work_type wi")
  case Type_CONNECT
  then have "length (take 16 (m_buffer_for_uring wi)) = 16" using assms(1) by (simp add: wi_inv_def)
  then show ?thesis
    using assms(2) Type_CONNECT
    by (auto simp: prep_request_def prep_connect_eq kernel_view_def requested_def Let_def
        split: if_splits)
next
  case Type_RECV
  then show ?thesis
    using assms(2)
    by (cases "wi_is_stream wi")
      (auto simp: prep_request_def prep_recv_eq kernel_view_def requested_def Let_def recv_item_def)
next
  case Type_SEND_STREAM_DATA
  then show ?thesis
    using assms(2)
    by (auto simp: prep_request_def prep_send_stream_eq kernel_view_def requested_def Let_def
        sent_bytes split: if_splits)
qed (use assms(2,3) in \<open>auto simp: prep_request_def prep_close_eq prep_accept_eq kernel_view_def
    requested_def Let_def\<close>)

text \<open>When the switch is left without an entry, and by which check.\<close>

definition rejection :: "work_item \<Rightarrow> fault option" where
  "rejection wi =
     (case m_work_type wi of
        Type_UNKNOWN \<Rightarrow> Some (Abort_call ''unhandled work item type'')
      | Type_CLOSE \<Rightarrow> None
      | Type_ACCEPT \<Rightarrow> None
      | Type_RECV \<Rightarrow> None
      | Type_CONNECT \<Rightarrow>
          if m_connect_sock_len wi = 0 then Some (Assert_fail ''item.m_connect_sock_len > 0'')
          else if m_connect_sock_len wi \<noteq> 16
          then Some (Assert_fail ''item.m_connect_sock_len == sizeof(*sa)'') else None
      | Type_SEND_STREAM_DATA \<Rightarrow>
          if wi_is_stream wi then None else Some (Assert_fail ''item.is_stream()'')
      | Type_SEND_WORKPACKET \<Rightarrow>
          if wi_is_stream wi then Some (Assert_fail ''!item.is_stream()'')
          else if ip_valid (destination_address (m_params wi)) then None
          else Some (Abort_call ''init_send_msg''))"

lemma prep_request_rejection:
  assumes "wi_inv wi"
  shows "(case prep_request wi of Inl e \<Rightarrow> rejection wi = Some e | Inr r \<Rightarrow> rejection wi = None)"
proof (cases "m_work_type wi")
  case Type_SEND_WORKPACKET
  note ok = init_send_msg_ok_iff [OF assms Type_SEND_WORKPACKET]
  show ?thesis
  proof (cases "init_send_msg wi")
    case (Inl e)
    then have "e = Abort_call ''init_send_msg''" "\<not> ip_valid (destination_address (m_params wi))"
      using ok(2) [of e] by simp_all
    with Inl Type_SEND_WORKPACKET show ?thesis
      by (cases "wi_is_stream wi") (simp_all add: prep_request_def rejection_def prep_send_workpacket_def)
  next
    case (Inr wi')
    then have "ip_valid (destination_address (m_params wi))" using ok(1) by blast
    with Inr Type_SEND_WORKPACKET show ?thesis
      by (cases "wi_is_stream wi") (simp_all add: prep_request_def rejection_def prep_send_workpacket_def)
  qed
qed (simp_all add: prep_request_def rejection_def prep_close_eq prep_accept_eq prep_recv_eq
    prep_connect_eq prep_send_stream_eq)

section \<open>Properties\<close>

text \<open>
  C7. Submitting a work item hands the kernel exactly one entry, published by \<open>io_uring_submit\<close>
  as the last call: it carries the item's id, and decoded as the kernel reads it, it is the
  request of the item (its socket's descriptor, and the address, the bytes or the message the item
  holds). It is linked to the next one exactly if the item asks for it and is a connect or a send,
  and selects a kernel buffer exactly if it is a reception. No callback runs meanwhile.
\<close>

theorem submit_refines_request:
  assumes "wi_inv wi" and "ring_submit w wi tr = Inr (wi', tr')"
  shows "\<exists>s. submitted tr' = s # submitted tr \<and> hd tr' = Uring_submit \<and>
    sqe_user_data s = m_id wi \<and> kernel_view s = requested wi \<and>
    (sqe_flags s AND IOSQE_IO_LINK \<noteq> 0 \<longleftrightarrow> m_link_to_next_request wi \<and>
       m_work_type wi \<in> {Type_CONNECT, Type_SEND_STREAM_DATA, Type_SEND_WORKPACKET}) \<and>
    (sqe_flags s AND IOSQE_BUFFER_SELECT \<noteq> 0 \<longleftrightarrow> m_work_type wi = Type_RECV) \<and>
    callbacks_run tr' = callbacks_run tr"
proof -
  obtain s where s: "prep_request wi = Inr (wi', s)" "submitted tr' = s # submitted tr"
    "callbacks_run tr' = callbacks_run tr" "sqe_user_data s = m_id wi" "hd tr' = Uring_submit"
    using ring_submit_trace [OF assms] by blast
  show ?thesis
  proof (cases "m_work_type wi = Type_SEND_WORKPACKET")
    case True
    then have "prep_send_workpacket wi = Inr (wi', s)" using s(1) by (simp add: prep_request_def)
    then show ?thesis using requested_sendmsg [OF assms(1)] True s by auto
  next
    case False
    then show ?thesis using requested_simple [OF assms(1) s(1)] s by auto
  qed
qed

definition example_linked_send :: work_item where
  "example_linked_send =
     (new_work_item example_raw 7 ''s'' example_socket)
       \<lparr>m_work_type := Type_SEND_STREAM_DATA, m_link_to_next_request := True\<rparr>"

theorem submit_refines_request_witness:
  "\<exists>wi' tr' s. ring_submit example_world example_linked_send [] = Inr (wi', tr') \<and>
     submitted tr' = [s] \<and> sqe_user_data s = 7 \<and> kernel_view s = Some (Send_bytes 42 []) \<and>
     sqe_flags s AND IOSQE_IO_LINK \<noteq> 0"
proof -
  have inv: "wi_inv example_linked_send"
    by (simp add: example_linked_send_def wi_inv_def new_work_item_def)
  have "prep_request example_linked_send =
      Inr (example_linked_send, link_if_wanted example_linked_send (sqe_with example_linked_send
             (Prep_send 42 (sp_data (m_send_packet example_linked_send))
                (sp_size (m_send_packet example_linked_send)) 0)))"
    by (simp add: prep_request_def prep_send_stream_eq example_linked_send_def wi_is_stream_def
        example_socket_def is_stream_def get_fd_def)
  then obtain wi' tr' where r: "ring_submit example_world example_linked_send [] = Inr (wi', tr')"
    by (simp add: ring_submit_def get_sqe_cases example_world_def)
  have "requested example_linked_send = Some (Send_bytes 42 [])"
    by (simp add: requested_def example_linked_send_def example_socket_def get_fd_def
        new_work_item_def sp_contents_def fresh_packet_def)
  then show ?thesis
    using submit_refines_request [OF inv r] r by (auto simp: example_linked_send_def)
qed



text \<open>
  Connecting to an IPv6 address never works: \<open>WorkItem::submit\<close> stores the 28 bytes of the
  address, and the ring's assertion admits only the size of an IPv4 address. Connecting to an IPv4
  address passes the same check.
\<close>

theorem connect_ipv6_asserts:
  assumes "wi_inv wi" and "w_get_sqe w (Get_sqe # tr)" and "ip_valid target"
  shows "(case wi_submit_connect (ring_submit w) target cb wi tr of
      Inl e \<Rightarrow> m_in4 target = None \<and> e = Assert_fail ''item.m_connect_sock_len == sizeof(*sa)''
    | Inr (wi', tr') \<Rightarrow> (\<exists>v. m_in4 target = Some v \<and>
        requested wi' = Some (Connect_to (get_fd (m_socket wi)) (sockaddr_in_bytes v))))"
proof -
  obtain n d where nd: "size_sockaddr target = Inr n" "data_sockaddr target = Inr d"
    using data_sockaddr_ok [OF assms(3)] by blast
  show ?thesis
  proof (cases "m_in4 target")
    case None
    then have "n = 28" "length d = 28"
      using nd assms(3) by (auto simp: size_sockaddr_def data_sockaddr_def split: option.splits)
    then show ?thesis
      using nd None assms(2)
      by (simp add: wi_submit_connect_def ring_submit_def get_sqe_cases prep_request_def
          prep_connect_eq)
  next
    case (Some v)
    then have n: "n = 16" "d = sockaddr_in_bytes v"
      using nd by (auto simp: size_sockaddr_def data_sockaddr_def)
    show ?thesis
      using nd n Some assms(2)
      by (simp add: wi_submit_connect_def ring_submit_def get_sqe_cases prep_request_def
          prep_connect_eq requested_def overwrite_def)
  qed
qed

theorem connect_ipv6_asserts_witness:
  "wi_submit_connect (ring_submit (example_world\<lparr>w_get_sqe := (\<lambda>_. True)\<rparr>))
     (ip_of_sockaddr_in6 \<lparr>sin6_family = AF_INET6, sin6_port = 1, sin6_flowinfo = 0,
        sin6_addr = (0, 0, 0, 1), sin6_scope_id = 0\<rparr>) (Some 1)
     (new_work_item example_raw 0 ''c'' example_socket) [] =
   Inl (Assert_fail ''item.m_connect_sock_len == sizeof(*sa)'')"
  using connect_ipv6_asserts [of "new_work_item example_raw 0 ''c'' example_socket"
      "example_world\<lparr>w_get_sqe := (\<lambda>_. True)\<rparr>" "[]"
      "ip_of_sockaddr_in6 \<lparr>sin6_family = AF_INET6, sin6_port = 1, sin6_flowinfo = 0,
        sin6_addr = (0, 0, 0, 1), sin6_scope_id = 0\<rparr>" "Some 1"]
  by (auto simp: ip_valid_iff ip_of_sockaddr_in6_def ip_default_def split: sum.splits)

end
