(* ===== verification/Buffer_Ring.thy ===== *)
theory Buffer_Ring
  imports Ring_Submit
begin

text \<open>
  The ring of receive buffers of \<open>src/IOUring.cpp\<close>: \<open>setup_buffer_pool\<close>, \<open>get_buffer\<close> and
  \<open>recycle_buffer\<close>, with the members of \<open>IOUring\<close> only they use as a record of their own.
  Pointers are 64-bit addresses; the index \<open>io_uring_buf_ring_add\<close> is given comes from the
  program or from the upper half of a completion's flags, so it is below 65536.

  \<^item> \<open>buf_view\<close>, \<open>provided\<close>: a trace read by the manual pages of \<open>io_uring_buf_ring_add\<close> and
    \<open>io_uring_buf_ring_advance\<close>: a buffer is written at an offset from the tail, and advancing
    makes the next ones visible to the kernel, in order.
\<close>

section \<open>State and operations\<close>

abbreviation BUFFERS :: nat where "BUFFERS \<equiv> 1024"

definition sizeof_io_uring_buf :: nat where "sizeof_io_uring_buf = 16"

record buf_reg =
  ring_addr :: u64
  ring_entries :: nat
  bgid :: nat
  reg_flags :: nat

record buffer_ring =
  m_reg :: buf_reg
  buf_ring :: "u64 option"
  buf_ring_size :: nat
  buffer_base :: u64
  m_free_send_ids :: "nat list"

definition new_buffer_ring :: "buf_reg \<Rightarrow> buffer_ring" where
  "new_buffer_ring r =
     \<lparr>m_reg = r, buf_ring = None, buf_ring_size = 0, buffer_base = 0, m_free_send_ids = []\<rparr>"

definition get_buffer :: "buffer_ring \<Rightarrow> nat \<Rightarrow> u64" where
  "get_buffer b idx = buffer_base b + word_of_nat (push_bit buf_shift idx)"

definition buf_ring_mask :: nat where
  "buf_ring_mask = BUFFERS - 1"

definition add_buffer :: "buffer_ring \<Rightarrow> nat \<Rightarrow> nat \<Rightarrow> io_trace \<Rightarrow> io_trace" where
  "add_buffer b idx offset tr =
     Buf_ring_add (get_buffer b idx) buffer_size idx buf_ring_mask offset # tr"

definition setup_buffer_pool ::
  "world \<Rightarrow> buffer_ring \<Rightarrow> io_trace \<Rightarrow> error_code \<times> buffer_ring \<times> io_trace" where
  "setup_buffer_pool w b tr =
     (let b = b\<lparr>buf_ring_size := (sizeof_io_uring_buf + buffer_size) * BUFFERS\<rparr>;
          tr = Mmap (buf_ring_size b) # tr in
      case w_mmap w tr of
        None \<Rightarrow> (Error_MMAP_FAILED, b, tr)
      | Some mapped \<Rightarrow>
          let b = b\<lparr>buf_ring := Some mapped,
                    m_reg := \<lparr>ring_addr = mapped, ring_entries = BUFFERS, bgid = 0, reg_flags = 0\<rparr>,
                    buffer_base := mapped + word_of_nat (sizeof_io_uring_buf * BUFFERS)\<rparr>;
              tr = Buf_ring_init # tr;
              tr = Register_buf_ring (ring_addr (m_reg b)) (ring_entries (m_reg b)) (bgid (m_reg b)) # tr;
              ret = w_syscall w tr
          in if ret \<noteq> 0 then (w_errno_to_error w (- ret), b, tr)
             else
               let tr = fold (\<lambda>i. add_buffer b i i) [0..<BUFFERS] tr;
                   tr = Buf_ring_advance (BUFFERS div 2) # tr;
                   b = b\<lparr>m_free_send_ids :=
                          fold (#) [BUFFERS div 2..<BUFFERS] (m_free_send_ids b)\<rparr>
               in (Error_OK, b, tr))"

definition recycle_buffer :: "buffer_ring \<Rightarrow> nat \<Rightarrow> io_trace \<Rightarrow> io_trace" where
  "recycle_buffer b idx tr = Buf_ring_advance 1 # add_buffer b idx 0 tr"

section \<open>The kernel's view of the ring\<close>

type_synonym provided_buffer = "u64 \<times> nat \<times> nat"

record ring_view =
  view_slots :: "nat \<Rightarrow> provided_buffer option"
  view_tail :: nat

primrec buf_view :: "io_trace \<Rightarrow> ring_view" where
  "buf_view [] = \<lparr>view_slots = (\<lambda>_. None), view_tail = 0\<rparr>"
| "buf_view (c # tr) =
     (let v = buf_view tr in
      case c of
        Buf_ring_init \<Rightarrow> v\<lparr>view_tail := 0\<rparr>
      | Buf_ring_add a len idx msk off \<Rightarrow>
          v\<lparr>view_slots := (view_slots v)(((view_tail v + off) AND msk) \<mapsto> (a, len, idx))\<rparr>
      | Buf_ring_advance n \<Rightarrow> v\<lparr>view_tail := view_tail v + n\<rparr>
      | _ \<Rightarrow> v)"

primrec provided :: "io_trace \<Rightarrow> provided_buffer option list" where
  "provided [] = []"
| "provided (c # tr) =
     (case c of
        Buf_ring_advance n \<Rightarrow>
          provided tr @
          map (\<lambda>k. view_slots (buf_view tr) ((view_tail (buf_view tr) + k) AND buf_ring_mask)) [0..<n]
      | _ \<Rightarrow> provided tr)"

lemma buf_ring_mask_eq: "buf_ring_mask = mask 10"
  by (simp add: buf_ring_mask_def mask_eq_exp_minus_1)

lemma mask_index [simp]: "i < 1024 \<Longrightarrow> i AND buf_ring_mask = i"
  by (simp add: buf_ring_mask_eq take_bit_nat_eq_self flip: take_bit_eq_mask)

lemma buffer_calls_submitted [simp]:
  "submitted (add_buffer b i off tr) = submitted tr"
  "submitted (recycle_buffer b i tr) = submitted tr"
  "callbacks_run (add_buffer b i off tr) = callbacks_run tr"
  "callbacks_run (recycle_buffer b i tr) = callbacks_run tr"
  by (simp_all add: add_buffer_def recycle_buffer_def)

lemma fold_add_buffer_keeps [simp]:
  "submitted (fold (\<lambda>i. add_buffer b i i) xs tr) = submitted tr"
  "callbacks_run (fold (\<lambda>i. add_buffer b i i) xs tr) = callbacks_run tr"
  "provided (fold (\<lambda>i. add_buffer b i i) xs tr) = provided tr"
  "view_tail (buf_view (fold (\<lambda>i. add_buffer b i i) xs tr)) = view_tail (buf_view tr)"
  by (induction xs arbitrary: tr) (simp_all add: add_buffer_def Let_def)

lemma add_buffer_slots [simp]:
  "view_slots (buf_view (add_buffer b i off tr)) =
     (view_slots (buf_view tr))((view_tail (buf_view tr) + off) AND buf_ring_mask
        \<mapsto> (get_buffer b i, 4096, i))"
  by (simp add: add_buffer_def Let_def)

lemma fold_add_buffer_slots:
  assumes "view_tail (buf_view tr) = 0" and "n \<le> BUFFERS" and "i < n"
  shows "view_slots (buf_view (fold (\<lambda>i. add_buffer b i i) [0..<n] tr)) i =
           Some (get_buffer b i, 4096, i)"
  using assms(2,3)
proof (induction n)
  case 0
  then show ?case by simp
next
  case (Suc n)
  then show ?case using assms(1) by (cases "i = n") simp_all
qed

lemma provided_recycle:
  "provided (recycle_buffer b idx tr) = provided tr @ [Some (get_buffer b idx, 4096, idx)]"
  by (simp add: recycle_buffer_def add_buffer_def Let_def)

lemma fold_Cons_eq: "fold (#) xs ys = rev xs @ ys"
  by (induction xs arbitrary: ys) simp_all

text \<open>A set-up whose system calls succeed, and one where a call fails.\<close>

lemma setup_registered:
  assumes "w_mmap w (Mmap 4210688 # tr) = Some mapped"
    and "w_syscall w (Register_buf_ring mapped 1024 0 # Buf_ring_init # Mmap 4210688 # tr) = 0"
  shows "\<exists>b' tr'. setup_buffer_pool w b tr = (Error_OK, b', tr') \<and>
    provided tr' = provided tr @ map (\<lambda>i. Some (get_buffer b' i, 4096, i)) [0..<512] \<and>
    m_free_send_ids b' = rev [512..<1024] @ m_free_send_ids b \<and> buffer_base b' = mapped + 16384"
proof -
  let ?tr = "Register_buf_ring mapped 1024 0 # Buf_ring_init # Mmap 4210688 # tr"
  have tail: "view_tail (buf_view ?tr) = 0" by (simp add: Let_def)
  have pub: "map (\<lambda>k. view_slots (buf_view (fold (\<lambda>i. add_buffer c i i) [0..<1024] ?tr))
        (k AND buf_ring_mask)) [0..<512] = map (\<lambda>i. Some (get_buffer c i, 4096, i)) [0..<512]" for c
    by (rule map_cong [OF refl]) (simp add: fold_add_buffer_slots [OF tail])
  have addr: "get_buffer (c\<lparr>m_free_send_ids := xs\<rparr>) = get_buffer c" for c xs
    by (rule ext) (simp add: get_buffer_def)
  show ?thesis
    using assms pub tail
    by (simp add: setup_buffer_pool_def Let_def sizeof_io_uring_buf_def fold_Cons_eq addr
        del: upt_rec_numeral)
qed

lemma setup_failed:
  assumes "setup_buffer_pool w b tr = (e, b', tr')"
  shows "w_mmap w (Mmap 4210688 # tr) = None \<Longrightarrow>
      e = Error_MMAP_FAILED \<and> provided tr' = provided tr \<and> m_free_send_ids b' = m_free_send_ids b"
    and "w_mmap w (Mmap 4210688 # tr) = Some mapped \<Longrightarrow>
      w_syscall w (Register_buf_ring mapped 1024 0 # Buf_ring_init # Mmap 4210688 # tr) \<noteq> 0 \<Longrightarrow>
      e = w_errno_to_error w
        (- w_syscall w (Register_buf_ring mapped 1024 0 # Buf_ring_init # Mmap 4210688 # tr)) \<and>
      provided tr' = provided tr \<and> m_free_send_ids b' = m_free_send_ids b"
  using assms by (auto simp: setup_buffer_pool_def Let_def sizeof_io_uring_buf_def)

lemma setup_provided:
  assumes "setup_buffer_pool w b tr = (e, b', tr')" and "provided tr' \<noteq> provided tr"
  shows "provided tr' = provided tr @ map (\<lambda>i. Some (get_buffer b' i, 4096, i)) [0..<512]"
proof (cases "w_mmap w (Mmap 4210688 # tr)")
  case None
  then show ?thesis using setup_failed(1) [OF assms(1)] assms(2) by simp
next
  case (Some mapped)
  then show ?thesis
    using setup_failed(2) [OF assms(1) Some] setup_registered [OF Some, of b] assms by force
qed

section \<open>Properties\<close>

text \<open>
  C14. Setting up the buffer pool either fails with the error of the step that failed and provides
  nothing, or provides to the kernel exactly the first 512 buffers, in order, each with its index,
  its size and its address, and puts the other 512 indices on the free stack; so the two halves
  share no buffer.
\<close>

theorem setup_provides_first_half:
  "(case setup_buffer_pool w b tr of (e, b', tr') \<Rightarrow>
      (case w_mmap w (Mmap 4210688 # tr) of
         None \<Rightarrow> e = Error_MMAP_FAILED \<and> provided tr' = provided tr \<and>
           m_free_send_ids b' = m_free_send_ids b
       | Some mapped \<Rightarrow>
          (let ret = w_syscall w (Register_buf_ring mapped 1024 0 # Buf_ring_init # Mmap 4210688 # tr) in
           if ret \<noteq> 0
           then e = w_errno_to_error w (- ret) \<and> provided tr' = provided tr \<and>
                m_free_send_ids b' = m_free_send_ids b
           else e = Error_OK \<and>
                provided tr' = provided tr @ map (\<lambda>i. Some (get_buffer b' i, 4096, i)) [0..<512] \<and>
                m_free_send_ids b' = rev [512..<1024] @ m_free_send_ids b \<and>
                buffer_base b' = mapped + 16384)))"
proof (cases "w_mmap w (Mmap 4210688 # tr)")
  case None
  then show ?thesis using setup_failed(1) by (auto split: prod.split)
next
  case (Some mapped)
  then show ?thesis
    using setup_failed(2) [OF _ Some] setup_registered [OF Some, of b]
    by (cases "w_syscall w (Register_buf_ring mapped 1024 0 # Buf_ring_init # Mmap 4210688 # tr) = 0")
      (auto simp: Let_def simp del: upt_rec_numeral split: prod.split)
qed

lemma setup_addresses:
  assumes "setup_buffer_pool w b tr = (Error_OK, b', tr')"
  shows "\<exists>base. buf_ring b' = Some base \<and> buffer_base b' = base + 16384 \<and> buf_ring_size b' = 4210688"
  using assms
  by (auto simp: setup_buffer_pool_def Let_def sizeof_io_uring_buf_def
      split: option.splits if_splits)

lemma get_buffer_unat:
  assumes "buffer_base b = base + 16384" and "unat base + 2 ^ 29 \<le> 2 ^ 64" and "i < 65536"
  shows "unat (get_buffer b i) = unat base + 16384 + 4096 * i"
proof -
  have "get_buffer b i = word_of_nat (unat base + 16384 + 4096 * i)"
    using assms(1) by (simp add: get_buffer_def push_bit_eq_mult mult.commute)
  moreover have "unat base + 16384 + 4096 * i < 2 ^ 64" using assms(2,3) by simp
  ultimately show ?thesis
    by (simp only: unat_of_nat len_num0 len_num1 len_bit0 mod_less) simp
qed

text \<open>
  C15. Every buffer index below 1024 addresses its own 4096 bytes inside the mapping, behind the
  descriptors at its start: no two buffers overlap, and none reaches past the end. Every index
  from 1024 on that a completion's flags can hold addresses memory past the end of the mapping.
\<close>

theorem buffers_disjoint_in_mapping:
  assumes "setup_buffer_pool w b tr = (Error_OK, b', tr')"
    and "\<And>a. buf_ring b' = Some a \<Longrightarrow> unat a + 2 ^ 29 \<le> 2 ^ 64"
    and "i < j" and "j < 65536"
  shows "\<exists>base. buf_ring b' = Some base \<and>
    unat base + 16384 \<le> unat (get_buffer b' i) \<and>
    (j < 1024 \<longleftrightarrow> unat (get_buffer b' j) + 4096 \<le> unat base + buf_ring_size b') \<and>
    (1024 \<le> j \<longleftrightarrow> unat base + buf_ring_size b' \<le> unat (get_buffer b' j)) \<and>
    unat (get_buffer b' i) + 4096 \<le> unat (get_buffer b' j)"
proof -
  obtain base where b: "buf_ring b' = Some base" "buffer_base b' = base + 16384"
    "buf_ring_size b' = 4210688"
    using setup_addresses [OF assms(1)] by blast
  have "unat (get_buffer b' k) = unat base + 16384 + 4096 * k" if "k < 65536" for k
    using get_buffer_unat [OF b(2) assms(2) [OF b(1)] that] .
  then have "unat (get_buffer b' i) = unat base + 16384 + 4096 * i"
    and "unat (get_buffer b' j) = unat base + 16384 + 4096 * j"
    using assms(3,4) by simp_all
  then show ?thesis using b(1,3) assms(3) by (intro exI [of _ base]) auto
qed

theorem buffers_disjoint_in_mapping_witness:
  "\<exists>b'. fst (setup_buffer_pool example_world (new_buffer_ring \<lparr>ring_addr = 0, ring_entries = 0,
        bgid = 0, reg_flags = 0\<rparr>) []) = Error_OK \<and>
     buf_ring b' = Some 4096 \<and> unat (get_buffer b' 1023) + 4096 \<le> 4096 + buf_ring_size b'"
proof -
  let ?b = "new_buffer_ring \<lparr>ring_addr = 0, ring_entries = 0, bgid = 0, reg_flags = 0\<rparr>"
  obtain b' tr' where r: "setup_buffer_pool example_world ?b [] = (Error_OK, b', tr')"
    and ring: "buf_ring b' = Some 4096"
    by (simp add: setup_buffer_pool_def Let_def example_world_def del: upt_rec_numeral)
  have "\<exists>base. buf_ring b' = Some base \<and> ((1023 :: nat) < 1024 \<longleftrightarrow>
      unat (get_buffer b' 1023) + 4096 \<le> unat base + buf_ring_size b')"
    using buffers_disjoint_in_mapping [OF r, of 1022 1023] ring by auto
  then show ?thesis using r ring by auto
qed

end
