(* ===== verification/Sockets.thy ===== *)
theory Sockets
  imports Io_World
begin

text \<open>
  \<open>src/SocketImpl.cpp\<close> and \<open>src/SocketImpl.hpp\<close>: creation of sockets with the system calls of
  each kind, the socket of an accepted connection, and the multicast operations. A system call is
  an element of the trace and its result an answer of the world; options that are an \<open>int\<close> are
  its four bytes, addresses their structure's bytes. \<open>SocketImpl::send\<close>, which goes through the
  ring, is in the theory \<open>Ring_Client\<close>. The creating functions of \<open>SocketFactoryImpl.hpp\<close>,
  \<open>ISocket.hpp\<close> and \<open>SocketImpl.cpp\<close> hand their arguments down to the two constructors.

  \<^item> \<open>setup_calls\<close>: the calls that open a socket of a kind, in order: the specification of
    the constructor.
\<close>

section \<open>State\<close>

record ip_mreq =
  imr_multiaddr :: u32
  imr_interface :: u32

definition ip_mreq_bytes :: "ip_mreq \<Rightarrow> bytes" where
  "ip_mreq_bytes r = le_bytes 4 (imr_multiaddr r) @ le_bytes 4 (imr_interface r)"

definition zero_mreq :: ip_mreq where
  "zero_mreq = \<lparr>imr_multiaddr = 0, imr_interface = 0\<rparr>"

record socket_impl =
  si_base :: isocket
  m_connection_data :: "nat option"
  m_mreq :: ip_mreq

text \<open>The context a user attaches to a socket is the number of an object; the library passes it on.\<close>

definition set_connection_data :: "nat option \<Rightarrow> socket_impl \<Rightarrow> socket_impl" where
  "set_connection_data connection_data s = s\<lparr>m_connection_data := connection_data\<rparr>"

definition get_connection_data :: "socket_impl \<Rightarrow> nat option" where
  "get_connection_data s = m_connection_data s"

definition si_fd :: "socket_impl \<Rightarrow> int" where
  "si_fd s = get_fd (si_base s)"

definition sys :: "world \<Rightarrow> syscall \<Rightarrow> io_trace \<Rightarrow> int \<times> io_trace" where
  "sys w c tr = (let tr = Sys c # tr in (w_syscall w tr, tr))"

definition int_opt :: "nat \<Rightarrow> bytes" where
  "int_opt n = le_bytes 4 (word_of_nat n :: u32)"

lemma connection_data_simps [simp]:
  "get_connection_data (set_connection_data d s) = d"
  "si_base (set_connection_data d s) = si_base s" "m_mreq (set_connection_data d s) = m_mreq s"
  "si_fd (set_connection_data d s) = si_fd s"
  by (simp_all add: set_connection_data_def get_connection_data_def si_fd_def)

section \<open>Creating sockets\<close>

definition new_accepted_socket :: "accept_result \<Rightarrow> socket_impl outcome" where
  "new_accepted_socket new_conn =
     (let s = \<lparr>si_base = \<lparr>sock_type = accept_get_type new_conn,
                         sock_port = accept_get_port new_conn,
                         sock_kind = SERVER_STREAM_SOCKET, sock_fd = m_new_fd new_conn\<rparr>,
               m_connection_data = None, m_mreq = zero_mreq\<rparr>
      in ebind (assert_that ''get_fd() > 0'' (0 < si_fd s)) (\<lambda>_. Inr s))"

definition create_socket :: "world \<Rightarrow> socket_type \<Rightarrow> io_trace \<Rightarrow> (int \<times> io_trace) outcome" where
  "create_socket w type tr =
     ebind
       (case type of
          UNKNOWN_SOCKET \<Rightarrow> Inl (Assert_fail ''false'')
        | IPV4_UDP \<Rightarrow> Inr (sys w (Sys_socket AF_INET SOCK_DGRAM) tr)
        | IPV4_TCP \<Rightarrow> Inr (sys w (Sys_socket AF_INET SOCK_STREAM) tr)
        | IPV6_UDP \<Rightarrow> Inl (Abort_call ''create_socket'')
        | IPV6_TCP \<Rightarrow> Inr (sys w (Sys_socket AF_INET6 SOCK_STREAM) tr))
       (\<lambda>(fd, tr). ebind (assert_that ''fd >= 0'' (0 \<le> fd)) (\<lambda>_. Inr (fd, tr)))"

definition any_address :: "socket_port_id \<Rightarrow> sockaddr_in" where
  "any_address port =
     \<lparr>sin_family = AF_INET, sin_port = bswap16 port, sin_addr = bswap32 0, sin_zero = 0\<rparr>"

definition dump_info :: "world \<Rightarrow> socket_impl \<Rightarrow> io_trace \<Rightarrow> io_trace outcome" where
  "dump_info w s tr =
     ebind (assert_that ''get_fd() >= 0'' (0 \<le> si_fd s)) (\<lambda>_.
     Inr (snd (sys w (Sys_getsockname (si_fd s)) tr)))"

definition local_bind :: "world \<Rightarrow> socket_port_id \<Rightarrow> socket_impl \<Rightarrow> io_trace \<Rightarrow> io_trace outcome" where
  "local_bind w port_id s tr =
     ebind (assert_that ''get_fd() >= 0'' (0 \<le> si_fd s)) (\<lambda>_.
     case sys w (Sys_bind (si_fd s) (sockaddr_in_bytes (any_address port_id))) tr of
       (ret, tr) \<Rightarrow>
         if ret < 0 then Inl (Abort_call ''bind failed for local_bind'')
         else dump_info w s tr)"

definition new_socket ::
  "world \<Rightarrow> socket_type \<Rightarrow> socket_port_id \<Rightarrow> socket_kind \<Rightarrow> io_trace \<Rightarrow>
     (socket_impl \<times> io_trace) outcome" where
  "new_socket w type port kind tr =
     ebind (create_socket w type tr) (\<lambda>(fd, tr).
     let s = \<lparr>si_base = \<lparr>sock_type = type, sock_port = port, sock_kind = kind, sock_fd = fd\<rparr>,
              m_connection_data = None, m_mreq = zero_mreq\<rparr>;
         (res, tr) = sys w (Sys_setsockopt (si_fd s) SOL_SOCKET SO_REUSEADDR (int_opt 1)) tr in
     ebind (assert_that ''res == 0'' (res = 0)) (\<lambda>_.
     case kind of
       UNICAST_CLIENT_SOCKET \<Rightarrow>
         (case sys w (Sys_setsockopt (si_fd s) SOL_SOCKET SO_REUSEPORT (int_opt 1)) tr of
            (ret, tr) \<Rightarrow> if ret = - 1 then Inl (Abort_call ''setsockopt()'') else Inr (s, tr))
     | MULTICAST_PACKET_SOCKET \<Rightarrow>
         ebind (local_bind w port s tr) (\<lambda>tr.
         case sys w (Sys_setsockopt (si_fd s) IPPROTO_IP IP_MULTICAST_TTL (int_opt 1)) tr of
           (ret, tr) \<Rightarrow>
             if ret \<noteq> 0 then Inl (Abort_call ''setsockopt IP_MULTICAST_TTL failed'')
             else Inr (s, tr))
     | SERVER_STREAM_SOCKET \<Rightarrow>
         (case sys w (Sys_bind (si_fd s) (sockaddr_in_bytes (any_address port))) tr of
            (err, tr) \<Rightarrow>
              if err < 0 then Inl (Abort_call ''bind error'')
              else
                (case sys w (Sys_listen (si_fd s) 1024) tr of
                   (err, tr) \<Rightarrow>
                     if err < 0 then Inl (Abort_call ''listen error'') else Inr (s, tr)))))"

text \<open>The static functions that make a socket, and the factory an application calls.\<close>

definition socket_impl_create ::
  "world \<Rightarrow> socket_type \<Rightarrow> socket_port_id \<Rightarrow> socket_kind \<Rightarrow> io_trace \<Rightarrow>
     (socket_impl \<times> io_trace) outcome" where
  "socket_impl_create w type port kind tr = new_socket w type port kind tr"

definition isocket_create_impl ::
  "world \<Rightarrow> socket_type \<Rightarrow> socket_port_id \<Rightarrow> socket_kind \<Rightarrow> io_trace \<Rightarrow>
     (socket_impl \<times> io_trace) outcome" where
  "isocket_create_impl w type port kind tr = socket_impl_create w type port kind tr"

definition factory_create_impl ::
  "world \<Rightarrow> socket_type \<Rightarrow> socket_port_id \<Rightarrow> socket_kind \<Rightarrow> io_trace \<Rightarrow>
     (socket_impl \<times> io_trace) outcome" where
  "factory_create_impl w type port kind tr = isocket_create_impl w type port kind tr"

definition socket_impl_create_accepted :: "accept_result \<Rightarrow> socket_impl outcome" where
  "socket_impl_create_accepted new_conn = new_accepted_socket new_conn"

definition isocket_create_impl_accepted :: "accept_result \<Rightarrow> socket_impl outcome" where
  "isocket_create_impl_accepted new_conn = socket_impl_create_accepted new_conn"

definition factory_create_impl_accepted :: "accept_result \<Rightarrow> socket_impl outcome" where
  "factory_create_impl_accepted res = isocket_create_impl_accepted res"

lemma factory_creates [simp]:
  "factory_create_impl = new_socket"
  "factory_create_impl_accepted = new_accepted_socket"
  by (simp_all add: fun_eq_iff factory_create_impl_def isocket_create_impl_def
      socket_impl_create_def factory_create_impl_accepted_def isocket_create_impl_accepted_def
      socket_impl_create_accepted_def)

section \<open>Multicast\<close>

definition mcast_bind :: "world \<Rightarrow> socket_impl \<Rightarrow> io_trace \<Rightarrow> (int \<times> io_trace) outcome" where
  "mcast_bind w s tr =
     ebind (assert_that ''get_fd() >= 0'' (0 \<le> si_fd s)) (\<lambda>_.
     case sys w (Sys_setsockopt (si_fd s) IPPROTO_IP IP_MULTICAST_IF (ip_mreq_bytes (m_mreq s))) tr of
       (err, tr) \<Rightarrow> if err \<noteq> 0 then Inr (- 1, tr) else Inr (0, tr))"

definition join_multicast_group ::
  "world \<Rightarrow> ip_address \<Rightarrow> ip_address \<Rightarrow> socket_impl \<Rightarrow> io_trace \<Rightarrow>
     (socket_impl \<times> io_trace) outcome" where
  "join_multicast_group w ip_addr source_iface s tr =
     ebind (assert_that ''get_fd() >= 0'' (0 \<le> si_fd s)) (\<lambda>_.
     ebind (string_to_ipv4_address (to_human_readable_ip_string (w_ntop6 w) ip_addr)) (\<lambda>group.
     ebind (string_to_ipv4_address (to_human_readable_ip_string (w_ntop6 w) source_iface)) (\<lambda>iface.
     let s = s\<lparr>m_mreq := \<lparr>imr_multiaddr = group, imr_interface = iface\<rparr>\<rparr> in
     case sys w (Sys_setsockopt (si_fd s) IPPROTO_IP IP_ADD_MEMBERSHIP (ip_mreq_bytes (m_mreq s))) tr of
       (ret, tr) \<Rightarrow>
         if ret < 0 then Inl (Abort_call ''setsockopt'')
         else
           (case sys w (Sys_setsockopt (si_fd s) IPPROTO_IP IP_MULTICAST_LOOP (int_opt 0)) tr of
              (err, tr) \<Rightarrow>
                if err \<noteq> 0 then Inl (Abort_call ''setsockopt IP_MULTICAST_LOOP failed'')
                else Inr (s, tr)))))"

definition leave_multicast_group :: "world \<Rightarrow> socket_impl \<Rightarrow> io_trace \<Rightarrow> io_trace outcome" where
  "leave_multicast_group w s tr =
     ebind (assert_that ''get_fd() >= 0'' (0 \<le> si_fd s)) (\<lambda>_.
     case sys w (Sys_setsockopt (si_fd s) IPPROTO_IP IP_DROP_MEMBERSHIP (ip_mreq_bytes (m_mreq s))) tr of
       (ret, tr) \<Rightarrow> if ret < 0 then Inl (Exit_call ''setsockopt'') else Inr tr)"

section \<open>The calls of a kind of socket\<close>

definition domain_and_type :: "socket_type \<Rightarrow> u16 \<times> int" where
  "domain_and_type t =
     (if t = IPV6_TCP then AF_INET6 else AF_INET, if t = IPV4_UDP then SOCK_DGRAM else SOCK_STREAM)"

definition setup_calls :: "socket_kind \<Rightarrow> socket_port_id \<Rightarrow> int \<Rightarrow> syscall list" where
  "setup_calls kind port fd =
     Sys_setsockopt fd SOL_SOCKET SO_REUSEADDR (int_opt 1) #
     (case kind of
        UNICAST_CLIENT_SOCKET \<Rightarrow> [Sys_setsockopt fd SOL_SOCKET SO_REUSEPORT (int_opt 1)]
      | MULTICAST_PACKET_SOCKET \<Rightarrow>
          [Sys_bind fd (sockaddr_in_bytes (any_address port)), Sys_getsockname fd,
           Sys_setsockopt fd IPPROTO_IP IP_MULTICAST_TTL (int_opt 1)]
      | SERVER_STREAM_SOCKET \<Rightarrow>
          [Sys_bind fd (sockaddr_in_bytes (any_address port)), Sys_listen fd 1024])"

text \<open>A list of calls, oldest first, put on a trace; and the results they had.\<close>

definition after_calls :: "syscall list \<Rightarrow> io_trace \<Rightarrow> io_trace" where
  "after_calls cs tr = rev (map Sys cs) @ tr"

lemma after_calls_simps [simp]:
  "after_calls [] tr = tr"
  "after_calls (c # cs) tr = after_calls cs (Sys c # tr)"
  by (simp_all add: after_calls_def)

lemma sys_calls_keep [simp]: "submitted (snd (sys w c tr)) = submitted tr"
  by (simp add: sys_def Let_def)

lemma create_socket_ok:
  assumes "create_socket w type tr = Inr (fd, tr')"
  shows "0 \<le> fd" and "type \<noteq> UNKNOWN_SOCKET" and "type \<noteq> IPV6_UDP"
    and "tr' = Sys (Sys_socket (fst (domain_and_type type)) (snd (domain_and_type type))) # tr"
    and "fd = w_syscall w tr'"
  using assms
  by (auto simp: create_socket_def sys_def domain_and_type_def Let_def outcome_simps
      split: socket_type.splits)

section \<open>Properties\<close>

text \<open>
  C27. A socket that is created successfully has the type, port and kind asked for and the descriptor
  the kernel returned, which is not negative; the calls made for it are exactly those of its kind,
  in that order, so address reuse is always switched on before the bind, the bind is to the
  wildcard address with the port in network order, and only servers listen. IPv6 datagram sockets
  and the unknown type never get that far.
\<close>

theorem new_socket_setup:
  assumes "new_socket w type port kind tr = Inr (s, tr')"
  shows "\<exists>fd. 0 \<le> fd \<and> type \<notin> {UNKNOWN_SOCKET, IPV6_UDP} \<and>
    s = \<lparr>si_base = \<lparr>sock_type = type, sock_port = port, sock_kind = kind, sock_fd = fd\<rparr>,
         m_connection_data = None, m_mreq = zero_mreq\<rparr> \<and>
    tr' = after_calls (Sys_socket (fst (domain_and_type type)) (snd (domain_and_type type)) #
            setup_calls kind port fd) tr \<and>
    ip_get_port (ip_of_sockaddr_in (any_address port)) = Inr port"
proof -
  obtain fd tr1 where c: "create_socket w type tr = Inr (fd, tr1)"
    using assms by (auto simp: new_socket_def outcome_simps)
  have "s = \<lparr>si_base = \<lparr>sock_type = type, sock_port = port, sock_kind = kind, sock_fd = fd\<rparr>,
         m_connection_data = None, m_mreq = zero_mreq\<rparr> \<and> tr' = after_calls (setup_calls kind port fd) tr1"
    using assms c
    by (cases kind)
      (auto simp: new_socket_def sys_def Let_def si_fd_def get_fd_def setup_calls_def
        local_bind_def dump_info_def outcome_simps split: if_splits)
  then show ?thesis
    using create_socket_ok [OF c]
    by (auto simp: ip_get_port_def any_address_def)
qed

theorem new_socket_setup_witness:
  "\<exists>s tr'. new_socket example_world IPV4_TCP LOCAL_WEB_PORT SERVER_STREAM_SOCKET [] = Inr (s, tr') \<and>
     sock_kind (si_base s) = SERVER_STREAM_SOCKET \<and> length tr' = 4"
proof -
  obtain s tr' where r: "new_socket example_world IPV4_TCP LOCAL_WEB_PORT SERVER_STREAM_SOCKET [] = Inr (s, tr')"
    by (simp add: new_socket_def create_socket_def example_world_def sys_def Let_def)
  then show ?thesis
    using new_socket_setup [OF r] by (auto simp: setup_calls_def)
qed

text \<open>
  Joining a multicast group for IPv4 addresses registers exactly the group and interface given,
  and leaving afterwards drops exactly the membership that was added. A group or interface that
  is no IPv4 address never reaches the kernel.
\<close>

theorem join_then_leave:
  assumes "0 \<le> si_fd s" and "m_in4 grp = Some g" and "m_in4 ifc = Some i"
  shows "(case join_multicast_group w grp ifc s tr of
      Inl e \<Rightarrow> e = Abort_call ''setsockopt'' \<or> e = Abort_call ''setsockopt IP_MULTICAST_LOOP failed''
    | Inr (s', tr') \<Rightarrow>
        (let mreq = le_bytes 4 (sin_addr g) @ le_bytes 4 (sin_addr i) in
         si_base s' = si_base s \<and>
         tr' = after_calls [Sys_setsockopt (si_fd s) IPPROTO_IP IP_ADD_MEMBERSHIP mreq,
                            Sys_setsockopt (si_fd s) IPPROTO_IP IP_MULTICAST_LOOP (int_opt 0)] tr \<and>
         (case leave_multicast_group w s' tr' of
            Inl e \<Rightarrow> e = Exit_call ''setsockopt''
          | Inr tr'' \<Rightarrow>
              tr'' = Sys (Sys_setsockopt (si_fd s) IPPROTO_IP IP_DROP_MEMBERSHIP mreq) # tr')))"
  using assms
  by (simp add: join_multicast_group_def ip_text_v4 sys_def Let_def si_fd_def ip_mreq_bytes_def
      leave_multicast_group_def)

definition example_stream_socket :: socket_impl where
  "example_stream_socket =
     \<lparr>si_base = \<lparr>sock_type = IPV4_UDP, sock_port = PTP_PORT_EVENT,
                  sock_kind = MULTICAST_PACKET_SOCKET, sock_fd = 5\<rparr>, m_connection_data = None, m_mreq = zero_mreq\<rparr>"

definition example_ipv4 :: "u32 \<Rightarrow> ip_address" where
  "example_ipv4 a = ip_of_sockaddr_in \<lparr>sin_family = AF_INET, sin_port = 0, sin_addr = a, sin_zero = 0\<rparr>"

lemma example_ipv4_in4:
  "m_in4 (example_ipv4 a) = Some \<lparr>sin_family = AF_INET, sin_port = 0, sin_addr = a, sin_zero = 0\<rparr>"
  by (simp add: example_ipv4_def)

theorem join_then_leave_witness:
  "\<exists>s' tr'. join_multicast_group example_world (example_ipv4 0x810100e0) (example_ipv4 1)
       example_stream_socket [] = Inr (s', tr') \<and>
     leave_multicast_group example_world s' tr' =
       Inr (Sys (Sys_setsockopt 5 0 36 [0xe0, 0, 1, 0x81, 1, 0, 0, 0]) # tr')"
proof -
  have fd: "0 \<le> si_fd example_stream_socket" "si_fd example_stream_socket = 5"
    by (simp_all add: si_fd_def get_fd_def example_stream_socket_def)
  obtain s' tr' where r: "join_multicast_group example_world (example_ipv4 0x810100e0) (example_ipv4 1)
       example_stream_socket [] = Inr (s', tr')"
    using fd by (simp add: join_multicast_group_def example_ipv4_def ip_text_v4 example_world_def sys_def Let_def)
  obtain tr'' where l: "leave_multicast_group example_world s' tr' = Inr tr''"
    using r fd
    by (auto simp: join_multicast_group_def leave_multicast_group_def outcome_simps si_fd_def
        example_world_def sys_def Let_def split: if_splits)
  show ?thesis
    using join_then_leave [OF fd(1) example_ipv4_in4 [of "0x810100e0"] example_ipv4_in4 [of 1],
        where w = example_world and tr = "[]"] r l fd
    by (simp add: Let_def le_bytes_def upt_rec)
qed



end
