(* ===== verification/Uring_Features.thy ===== *)
theory Uring_Features
  imports Io_World "HOL-Library.RBT"
begin

text \<open>
  \<open>include/iuring/UringDefs.hpp\<close>, \<open>src/ProbeUringFeatures.hpp\<close> and \<open>IOUring::probe_features\<close>:
  which operations the kernel reports, and the assertion at start-up that those the library
  submits are among them. \<open>SUPPORT_LISTEN_IN_LIBURING\<close> is undefined, as in the repository's build.
  The kernel's operation numbers are those of \<open>linux/io_uring.h\<close>; the probe it returns (absent if
  the call fails) is an argument, an operation number and flags per element.

  The \<open>std::map\<close> of features is a red-black tree over the features in the order of the enum.
\<close>

section \<open>The enumeration\<close>

datatype uring_feature =
    Feature_UNKNOWN
  | IORING_OP_NOP
  | IORING_OP_READV
  | IORING_OP_WRITEV
  | IORING_OP_FSYNC
  | IORING_OP_READ_FIXED
  | IORING_OP_WRITE_FIXED
  | IORING_OP_POLL_ADD
  | IORING_OP_POLL_REMOVE
  | IORING_OP_SYNC_FILE_RANGE
  | IORING_OP_SENDMSG
  | IORING_OP_RECVMSG
  | IORING_OP_TIMEOUT
  | IORING_OP_TIMEOUT_REMOVE
  | IORING_OP_ACCEPT
  | IORING_OP_ASYNC_CANCEL
  | IORING_OP_LINK_TIMEOUT
  | IORING_OP_CONNECT
  | IORING_OP_FALLOCATE
  | IORING_OP_OPENAT
  | IORING_OP_CLOSE
  | IORING_OP_FILES_UPDATE
  | IORING_OP_STATX
  | IORING_OP_READ
  | IORING_OP_WRITE
  | IORING_OP_FADVISE
  | IORING_OP_MADVISE
  | IORING_OP_SEND
  | IORING_OP_RECV
  | IORING_OP_OPENAT2
  | IORING_OP_EPOLL_CTL
  | IORING_OP_SPLICE
  | IORING_OP_PROVIDE_BUFFERS
  | IORING_OP_REMOVE_BUFFERS
  | IORING_OP_TEE
  | IORING_OP_SHUTDOWN
  | IORING_OP_RENAMEAT
  | IORING_OP_UNLINKAT
  | IORING_OP_MKDIRAT
  | IORING_OP_SYMLINKAT
  | IORING_OP_LINKAT

text \<open>The underlying value of an enumerator, by which \<open>std::less\<close> orders them.\<close>

primrec feature_code :: "uring_feature \<Rightarrow> nat" where
  "feature_code Feature_UNKNOWN = 0"
| "feature_code IORING_OP_NOP = 1"
| "feature_code IORING_OP_READV = 2"
| "feature_code IORING_OP_WRITEV = 3"
| "feature_code IORING_OP_FSYNC = 4"
| "feature_code IORING_OP_READ_FIXED = 5"
| "feature_code IORING_OP_WRITE_FIXED = 6"
| "feature_code IORING_OP_POLL_ADD = 7"
| "feature_code IORING_OP_POLL_REMOVE = 8"
| "feature_code IORING_OP_SYNC_FILE_RANGE = 9"
| "feature_code IORING_OP_SENDMSG = 10"
| "feature_code IORING_OP_RECVMSG = 11"
| "feature_code IORING_OP_TIMEOUT = 12"
| "feature_code IORING_OP_TIMEOUT_REMOVE = 13"
| "feature_code IORING_OP_ACCEPT = 14"
| "feature_code IORING_OP_ASYNC_CANCEL = 15"
| "feature_code IORING_OP_LINK_TIMEOUT = 16"
| "feature_code IORING_OP_CONNECT = 17"
| "feature_code IORING_OP_FALLOCATE = 18"
| "feature_code IORING_OP_OPENAT = 19"
| "feature_code IORING_OP_CLOSE = 20"
| "feature_code IORING_OP_FILES_UPDATE = 21"
| "feature_code IORING_OP_STATX = 22"
| "feature_code IORING_OP_READ = 23"
| "feature_code IORING_OP_WRITE = 24"
| "feature_code IORING_OP_FADVISE = 25"
| "feature_code IORING_OP_MADVISE = 26"
| "feature_code IORING_OP_SEND = 27"
| "feature_code IORING_OP_RECV = 28"
| "feature_code IORING_OP_OPENAT2 = 29"
| "feature_code IORING_OP_EPOLL_CTL = 30"
| "feature_code IORING_OP_SPLICE = 31"
| "feature_code IORING_OP_PROVIDE_BUFFERS = 32"
| "feature_code IORING_OP_REMOVE_BUFFERS = 33"
| "feature_code IORING_OP_TEE = 34"
| "feature_code IORING_OP_SHUTDOWN = 35"
| "feature_code IORING_OP_RENAMEAT = 36"
| "feature_code IORING_OP_UNLINKAT = 37"
| "feature_code IORING_OP_MKDIRAT = 38"
| "feature_code IORING_OP_SYMLINKAT = 39"
| "feature_code IORING_OP_LINKAT = 40"

text \<open>The \<open>switch\<close> over the kernel's operation numbers: its cases, then the fall-through.\<close>

definition op_switch :: "(int \<times> uring_feature) list" where
  "op_switch =
     [(0, IORING_OP_NOP), (1, IORING_OP_READV), (2, IORING_OP_WRITEV), (3, IORING_OP_FSYNC),
      (4, IORING_OP_READ_FIXED), (5, IORING_OP_WRITE_FIXED), (6, IORING_OP_POLL_ADD), (7, IORING_OP_POLL_REMOVE),
      (8, IORING_OP_SYNC_FILE_RANGE), (9, IORING_OP_SENDMSG), (10, IORING_OP_RECVMSG), (11, IORING_OP_TIMEOUT),
      (12, IORING_OP_TIMEOUT_REMOVE), (13, IORING_OP_ACCEPT), (14, IORING_OP_ASYNC_CANCEL), (15, IORING_OP_LINK_TIMEOUT),
      (16, IORING_OP_CONNECT), (17, IORING_OP_FALLOCATE), (18, IORING_OP_OPENAT), (19, IORING_OP_CLOSE),
      (20, IORING_OP_FILES_UPDATE), (21, IORING_OP_STATX), (22, IORING_OP_READ), (23, IORING_OP_WRITE),
      (24, IORING_OP_FADVISE), (25, IORING_OP_MADVISE), (26, IORING_OP_SEND), (27, IORING_OP_RECV),
      (28, IORING_OP_OPENAT2), (29, IORING_OP_EPOLL_CTL), (30, IORING_OP_SPLICE), (31, IORING_OP_PROVIDE_BUFFERS),
      (32, IORING_OP_REMOVE_BUFFERS), (33, IORING_OP_TEE), (34, IORING_OP_SHUTDOWN), (35, IORING_OP_RENAMEAT),
      (36, IORING_OP_UNLINKAT), (37, IORING_OP_MKDIRAT), (38, IORING_OP_SYMLINKAT), (39, IORING_OP_LINKAT)]"

definition convert_uring_op_to_feature :: "int \<Rightarrow> uring_feature" where
  "convert_uring_op_to_feature op =
     (case map_of op_switch op of Some f \<Rightarrow> f | None \<Rightarrow> Feature_UNKNOWN)"

lemma op_switch_codes: "list_all (\<lambda>(op, f). op = int (feature_code f) - 1) op_switch"
  by (simp add: op_switch_def)

lemma op_switch_distinct: "distinct (map fst op_switch)"
  by (simp add: op_switch_def)

lemma op_switch_covers: "f \<noteq> Feature_UNKNOWN \<Longrightarrow> f \<in> snd ` set op_switch"
  by (cases f) (simp_all add: op_switch_def)

lemma op_switch_known: "Feature_UNKNOWN \<notin> snd ` set op_switch"
  by (simp add: op_switch_def)

lemma op_switch_mem: "(op, f) \<in> set op_switch \<Longrightarrow> op = int (feature_code f) - 1"
  using op_switch_codes by (auto simp: list_all_iff)

lemma convert_eq_iff:
  assumes "f \<noteq> Feature_UNKNOWN"
  shows "convert_uring_op_to_feature op = f \<longleftrightarrow> op = int (feature_code f) - 1"
proof -
  obtain c where c: "(c, f) \<in> set op_switch" using op_switch_covers [OF assms] by auto
  have "convert_uring_op_to_feature op = f \<longleftrightarrow> map_of op_switch op = Some f"
    using assms by (auto simp: convert_uring_op_to_feature_def split: option.splits)
  also have "\<dots> \<longleftrightarrow> (op, f) \<in> set op_switch"
    using op_switch_distinct by simp
  also have "\<dots> \<longleftrightarrow> op = int (feature_code f) - 1"
    using op_switch_mem [of op f] op_switch_mem [OF c] c by auto
  finally show ?thesis .
qed

lemma convert_feature_code [simp]:
  "f \<noteq> Feature_UNKNOWN \<Longrightarrow> convert_uring_op_to_feature (int (feature_code f) - 1) = f"
  by (simp add: convert_eq_iff)

lemma feature_code_0 [simp]: "feature_code f = 0 \<longleftrightarrow> f = Feature_UNKNOWN"
  by (cases f) simp_all

lemma feature_code_le: "feature_code f \<le> 40"
  by (cases f) simp_all

lemma feature_code_inject [simp]: "feature_code f = feature_code g \<longleftrightarrow> f = g"
proof
  assume eq: "feature_code f = feature_code g"
  show "f = g"
  proof (cases "f = Feature_UNKNOWN")
    case True
    then show ?thesis using eq feature_code_0 [of g] by simp
  next
    case False
    then have "g \<noteq> Feature_UNKNOWN" using eq feature_code_0 [of f] by auto
    have "f = convert_uring_op_to_feature (int (feature_code g) - 1)"
      using convert_feature_code [OF False] unfolding eq by (rule sym)
    also have "\<dots> = g" by (rule convert_feature_code [OF \<open>g \<noteq> Feature_UNKNOWN\<close>])
    finally show ?thesis .
  qed
qed simp

instantiation uring_feature :: linorder
begin

definition less_eq_uring_feature :: "uring_feature \<Rightarrow> uring_feature \<Rightarrow> bool" where
  "f \<le> g \<longleftrightarrow> feature_code f \<le> feature_code g"

definition less_uring_feature :: "uring_feature \<Rightarrow> uring_feature \<Rightarrow> bool" where
  "f < g \<longleftrightarrow> feature_code f < feature_code g"

instance
proof
  fix f g h :: uring_feature
  show "f < g \<longleftrightarrow> f \<le> g \<and> \<not> g \<le> f"
    by (auto simp: less_eq_uring_feature_def less_uring_feature_def)
  show "f \<le> f" by (simp add: less_eq_uring_feature_def)
  show "f \<le> g \<Longrightarrow> g \<le> h \<Longrightarrow> f \<le> h" by (simp add: less_eq_uring_feature_def)
  show "f \<le> g \<Longrightarrow> g \<le> f \<Longrightarrow> f = g" by (simp add: less_eq_uring_feature_def)
  show "f \<le> g \<or> g \<le> f" by (auto simp: less_eq_uring_feature_def)
qed

end

section \<open>The probe\<close>

abbreviation IO_URING_OP_SUPPORTED :: u16 where "IO_URING_OP_SUPPORTED \<equiv> 1"

type_synonym probe_op = "u8 \<times> u16"
type_synonym feature_map = "(uring_feature, bool) rbt"

definition probe_op_step :: "probe_op \<Rightarrow> feature_map \<Rightarrow> feature_map" where
  "probe_op_step probed m =
     (case probed of (op, flags) \<Rightarrow>
        if flags AND IO_URING_OP_SUPPORTED = 0 then m
        else RBT.insert (convert_uring_op_to_feature (uint op)) True m)"

definition probe_uring_features :: "probe_op list option \<Rightarrow> feature_map outcome" where
  "probe_uring_features m_probe =
     (case m_probe of
        None \<Rightarrow> Inl (Abort_call ''failed to probe uring features'')
      | Some ops \<Rightarrow> Inr (fold probe_op_step ops RBT.empty))"

definition supports :: "uring_feature \<Rightarrow> feature_map \<Rightarrow> bool" where
  "supports f m \<longleftrightarrow> RBT.lookup m f \<noteq> None"

definition assert_supports :: "string \<Rightarrow> uring_feature \<Rightarrow> feature_map \<Rightarrow> unit outcome" where
  "assert_supports what f m = assert_that what (supports f m)"

definition probe_features :: "probe_op list option \<Rightarrow> unit outcome" where
  "probe_features m_probe =
     ebind (probe_uring_features m_probe) (\<lambda>probe.
     ebind (assert_supports ''IORING_OP_ACCEPT'' IORING_OP_ACCEPT probe) (\<lambda>_.
     ebind (assert_supports ''IORING_OP_RECV'' IORING_OP_RECV probe) (\<lambda>_.
     ebind (assert_supports ''IORING_OP_RECVMSG'' IORING_OP_RECVMSG probe) (\<lambda>_.
     ebind (assert_supports ''IORING_OP_SEND'' IORING_OP_SEND probe) (\<lambda>_.
     ebind (assert_supports ''IORING_OP_SENDMSG'' IORING_OP_SENDMSG probe) (\<lambda>_.
     ebind (assert_supports ''IORING_OP_CLOSE'' IORING_OP_CLOSE probe) (\<lambda>_.
     assert_supports ''IORING_OP_CONNECT'' IORING_OP_CONNECT probe)))))))"

text \<open>What a probe says, without the map.\<close>

definition reported :: "probe_op list \<Rightarrow> nat \<Rightarrow> bool" where
  "reported ops n \<longleftrightarrow> (\<exists>(op, flags) \<in> set ops. unat op = n \<and> flags AND IO_URING_OP_SUPPORTED \<noteq> 0)"

lemma supports_fold:
  "supports f (fold probe_op_step ops m) \<longleftrightarrow>
     supports f m \<or>
     (\<exists>(op, flags) \<in> set ops. flags AND IO_URING_OP_SUPPORTED \<noteq> 0 \<and>
        convert_uring_op_to_feature (uint op) = f)"
proof (induction ops arbitrary: m)
  case Nil
  then show ?case by simp
next
  case (Cons a ops)
  have "supports f (probe_op_step a m) \<longleftrightarrow> supports f m \<or>
      (snd a AND IO_URING_OP_SUPPORTED \<noteq> 0 \<and> convert_uring_op_to_feature (uint (fst a)) = f)"
    by (auto simp: supports_def probe_op_step_def split: prod.splits)
  then show ?case by (auto simp: Cons.IH)
qed

lemma supports_reported:
  assumes "f \<noteq> Feature_UNKNOWN"
  shows "supports f (fold probe_op_step ops RBT.empty) \<longleftrightarrow> reported ops (feature_code f - 1)"
proof -
  have "0 < feature_code f" using assms by (simp add: zero_less_iff_neq_zero)
  then have "uint op = int (feature_code f) - 1 \<longleftrightarrow> unat op = feature_code f - 1" for op :: u8
    using uint_nat [of op] by linarith
  moreover have "\<not> supports f RBT.empty" by (simp add: supports_def)
  ultimately show ?thesis
    by (simp add: supports_fold reported_def convert_eq_iff [OF assms] split_beta conj_commute)
qed

section \<open>Properties\<close>

text \<open>
  C26. Start-up passes the feature check exactly if the probe succeeded and the kernel reports all
  seven operations the library relies on, by their numbers (accept 13, recv 27, recvmsg 10, send
  26, sendmsg 9, close 19, connect 16); a failed probe aborts, and a missing operation fails an
  assertion.
\<close>

theorem probe_features_exact:
  "(case m_probe of
      None \<Rightarrow> probe_features m_probe = Inl (Abort_call ''failed to probe uring features'')
    | Some ops \<Rightarrow>
       (case probe_features m_probe of
          Inr _ \<Rightarrow> list_all (reported ops) [13, 27, 10, 26, 9, 19, 16]
        | Inl e \<Rightarrow> \<not> list_all (reported ops) [13, 27, 10, 26, 9, 19, 16] \<and>
            (\<exists>what. e = Assert_fail what)))"
proof (cases m_probe)
  case None
  then show ?thesis by (simp add: probe_features_def probe_uring_features_def)
next
  case (Some ops)
  then show ?thesis
    by (simp add: probe_features_def probe_uring_features_def assert_supports_def assert_that_def
        supports_reported)
qed

end
