(* ===== verification/Ring_Client.thy ===== *)
theory Ring_Client
  imports Buffer_Ring Sockets Uring_Features
begin

text \<open>
  The object \<open>IOUring\<close> and what client code does with it: the members of \<open>src/IOUring.hpp\<close>, the
  constructor and \<open>init\<close>, the \<open>submit_*\<close> operations and \<open>ackuire_send_workitem\<close> of
  \<open>src/IOUring.cpp\<close>, and \<open>SocketImpl::send\<close>. The kernel's ring \<open>m_ring\<close> is the trace; the members
  only the buffer functions use are \<open>m_buffers\<close>; those of name resolution are in the theory
  \<open>Host_Resolver\<close>.

  Code outside the library, the functions passed as callbacks, is a \<open>prog\<close>: a tree of calls to
  the library's interface that ends in the returned action or in a fault of its own. A client is any function from a
  callback's number, its argument and everything that has happened so far to such a program; it
  never calls \<open>poll_completion_queues\<close> or \<open>resolve_hostname\<close> from inside a callback. A work item
  a client holds is its address in the pool's heap.

  \<^item> \<open>ring_inv\<close>: the pool is well formed and every entry handed to the kernel carries the id
    of a slot of the pool.
  \<^item> \<open>ring_ext\<close>: what client code may change; \<open>run_prog_ext\<close> says it keeps within that.
\<close>

section \<open>State\<close>

record iouring =
  m_initialized :: bool
  m_queue_size :: nat
  m_buffers :: buffer_ring
  m_pool :: workpool
  m_ring :: io_trace

definition new_iouring :: "buf_reg \<Rightarrow> nat \<Rightarrow> io_trace \<Rightarrow> iouring" where
  "new_iouring raw queue_size tr =
     \<lparr>m_initialized = False, m_queue_size = queue_size, m_buffers = new_buffer_ring raw,
      m_pool = new_pool, m_ring = tr\<rparr>"

text \<open>The functions that make a ring; an application calls the one of the interface.\<close>

definition DEFAULT_QUEUE_SIZE :: nat where "DEFAULT_QUEUE_SIZE = 64"

definition iouring_create :: "buf_reg \<Rightarrow> nat \<Rightarrow> io_trace \<Rightarrow> iouring" where
  "iouring_create raw queue_size tr = new_iouring raw queue_size tr"

definition iouring_create_impl :: "buf_reg \<Rightarrow> io_trace \<Rightarrow> iouring" where
  "iouring_create_impl raw tr = iouring_create raw DEFAULT_QUEUE_SIZE tr"

lemma iouring_create_impl [simp]: "iouring_create_impl raw tr = new_iouring raw DEFAULT_QUEUE_SIZE tr"
  by (simp add: iouring_create_impl_def iouring_create_def)

definition init_ring :: "world \<Rightarrow> iouring \<Rightarrow> iouring outcome" where
  "init_ring w r =
     (let tr = Queue_init (m_queue_size r) # m_ring r in
      if w_syscall w tr \<noteq> 0 then Inl (Abort_call ''io_uring_queue_init'')
      else Inr (r\<lparr>m_ring := tr\<rparr>))"

definition init :: "world \<Rightarrow> iouring \<Rightarrow> (error_code \<times> iouring) outcome" where
  "init w r =
     ebind (init_ring w r) (\<lambda>r.
     ebind (probe_features (w_probe w)) (\<lambda>_.
     case setup_buffer_pool w (m_buffers r) (m_ring r) of
       (ret, b, tr) \<Rightarrow> Inr (ret, r\<lparr>m_buffers := b, m_ring := tr, m_initialized := True\<rparr>)))"

section \<open>Operations of the interface\<close>

definition put_pool :: "iouring \<Rightarrow> workpool \<times> io_trace \<Rightarrow> iouring" where
  "put_pool r q = r\<lparr>m_pool := fst q, m_ring := snd q\<rparr>"

lemma put_pool_simps [simp]:
  "m_pool (put_pool r q) = fst q" "m_ring (put_pool r q) = snd q"
  "m_initialized (put_pool r q) = m_initialized r" "m_buffers (put_pool r q) = m_buffers r"
  by (simp_all add: put_pool_def)

definition submit_accept :: "world \<Rightarrow> isocket \<Rightarrow> func \<Rightarrow> iouring \<Rightarrow> iouring outcome" where
  "submit_accept w socket handler r =
     ebind (assert_that ''socket->get_kind() == SocketKind::SERVER_STREAM_SOCKET''
              (get_kind socket = SERVER_STREAM_SOCKET)) (\<lambda>_.
     ebind (assert_that ''m_initialized'' (m_initialized r)) (\<lambda>_.
     ebind (alloc_accept_work_item (ring_submit w) (w_raw w (m_ring r)) socket handler
              ''accept-job'' (m_pool r) (m_ring r)) (\<lambda>(a, q).
     Inr (put_pool r q))))"

definition submit_connect ::
  "world \<Rightarrow> isocket \<Rightarrow> ip_address \<Rightarrow> func \<Rightarrow> iouring \<Rightarrow> iouring outcome" where
  "submit_connect w socket target handler r =
     ebind (assert_that ''m_initialized'' (m_initialized r)) (\<lambda>_.
     ebind (alloc_connect_work_item (ring_submit w) (w_raw w (m_ring r)) target socket handler
              ''connect-job'' (m_pool r) (m_ring r)) (\<lambda>(a, q).
     Inr (put_pool r q)))"

definition submit_recv :: "world \<Rightarrow> isocket \<Rightarrow> func \<Rightarrow> iouring \<Rightarrow> iouring outcome" where
  "submit_recv w socket handler r =
     ebind (assert_that ''m_initialized'' (m_initialized r)) (\<lambda>_.
     ebind (alloc_recv_work_item (ring_submit w) (w_raw w (m_ring r)) socket handler
              ''read-from-socket'' (m_pool r) (m_ring r)) (\<lambda>(a, q).
     Inr (put_pool r q)))"

definition submit_close :: "world \<Rightarrow> isocket \<Rightarrow> func \<Rightarrow> iouring \<Rightarrow> iouring outcome" where
  "submit_close w socket handler r =
     ebind (assert_that ''m_initialized'' (m_initialized r)) (\<lambda>_.
     ebind (alloc_close_work_item (ring_submit w) (w_raw w (m_ring r)) socket handler
              ''close-of-socket'' (m_pool r) (m_ring r)) (\<lambda>(a, q).
     Inr (put_pool r q)))"

definition ackuire_send_workitem :: "world \<Rightarrow> isocket \<Rightarrow> iouring \<Rightarrow> (nat \<times> iouring) outcome" where
  "ackuire_send_workitem w socket r =
     ebind (assert_that ''m_initialized'' (m_initialized r)) (\<lambda>_.
     ebind (alloc_send_work_item (w_raw w (m_ring r)) socket ''write-from-socket'' (m_pool r))
       (\<lambda>(a, p). Inr (a, put_pool r (p, m_ring r))))"

text \<open>A call of a member function on a work item the client holds.\<close>

definition call_item :: "io_trace io_submit \<Rightarrow> nat \<Rightarrow> iouring \<Rightarrow> iouring outcome" where
  "call_item f a r =
     (if a < length (wp_heap (m_pool r))
      then ebind (on_item f a (m_pool r) (m_ring r)) (\<lambda>q. Inr (put_pool r q))
      else Inl (Undefined_behaviour ''no work item at this address''))"

definition ring_send_packet :: "world \<Rightarrow> nat \<Rightarrow> iouring \<Rightarrow> iouring outcome" where
  "ring_send_packet w work_item r = call_item (ring_submit w) work_item r"

section \<open>Client programs\<close>

datatype prog =
    Return receive_post_action
  | Fail fault
  | Submit_connect isocket ip_address func prog
  | Submit_accept isocket func prog
  | Submit_recv isocket func prog
  | Submit_close isocket func prog
  | Ackuire_send_workitem isocket "nat \<Rightarrow> prog"
  | Get_send_packet nat prog
  | Append_data nat bytes prog
  | Submit_stream_data nat func prog
  | Submit_packet nat datagram_params func prog
  | Submit_item nat prog
  | New_socket socket_type socket_port_id socket_kind "socket_impl \<Rightarrow> prog"
  | New_accepted_socket accept_result "socket_impl \<Rightarrow> prog"

primrec run_prog :: "world \<Rightarrow> prog \<Rightarrow> iouring \<Rightarrow> (receive_post_action \<times> iouring) outcome" where
  "run_prog w (Return act) r = Inr (act, r)"
| "run_prog w (Fail e) r = Inl e"
| "run_prog w (Submit_connect s target cb k) r =
     ebind (submit_connect w s target cb r) (\<lambda>r. run_prog w k r)"
| "run_prog w (Submit_accept s cb k) r = ebind (submit_accept w s cb r) (\<lambda>r. run_prog w k r)"
| "run_prog w (Submit_recv s cb k) r = ebind (submit_recv w s cb r) (\<lambda>r. run_prog w k r)"
| "run_prog w (Submit_close s cb k) r = ebind (submit_close w s cb r) (\<lambda>r. run_prog w k r)"
| "run_prog w (Ackuire_send_workitem s k) r =
     ebind (ackuire_send_workitem w s r) (\<lambda>(a, r). run_prog w (k a) r)"
| "run_prog w (Get_send_packet a k) r =
     ebind (call_item (\<lambda>wi tr. Inr (wi_get_send_packet wi, tr)) a r) (\<lambda>r. run_prog w k r)"
| "run_prog w (Append_data a data k) r =
     ebind (call_item (\<lambda>wi tr. ebind (wi_packet_append data wi) (\<lambda>wi. Inr (wi, tr))) a r)
       (\<lambda>r. run_prog w k r)"
| "run_prog w (Submit_stream_data a cb k) r =
     ebind (call_item (wi_submit_stream_data (ring_submit w) cb) a r) (\<lambda>r. run_prog w k r)"
| "run_prog w (Submit_packet a params cb k) r =
     ebind (call_item (wi_submit_packet (ring_submit w) params cb) a r) (\<lambda>r. run_prog w k r)"
| "run_prog w (Submit_item a k) r =
     ebind (call_item (ring_submit w) a r) (\<lambda>r. run_prog w k r)"
| "run_prog w (New_socket type port kind k) r =
     ebind (factory_create_impl w type port kind (m_ring r))
       (\<lambda>(s, tr). run_prog w (k s) (r\<lparr>m_ring := tr\<rparr>))"
| "run_prog w (New_accepted_socket res k) r =
     ebind (factory_create_impl_accepted res) (\<lambda>s. run_prog w (k s) r)"

text \<open>\<open>SocketImpl::send\<close>, followed by the rest of the client's program.\<close>

definition socket_send :: "isocket \<Rightarrow> bytes \<Rightarrow> func \<Rightarrow> prog \<Rightarrow> prog" where
  "socket_send s reply_msg cb k =
     Ackuire_send_workitem s (\<lambda>wi.
       Get_send_packet wi (Append_data wi reply_msg (Submit_stream_data wi cb k)))"

type_synonym client = "nat \<Rightarrow> cb_event \<Rightarrow> io_trace \<Rightarrow> prog"

text \<open>The work item at an address is never used by a program.\<close>

primrec keeps_off :: "nat \<Rightarrow> prog \<Rightarrow> bool" where
  "keeps_off b (Return act) \<longleftrightarrow> True"
| "keeps_off b (Fail e) \<longleftrightarrow> True"
| "keeps_off b (Submit_connect s target cb k) \<longleftrightarrow> keeps_off b k"
| "keeps_off b (Submit_accept s cb k) \<longleftrightarrow> keeps_off b k"
| "keeps_off b (Submit_recv s cb k) \<longleftrightarrow> keeps_off b k"
| "keeps_off b (Submit_close s cb k) \<longleftrightarrow> keeps_off b k"
| "keeps_off b (Ackuire_send_workitem s k) \<longleftrightarrow> (\<forall>a. a \<noteq> b \<longrightarrow> keeps_off b (k a))"
| "keeps_off b (Get_send_packet a k) \<longleftrightarrow> a \<noteq> b \<and> keeps_off b k"
| "keeps_off b (Append_data a data k) \<longleftrightarrow> a \<noteq> b \<and> keeps_off b k"
| "keeps_off b (Submit_stream_data a cb k) \<longleftrightarrow> a \<noteq> b \<and> keeps_off b k"
| "keeps_off b (Submit_packet a params cb k) \<longleftrightarrow> a \<noteq> b \<and> keeps_off b k"
| "keeps_off b (Submit_item a k) \<longleftrightarrow> a \<noteq> b \<and> keeps_off b k"
| "keeps_off b (New_socket type port kind k) \<longleftrightarrow> (\<forall>s. keeps_off b (k s))"
| "keeps_off b (New_accepted_socket res k) \<longleftrightarrow> (\<forall>s. keeps_off b (k s))"

section \<open>What client calls add to the trace\<close>

definition client_call :: "io_call \<Rightarrow> bool" where
  "client_call c \<longleftrightarrow>
     (case c of Sys y \<Rightarrow> True | Get_sqe \<Rightarrow> True | Prep s \<Rightarrow> True | Uring_submit \<Rightarrow> True | _ \<Rightarrow> False)"

definition client_calls :: "io_trace \<Rightarrow> io_trace \<Rightarrow> bool" where
  "client_calls tr tr' \<longleftrightarrow> (\<exists>new. tr' = new @ tr \<and> list_all client_call new)"

lemma client_calls_refl [simp]: "client_calls tr tr"
  by (simp add: client_calls_def)

lemma client_calls_trans: "client_calls a b \<Longrightarrow> client_calls b c \<Longrightarrow> client_calls a c"
  by (auto simp: client_calls_def)

lemma client_calls_Cons: "client_call c \<Longrightarrow> client_calls tr tr' \<Longrightarrow> client_calls tr (c # tr')"
  by (auto simp: client_calls_def)

lemma client_calls_sys [simp]: "client_calls tr (Sys c # tr)"
  by (simp add: client_calls_def client_call_def)

lemma client_calls_keep:
  assumes "client_calls tr tr'"
  shows "callbacks_run tr' = callbacks_run tr" and "provided tr' = provided tr"
    and "buf_view tr' = buf_view tr" and "\<exists>new. submitted tr' = new @ submitted tr"
proof -
  obtain new where new: "tr' = new @ tr" "list_all client_call new"
    using assms by (auto simp: client_calls_def)
  have "callbacks_run (new @ tr) = callbacks_run tr \<and> provided (new @ tr) = provided tr \<and>
      buf_view (new @ tr) = buf_view tr \<and> (\<exists>xs. submitted (new @ tr) = xs @ submitted tr)"
    using new(2)
  proof (induction new)
    case Nil
    then show ?case by simp
  next
    case (Cons c new)
    then obtain xs where "submitted (new @ tr) = xs @ submitted tr" by auto
    then have "\<exists>ys. submitted ((c # new) @ tr) = ys @ submitted tr"
      using Cons.prems by (cases c) (auto simp: client_call_def)
    then show ?case
      using Cons by (cases c) (auto simp: client_call_def Let_def)
  qed
  then show "callbacks_run tr' = callbacks_run tr" "provided tr' = provided tr"
    "buf_view tr' = buf_view tr" "\<exists>new. submitted tr' = new @ submitted tr"
    by (simp_all add: new(1))
qed

lemma submitted_suffix: "client_calls tr tr' \<Longrightarrow> set (submitted tr) \<subseteq> set (submitted tr')"
  using client_calls_keep(4) [of tr tr'] by auto

lemma new_socket_calls:
  "new_socket w type port kind tr = Inr (s, tr') \<Longrightarrow>
     client_calls tr tr' \<and> submitted tr' = submitted tr"
  by (cases kind; cases type)
    (auto simp: new_socket_def create_socket_def sys_def Let_def local_bind_def dump_info_def
      outcome_simps client_calls_def client_call_def split: if_splits)

section \<open>Invariant and extension\<close>

definition entries_ok :: "workpool \<Rightarrow> io_trace \<Rightarrow> bool" where
  "entries_ok p tr \<longleftrightarrow> (\<forall>s \<in> set (submitted tr). sqe_user_data s < length (m_work_items p))"

definition ring_inv :: "iouring \<Rightarrow> bool" where
  "ring_inv r \<longleftrightarrow> pool_inv (m_pool r) \<and> entries_ok (m_pool r) (m_ring r)"

definition ring_ext :: "nat set \<Rightarrow> iouring \<Rightarrow> iouring \<Rightarrow> bool" where
  "ring_ext A r r' \<longleftrightarrow>
     m_initialized r' = m_initialized r \<and> m_queue_size r' = m_queue_size r \<and>
     m_buffers r' = m_buffers r \<and> client_calls (m_ring r) (m_ring r') \<and>
     length (m_work_items (m_pool r)) \<le> length (m_work_items (m_pool r')) \<and>
     length (wp_heap (m_pool r)) \<le> length (wp_heap (m_pool r')) \<and>
     (\<forall>i < length (m_work_items (m_pool r)). m_work_items (m_pool r) ! i \<noteq> None \<longrightarrow>
        m_work_items (m_pool r') ! i = m_work_items (m_pool r) ! i) \<and>
     (\<forall>b < length (wp_heap (m_pool r)).
        same_identity (wp_heap (m_pool r) ! b) (wp_heap (m_pool r') ! b) \<and>
        (b \<notin> A \<longrightarrow> wp_heap (m_pool r') ! b = wp_heap (m_pool r) ! b))"

lemma ring_extD:
  assumes "ring_ext A r r'"
  shows "m_initialized r' = m_initialized r" and "m_buffers r' = m_buffers r"
    and "client_calls (m_ring r) (m_ring r')"
    and "length (m_work_items (m_pool r)) \<le> length (m_work_items (m_pool r'))"
    and "length (wp_heap (m_pool r)) \<le> length (wp_heap (m_pool r'))"
    and "\<And>i a. i < length (m_work_items (m_pool r)) \<Longrightarrow> m_work_items (m_pool r) ! i = Some a \<Longrightarrow>
      m_work_items (m_pool r') ! i = Some a"
    and "\<And>b. b < length (wp_heap (m_pool r)) \<Longrightarrow>
      same_identity (wp_heap (m_pool r) ! b) (wp_heap (m_pool r') ! b)"
    and "\<And>b. b < length (wp_heap (m_pool r)) \<Longrightarrow> b \<notin> A \<Longrightarrow>
      wp_heap (m_pool r') ! b = wp_heap (m_pool r) ! b"
  using assms by (auto simp: ring_ext_def)

lemma ring_ext_refl [simp]: "ring_ext A r r"
  by (simp add: ring_ext_def)

lemma ring_ext_trans:
  assumes "ring_ext A r r1" and "ring_ext B r1 r2"
    and "\<And>b. b < length (wp_heap (m_pool r)) \<Longrightarrow> b \<in> A \<union> B \<Longrightarrow> b \<in> C"
  shows "ring_ext C r r2"
proof -
  note d1 = ring_extD [OF assms(1)] and d2 = ring_extD [OF assms(2)]
  have "m_queue_size r2 = m_queue_size r" using assms(1,2) by (simp add: ring_ext_def)
  moreover have "client_calls (m_ring r) (m_ring r2)"
    by (rule client_calls_trans [OF d1(3) d2(3)])
  moreover have "m_work_items (m_pool r2) ! i = m_work_items (m_pool r) ! i"
    if "i < length (m_work_items (m_pool r))" "m_work_items (m_pool r) ! i \<noteq> None" for i
    using that d1(4,6) d2(6) by fastforce
  moreover have "same_identity (wp_heap (m_pool r) ! b) (wp_heap (m_pool r2) ! b) \<and>
      (b \<notin> C \<longrightarrow> wp_heap (m_pool r2) ! b = wp_heap (m_pool r) ! b)"
    if b: "b < length (wp_heap (m_pool r))" for b
  proof -
    have b1: "b < length (wp_heap (m_pool r1))" using b d1(5) by simp
    have "b \<notin> C \<Longrightarrow> b \<notin> A \<and> b \<notin> B" using assms(3) [OF b] by auto
    then show ?thesis
      using d1(8) [OF b] d2(8) [OF b1] same_identity_trans [OF d1(7) [OF b] d2(7) [OF b1]] by simp
  qed
  ultimately show ?thesis
    using d1(1,2,4,5) d2(1,2,4,5) by (simp add: ring_ext_def)
qed

section \<open>One call\<close>

text \<open>What a call that hands one item to the ring may do: one entry more, with the item's id.\<close>

definition ring_member :: "io_trace io_submit \<Rightarrow> bool" where
  "ring_member f \<longleftrightarrow>
     (\<forall>wi tr wi' tr'. wi_inv wi \<longrightarrow> f wi tr = Inr (wi', tr') \<longrightarrow>
        wi_inv wi' \<and> same_identity wi wi' \<and> client_calls tr tr' \<and>
        (\<forall>s \<in> set (submitted tr'). s \<in> set (submitted tr) \<or> sqe_user_data s = m_id wi))"

lemma ring_memberD:
  assumes "ring_member f" and "wi_inv wi" and "f wi tr = Inr (wi', tr')"
  shows "wi_inv wi'" and "same_identity wi wi'" and "client_calls tr tr'"
    and "\<And>s. s \<in> set (submitted tr') \<Longrightarrow> s \<in> set (submitted tr) \<or> sqe_user_data s = m_id wi"
  using assms by (auto simp: ring_member_def)

lemma get_sqe_calls: "get_sqe w tr = Inr tr' \<Longrightarrow> client_calls tr tr'"
  by (auto simp: get_sqe_cases client_calls_def client_call_def split: if_splits)

lemma ring_member_submit [simp]: "ring_member (ring_submit w)"
  unfolding ring_member_def
proof (intro allI impI)
  fix wi wi' :: work_item and tr tr' :: io_trace
  assume a: "wi_inv wi" "ring_submit w wi tr = Inr (wi', tr')"
  obtain s tr1 where s: "get_sqe w tr = Inr tr1" "prep_request wi = Inr (wi', s)"
    "tr' = Uring_submit # Prep s # tr1"
    by (rule ring_submitE [OF a(2)])
  note p = prep_request_prepared [OF a(1) s(2)]
  show "wi_inv wi' \<and> same_identity wi wi' \<and> client_calls tr tr' \<and>
        (\<forall>s \<in> set (submitted tr'). s \<in> set (submitted tr) \<or> sqe_user_data s = m_id wi)"
    using p get_sqe_calls [OF s(1)] get_sqe_keeps [OF s(1)] s(3)
    by (auto simp: prepared_def client_call_def intro!: client_calls_Cons)
qed

lemma ring_member_forwards:
  assumes "forwards (ring_submit w) f t cb"
  shows "ring_member f"
  unfolding ring_member_def
proof (intro allI impI)
  fix wi wi' :: work_item and tr tr' :: io_trace
  assume "wi_inv wi" and "f wi tr = Inr (wi', tr')"
  then obtain v where v: "wi_inv v" "same_identity wi v" "ring_submit w v tr = Inr (wi', tr')"
    by (rule forwardsE [OF assms])
  note d = ring_memberD [OF ring_member_submit v(1,3)]
  have "m_id v = m_id wi" using v(2) by (simp add: same_identity_def)
  then show "wi_inv wi' \<and> same_identity wi wi' \<and> client_calls tr tr' \<and>
        (\<forall>s \<in> set (submitted tr'). s \<in> set (submitted tr) \<or> sqe_user_data s = m_id wi)"
    using d same_identity_trans [OF v(2) d(2)] by auto
qed

lemmas ring_members [simp] = forwards_members [THEN ring_member_forwards]

lemma ring_member_packet [simp]:
  "ring_member (\<lambda>wi tr. Inr (wi_get_send_packet wi, tr))"
  "ring_member (\<lambda>wi tr. ebind (wi_packet_append data wi) (\<lambda>wi. Inr (wi, tr)))"
  "ring_member (\<lambda>wi tr. Inr (clean_send_packet wi, tr))"
  unfolding ring_member_def
  by (auto simp: outcome_simps wi_get_send_packet_def clean_send_packet_def same_identity_def wi_inv_def sp_reset_inv
      wi_packet_append_def append_string_def dest: append_raw_inv)

lemma call_item_ext:
  assumes "ring_member f" and "ring_inv r" and "call_item f a r = Inr r'"
  shows "ring_inv r' \<and> ring_ext {a} r r'"
proof -
  let ?p = "m_pool r"
  have a: "a < length (wp_heap ?p)" using assms(3) by (auto simp: call_item_def split: if_splits)
  obtain wi tr where f: "f (wp_heap ?p ! a) (m_ring r) = Inr (wi, tr)"
    and r': "r' = put_pool r (heap_write a wi ?p, tr)"
    using assms(3) by (auto simp: call_item_def on_item_def outcome_simps split: if_splits)
  have p: "pool_inv ?p" "entries_ok ?p (m_ring r)" using assms(2) by (simp_all add: ring_inv_def)
  have wi: "wi_inv (wp_heap ?p ! a)" "m_id (wp_heap ?p ! a) < length (m_work_items ?p)"
    using pool_invD(4) [OF p(1) a] by simp_all
  note m = ring_memberD [OF assms(1) wi(1) f]
  have "pool_inv (heap_write a wi ?p)" by (rule heap_write_inv [OF p(1) a m(1,2)])
  moreover have "entries_ok (heap_write a wi ?p) tr"
    unfolding entries_ok_def
  proof
    fix s assume "s \<in> set (submitted tr)"
    then have "s \<in> set (submitted (m_ring r)) \<or> sqe_user_data s = m_id (wp_heap ?p ! a)"
      by (rule m(4))
    then show "sqe_user_data s < length (m_work_items (heap_write a wi ?p))"
      using p(2) wi(2) by (auto simp: entries_ok_def)
  qed
  moreover have "ring_ext {a} r r'"
    using m(2,3) a by (auto simp: ring_ext_def r' put_pool_def heap_write_nth)
  ultimately show ?thesis by (simp add: ring_inv_def r' put_pool_def)
qed

lemma alloc_ext:
  assumes "ring_inv r" and "internal_alloc_work_item raw s d (m_pool r) = Inr (a, p)"
  shows "ring_inv (put_pool r (p, m_ring r))" and "ring_ext {} r (put_pool r (p, m_ring r))"
    and "a = length (wp_heap (m_pool r))" and "a < length (wp_heap p)"
proof -
  have p: "pool_inv (m_pool r)" "entries_ok (m_pool r) (m_ring r)"
    using assms(1) by (simp_all add: ring_inv_def)
  obtain q where q: "internal_alloc_work_item raw s d (m_pool r) = Inr (length (wp_heap (m_pool r)), q)"
    "wp_heap q = wp_heap (m_pool r) @ [new_work_item raw (next_id (m_pool r)) d s]"
    "m_work_items q = (if m_free_ids (m_pool r) = []
       then m_work_items (m_pool r) @ [Some (length (wp_heap (m_pool r)))]
       else (m_work_items (m_pool r))[next_id (m_pool r) := Some (length (wp_heap (m_pool r)))])"
    by (rule alloc_result [OF p(1)])
  have pq: "p = q" "a = length (wp_heap (m_pool r))" using q(1) assms(2) by auto
  show "a = length (wp_heap (m_pool r))" "a < length (wp_heap p)" using pq q(2) by simp_all
  have len: "length (m_work_items (m_pool r)) \<le> length (m_work_items p)" using q(3) pq by simp
  show "ring_inv (put_pool r (p, m_ring r))"
    using alloc_inv [OF p(1) assms(2)] p(2) len
    by (auto simp: ring_inv_def put_pool_def entries_ok_def)
  have "m_work_items p ! i = m_work_items (m_pool r) ! i"
    if "i < length (m_work_items (m_pool r))" "m_work_items (m_pool r) ! i \<noteq> None" for i
  proof -
    have "i = next_id (m_pool r) \<Longrightarrow> pool_abs (m_pool r) i \<noteq> None"
      using that by (auto simp: pool_abs_def)
    then have "i \<noteq> next_id (m_pool r)" using next_id_fresh(2) [OF p(1)] by auto
    then show ?thesis using q(3) pq that by (simp add: nth_append nth_list_update)
  qed
  then show "ring_ext {} r (put_pool r (p, m_ring r))"
    using len q(2) pq by (simp add: ring_ext_def put_pool_def nth_append)
qed

text \<open>An operation that allocates an item and hands it to the ring.\<close>

lemma alloc_then_call_ext:
  assumes "ring_member f" and "ring_inv r"
    and "internal_alloc_work_item raw s d (m_pool r) = Inr (a, p)"
    and "call_item f a (put_pool r (p, m_ring r)) = Inr r'"
  shows "ring_inv r' \<and> ring_ext {} r r'"
proof -
  note ext = alloc_ext [OF assms(2,3)]
  note c = call_item_ext [OF assms(1) ext(1) assms(4)]
  have "ring_ext {} r r'"
    using ext(3) by (intro ring_ext_trans [OF ext(2) conjunct2 [OF c]]) auto
  then show ?thesis using c by blast
qed

lemma alloc_then_call:
  assumes "ring_inv r"
    and "ebind (internal_alloc_work_item raw s d (m_pool r)) (\<lambda>(a, p).
           ebind (on_item f a p (m_ring r)) (\<lambda>(p, io). Inr (a, p, io))) = Inr (a, q)"
  obtains p where "internal_alloc_work_item raw s d (m_pool r) = Inr (a, p)"
    and "call_item f a (put_pool r (p, m_ring r)) = Inr (put_pool r q)"
proof -
  obtain p where al: "internal_alloc_work_item raw s d (m_pool r) = Inr (a, p)"
    and on: "on_item f a p (m_ring r) = Inr q"
    using assms(2) by (auto simp: outcome_simps)
  have "call_item f a (put_pool r (p, m_ring r)) = Inr (put_pool r q)"
    using on alloc_ext(4) [OF assms(1) al] by (simp add: call_item_def put_pool_def)
  then show thesis by (rule that [OF al])
qed

lemma alloc_call_ext:
  assumes "ring_member f" and "ring_inv r"
    and "ebind (internal_alloc_work_item raw s d (m_pool r)) (\<lambda>(a, p).
           ebind (on_item f a p (m_ring r)) (\<lambda>(p, io). Inr (a, p, io))) = Inr (a, q)"
  shows "ring_inv (put_pool r q) \<and> ring_ext {} r (put_pool r q)"
  by (rule alloc_then_call [OF assms(2,3)]) (rule alloc_then_call_ext [OF assms(1,2)])

lemmas alloc_defs = alloc_accept_work_item_def alloc_connect_work_item_def
  alloc_recv_work_item_def alloc_close_work_item_def

lemma submit_ops_ext:
  assumes "ring_inv r"
  shows "submit_accept w s cb r = Inr r' \<Longrightarrow> ring_inv r' \<and> ring_ext {} r r'"
    and "submit_connect w s target cb r = Inr r' \<Longrightarrow> ring_inv r' \<and> ring_ext {} r r'"
    and "submit_recv w s cb r = Inr r' \<Longrightarrow> ring_inv r' \<and> ring_ext {} r r'"
    and "submit_close w s cb r = Inr r' \<Longrightarrow> ring_inv r' \<and> ring_ext {} r r'"
  using alloc_call_ext [OF ring_members(1) assms] alloc_call_ext [OF ring_members(2) assms]
    alloc_call_ext [OF ring_members(3) assms] alloc_call_ext [OF ring_members(6) assms]
  by (auto simp: submit_accept_def submit_connect_def submit_recv_def submit_close_def
      ebind_eq_Inr assert_that_eq_Inr simp flip: alloc_defs)

lemma ackuire_ext:
  assumes "ring_inv r" and "ackuire_send_workitem w s r = Inr (a, r')"
  shows "ring_inv r'" and "ring_ext {} r r'" and "a = length (wp_heap (m_pool r))"
proof -
  obtain p where "internal_alloc_work_item (w_raw w (m_ring r)) s ''write-from-socket'' (m_pool r)
      = Inr (a, p)" and "r' = put_pool r (p, m_ring r)"
    using assms(2)
    by (auto simp: ackuire_send_workitem_def alloc_send_work_item_def ebind_eq_Inr assert_that_eq_Inr)
  then show "ring_inv r'" "ring_ext {} r r'" "a = length (wp_heap (m_pool r))"
    using alloc_ext [OF assms(1)] by auto
qed

section \<open>A whole program\<close>

text \<open>
  The calls of a program by what they do to the pool: allocate an item and submit it at once (its
  socket, description, type, callback and submitting member), change the packet of an item, or
  submit an item that was allocated before. Each comes with the rest of the program.
\<close>

fun new_request :: "world \<Rightarrow> prog \<Rightarrow>
  (isocket \<times> string \<times> work_type \<times> callback_var \<times> io_trace io_submit \<times> prog) option" where
  "new_request w (Submit_connect s target cb k) =
     Some (s, ''connect-job'', Type_CONNECT, Connect_cb cb,
       wi_submit_connect (ring_submit w) target cb, k)"
| "new_request w (Submit_accept s cb k) =
     Some (s, ''accept-job'', Type_ACCEPT, Accept_cb cb, wi_submit_accept (ring_submit w) cb, k)"
| "new_request w (Submit_recv s cb k) =
     Some (s, ''read-from-socket'', Type_RECV, Recv_cb cb, wi_submit_recv (ring_submit w) cb, k)"
| "new_request w (Submit_close s cb k) =
     Some (s, ''close-of-socket'', Type_CLOSE, Close_cb cb, wi_submit_close (ring_submit w) cb, k)"
| "new_request w p = None"

fun packet_edit :: "prog \<Rightarrow> (nat \<times> (work_item \<Rightarrow> work_item outcome) \<times> prog) option" where
  "packet_edit (Get_send_packet a k) = Some (a, (\<lambda>wi. Inr (wi_get_send_packet wi)), k)"
| "packet_edit (Append_data a data k) = Some (a, wi_packet_append data, k)"
| "packet_edit p = None"

fun item_request :: "world \<Rightarrow> prog \<Rightarrow>
  (nat \<times> work_type \<times> callback_var \<times> io_trace io_submit \<times> prog) option" where
  "item_request w (Submit_stream_data a cb k) =
     Some (a, Type_SEND_STREAM_DATA, Send_cb cb, wi_submit_stream_data (ring_submit w) cb, k)"
| "item_request w (Submit_packet a params cb k) =
     Some (a, Type_SEND_WORKPACKET, Send_cb cb, wi_submit_packet (ring_submit w) params cb, k)"
| "item_request w p = None"

abbreviation edit_item :: "(work_item \<Rightarrow> work_item outcome) \<Rightarrow> io_trace io_submit" where
  "edit_item g \<equiv> (\<lambda>wi tr. ebind (g wi) (\<lambda>wi. Inr (wi, tr)))"

lemma request_forwards:
  "new_request w p = Some (s, d, t, cb, f, k) \<Longrightarrow> forwards (ring_submit w) f t cb"
  "item_request w p = Some (a, t, cb, f, k) \<Longrightarrow> forwards (ring_submit w) f t cb"
  by (cases p; auto simp: forwards_members)+

lemma edit_member: "packet_edit p = Some (a, g, k) \<Longrightarrow> ring_member (edit_item g)"
  using ring_member_packet by (cases p) auto

lemma run_new_request:
  assumes "new_request w p = Some (s, d, t, cb, f, k)" and "ring_inv r"
    and "run_prog w p r = Inr (act, r')"
  shows "\<exists>a q r1. internal_alloc_work_item (w_raw w (m_ring r)) s d (m_pool r) = Inr (a, q) \<and>
    call_item f a (put_pool r (q, m_ring r)) = Inr r1 \<and> run_prog w k r1 = Inr (act, r')"
proof -
  obtain a q where chain: "ebind (internal_alloc_work_item (w_raw w (m_ring r)) s d (m_pool r))
      (\<lambda>(a, p). ebind (on_item f a p (m_ring r)) (\<lambda>(p, io). Inr (a, p, io))) = Inr (a, q)"
    and run: "run_prog w k (put_pool r q) = Inr (act, r')"
    using assms(1,3)
    by (cases p)
      (auto simp: submit_accept_def submit_connect_def submit_recv_def submit_close_def alloc_defs
        ebind_eq_Inr assert_that_eq_Inr)
  from alloc_then_call [OF assms(2) chain] run show ?thesis by blast
qed

lemma run_packet_edit:
  "packet_edit p = Some (a, g, k) \<Longrightarrow> run_prog w p r = Inr (act, r') \<Longrightarrow>
     \<exists>r1. call_item (edit_item g) a r = Inr r1 \<and> run_prog w k r1 = Inr (act, r')"
  by (cases p) (auto simp: ebind_eq_Inr [of "call_item _ _ _"])

lemma run_item_request:
  "item_request w p = Some (a, t, cb, f, k) \<Longrightarrow> run_prog w p r = Inr (act, r') \<Longrightarrow>
     \<exists>r1. call_item f a r = Inr r1 \<and> run_prog w k r1 = Inr (act, r')"
  by (cases p) (auto simp: ebind_eq_Inr [of "call_item _ _ _"])

text \<open>Induction over a run that returns.\<close>

lemma run_prog_induct [consumes 2, case_names Return Request Acquire Edit Item Again Socket Accepted]:
  assumes "run_prog w p r = Inr (act, r')" and "ring_inv r"
    and return: "ring_inv r' \<Longrightarrow> P (Return act) r'"
    and request: "\<And>p s d t cb f k r a q r1. new_request w p = Some (s, d, t, cb, f, k) \<Longrightarrow>
      ring_inv r \<Longrightarrow> internal_alloc_work_item (w_raw w (m_ring r)) s d (m_pool r) = Inr (a, q) \<Longrightarrow>
      call_item f a (put_pool r (q, m_ring r)) = Inr r1 \<Longrightarrow> run_prog w k r1 = Inr (act, r') \<Longrightarrow>
      P k r1 \<Longrightarrow> P p r"
    and acquire: "\<And>s k r a q. ring_inv r \<Longrightarrow>
      internal_alloc_work_item (w_raw w (m_ring r)) s ''write-from-socket'' (m_pool r) = Inr (a, q) \<Longrightarrow>
      run_prog w (k a) (put_pool r (q, m_ring r)) = Inr (act, r') \<Longrightarrow>
      P (k a) (put_pool r (q, m_ring r)) \<Longrightarrow> P (Ackuire_send_workitem s k) r"
    and edit: "\<And>p a g k r r1. packet_edit p = Some (a, g, k) \<Longrightarrow> ring_inv r \<Longrightarrow>
      call_item (edit_item g) a r = Inr r1 \<Longrightarrow> run_prog w k r1 = Inr (act, r') \<Longrightarrow> P k r1 \<Longrightarrow> P p r"
    and item: "\<And>p a t cb f k r r1. item_request w p = Some (a, t, cb, f, k) \<Longrightarrow> ring_inv r \<Longrightarrow>
      call_item f a r = Inr r1 \<Longrightarrow> run_prog w k r1 = Inr (act, r') \<Longrightarrow> P k r1 \<Longrightarrow> P p r"
    and again: "\<And>a k r r1. ring_inv r \<Longrightarrow> call_item (ring_submit w) a r = Inr r1 \<Longrightarrow>
      run_prog w k r1 = Inr (act, r') \<Longrightarrow> P k r1 \<Longrightarrow> P (Submit_item a k) r"
    and socket: "\<And>type port kind k r s tr. ring_inv r \<Longrightarrow>
      new_socket w type port kind (m_ring r) = Inr (s, tr) \<Longrightarrow>
      run_prog w (k s) (r\<lparr>m_ring := tr\<rparr>) = Inr (act, r') \<Longrightarrow> P (k s) (r\<lparr>m_ring := tr\<rparr>) \<Longrightarrow>
      P (New_socket type port kind k) r"
    and accepted: "\<And>res k r s. ring_inv r \<Longrightarrow> new_accepted_socket res = Inr s \<Longrightarrow>
      run_prog w (k s) r = Inr (act, r') \<Longrightarrow> P (k s) r \<Longrightarrow> P (New_accepted_socket res k) r"
  shows "P p r"
proof -
  have by_request: "P p r"
    if h: "new_request w p = Some (s, d, t, cb, f, k)" "ring_inv r" "run_prog w p r = Inr (act, r')"
      "\<And>r. run_prog w k r = Inr (act, r') \<Longrightarrow> ring_inv r \<Longrightarrow> P k r"
    for p s d t cb f k r
  proof -
    obtain a q r1 where c: "internal_alloc_work_item (w_raw w (m_ring r)) s d (m_pool r) = Inr (a, q)"
      "call_item f a (put_pool r (q, m_ring r)) = Inr r1" "run_prog w k r1 = Inr (act, r')"
      using run_new_request [OF h(1-3)] by blast
    have "ring_inv r1"
      using call_item_ext [OF ring_member_forwards [OF request_forwards(1) [OF h(1)]]
          alloc_ext(1) [OF h(2) c(1)] c(2)] by blast
    then show ?thesis by (rule request [OF h(1,2) c h(4) [OF c(3)]])
  qed
  have by_edit: "P p r"
    if "packet_edit p = Some (a, g, k)" "ring_inv r" "run_prog w p r = Inr (act, r')"
      "\<And>r. run_prog w k r = Inr (act, r') \<Longrightarrow> ring_inv r \<Longrightarrow> P k r"
    for p a g k r
    using run_packet_edit [OF that(1,3)] edit [OF that(1,2)] that(4)
      call_item_ext [OF edit_member [OF that(1)] that(2)] by blast
  have by_item: "P p r"
    if "item_request w p = Some (a, t, cb, f, k)" "ring_inv r" "run_prog w p r = Inr (act, r')"
      "\<And>r. run_prog w k r = Inr (act, r') \<Longrightarrow> ring_inv r \<Longrightarrow> P k r"
    for p a t cb f k r
    using run_item_request [OF that(1,3)] item [OF that(1,2)] that(4)
      call_item_ext [OF ring_member_forwards [OF request_forwards(2) [OF that(1)]] that(2)] by blast
  show ?thesis
    using assms(1,2)
  proof (induction p arbitrary: r)
    case (Return act')
    then show ?case using return by simp
  next
    case (Fail e)
    then show ?case by simp
  next
    case (Submit_connect s target cb k)
    from Submit_connect.prems Submit_connect.IH show ?case by (intro by_request [of "Submit_connect s target cb k"]) simp_all
  next
    case (Submit_accept s cb k)
    from Submit_accept.prems Submit_accept.IH show ?case by (intro by_request [of "Submit_accept s cb k"]) simp_all
  next
    case (Submit_recv s cb k)
    from Submit_recv.prems Submit_recv.IH show ?case by (intro by_request [of "Submit_recv s cb k"]) simp_all
  next
    case (Submit_close s cb k)
    from Submit_close.prems Submit_close.IH show ?case by (intro by_request [of "Submit_close s cb k"]) simp_all
  next
    case (Ackuire_send_workitem s k)
    then obtain a q where c: "internal_alloc_work_item (w_raw w (m_ring r)) s ''write-from-socket'' (m_pool r)
        = Inr (a, q)" "run_prog w (k a) (put_pool r (q, m_ring r)) = Inr (act, r')"
      by (auto simp: ackuire_send_workitem_def alloc_send_work_item_def ebind_eq_Inr assert_that_eq_Inr)
    from Ackuire_send_workitem.IH [OF rangeI c(2) alloc_ext(1) [OF Ackuire_send_workitem.prems(2) c(1)]]
    show ?case by (rule acquire [where k = k, OF Ackuire_send_workitem.prems(2) c])
  next
    case (Get_send_packet a k)
    from Get_send_packet.prems Get_send_packet.IH show ?case by (intro by_edit [of "Get_send_packet a k"]) simp_all
  next
    case (Append_data a data k)
    from Append_data.prems Append_data.IH show ?case by (intro by_edit [of "Append_data a data k"]) simp_all
  next
    case (Submit_stream_data a cb k)
    from Submit_stream_data.prems Submit_stream_data.IH show ?case
      by (intro by_item [of "Submit_stream_data a cb k"]) simp_all
  next
    case (Submit_packet a params cb k)
    from Submit_packet.prems Submit_packet.IH show ?case
      by (intro by_item [of "Submit_packet a params cb k"]) simp_all
  next
    case (Submit_item a k)
    then obtain r1 where c: "call_item (ring_submit w) a r = Inr r1" "run_prog w k r1 = Inr (act, r')"
      by (auto simp: ebind_eq_Inr [of "call_item _ _ _"])
    have "ring_inv r1" using call_item_ext [OF ring_member_submit Submit_item.prems(2) c(1)] by simp
    then show ?case by (rule again [OF Submit_item.prems(2) c Submit_item.IH [OF c(2)]])
  next
    case (New_socket type port kind k)
    then obtain s tr where c: "new_socket w type port kind (m_ring r) = Inr (s, tr)"
      "run_prog w (k s) (r\<lparr>m_ring := tr\<rparr>) = Inr (act, r')"
      by (auto simp: ebind_eq_Inr)
    have "ring_inv (r\<lparr>m_ring := tr\<rparr>)"
      using New_socket.prems(2) new_socket_calls [OF c(1)] by (simp add: ring_inv_def entries_ok_def)
    then show ?case by (rule socket [where k = k, OF New_socket.prems(2) c New_socket.IH [OF rangeI c(2)]])
  next
    case (New_accepted_socket res k)
    then obtain s where c: "new_accepted_socket res = Inr s" "run_prog w (k s) r = Inr (act, r')"
      by (auto simp: ebind_eq_Inr)
    show ?case
      by (rule accepted [where k = k, OF New_accepted_socket.prems(2) c
            New_accepted_socket.IH [OF rangeI c(2) New_accepted_socket.prems(2)]])
  qed
qed

lemma ring_ext_then:
  assumes "ring_inv r1 \<and> ring_ext A r r1"
    and "ring_inv r2 \<and> ring_ext {b. \<not> keeps_off b k} r1 r2"
    and "\<And>b. b < length (wp_heap (m_pool r)) \<Longrightarrow> keeps_off b p \<Longrightarrow> b \<notin> A \<and> keeps_off b k"
  shows "ring_inv r2 \<and> ring_ext {b. \<not> keeps_off b p} r r2"
proof
  show "ring_inv r2" using assms(2) by simp
  show "ring_ext {b. \<not> keeps_off b p} r r2"
    using assms(3) by (intro ring_ext_trans [OF conjunct2 [OF assms(1)] conjunct2 [OF assms(2)]]) auto
qed

lemma calls_keep_off:
  "new_request w p = Some (s, d, t, cb, f, k) \<Longrightarrow> keeps_off b p \<longleftrightarrow> keeps_off b k"
  "packet_edit p = Some (a, g, k) \<Longrightarrow> keeps_off b p \<longleftrightarrow> a \<noteq> b \<and> keeps_off b k"
  "item_request w p = Some (a, t, cb, f, k) \<Longrightarrow> keeps_off b p \<longleftrightarrow> a \<noteq> b \<and> keeps_off b k"
  by (cases p; auto)+

lemma run_prog_ext:
  assumes "ring_inv r" and "run_prog w p r = Inr (act, r')"
  shows "ring_inv r' \<and> ring_ext {b. \<not> keeps_off b p} r r'"
  using assms(2,1)
proof (induction rule: run_prog_induct)
  case Return
  then show ?case by simp
next
  case (Request p s d t cb f k r a q r1)
  note c = alloc_then_call_ext [OF ring_member_forwards [OF request_forwards(1) [OF Request(1)]] Request(2-4)]
  show ?case by (rule ring_ext_then [OF c Request(6)]) (simp add: calls_keep_off(1) [OF Request(1)])
next
  case (Acquire s k r a q)
  note e = alloc_ext [OF Acquire(1,2)]
  show ?case using e(3) by (intro ring_ext_then [OF conjI [OF e(1,2)] Acquire(4)]) auto
next
  case (Edit p a g k r r1)
  note c = call_item_ext [OF edit_member [OF Edit(1)] Edit(2,3)]
  show ?case by (rule ring_ext_then [OF c Edit(5)]) (simp add: calls_keep_off(2) [OF Edit(1)])
next
  case (Item p a t cb f k r r1)
  note c = call_item_ext [OF ring_member_forwards [OF request_forwards(2) [OF Item(1)]] Item(2,3)]
  show ?case by (rule ring_ext_then [OF c Item(5)]) (simp add: calls_keep_off(3) [OF Item(1)])
next
  case (Again a k r r1)
  note c = call_item_ext [OF ring_member_submit Again(1,2)]
  show ?case by (rule ring_ext_then [OF c Again(4)]) simp
next
  case (Socket type port kind k r s tr)
  have e: "ring_inv (r\<lparr>m_ring := tr\<rparr>) \<and> ring_ext {} r (r\<lparr>m_ring := tr\<rparr>)"
    using Socket(1) new_socket_calls [OF Socket(2)] by (simp add: ring_inv_def entries_ok_def ring_ext_def)
  show ?case by (rule ring_ext_then [OF e Socket(4)]) simp
next
  case (Accepted res k r s)
  have e: "ring_inv r \<and> ring_ext {} r r" using Accepted(1) by simp
  show ?case by (rule ring_ext_then [OF e Accepted(4)]) simp
qed

section \<open>Sending over a stream\<close>

lemma heap_write_twice [simp]: "heap_write a x (heap_write a y p) = heap_write a x p"
  by (simp add: heap_write_def)

lemma call_item_on:
  assumes "a < length (wp_heap p)"
  shows "call_item f a (put_pool r (p, tr)) =
    ebind (f (wp_heap p ! a) tr) (\<lambda>(wi, tr). Inr (put_pool r (heap_write a wi p, tr)))"
  using assms
  by (cases "f (wp_heap p ! a) tr")
    (auto simp: call_item_def on_item_def put_pool_def split: prod.splits)

text \<open>The packet of a fresh work item after \<open>get_send_packet\<close> and one append.\<close>

lemma append_to_new_item:
  assumes "length msg < 2 ^ 63"
  shows "(case wi_packet_append msg (wi_get_send_packet (new_work_item raw i d s)) of
      Inl e \<Rightarrow> 4096 \<le> length msg \<and> e = Assert_fail ''(m_size + len) < m_buf.size()''
    | Inr wi \<Rightarrow> length msg < 4096 \<and> wi_inv wi \<and>
        same_identity (new_work_item raw i d s) wi \<and> sp_contents (m_send_packet wi) = msg \<and>
        m_link_to_next_request wi = False)"
proof -
  let ?wi = "wi_get_send_packet (new_work_item raw i d s)"
  let ?p = "m_send_packet ?wi"
  have wi: "wi_inv ?wi" by (rule wi_get_send_packet_inv) simp
  then have inv: "sp_inv ?p" by (simp add: wi_inv_def)
  have sz: "unat (m_size ?p) = 0" and c: "sp_contents ?p = []"
    by (simp_all add: wi_get_send_packet_def sp_reset_def sp_contents_def)
  show ?thesis
  proof (cases "length msg < 4096")
    case True
    then have "unat (m_size ?p) + length msg < sp_capacity" using sz by (simp add: sp_capacity_def)
    from append_raw_fits [OF inv this] obtain q where q: "append_raw msg ?p = Inr q" by blast
    show ?thesis
      using True q append_raw_inv [OF inv q] append_raw_contents [OF inv q] c wi
      by (simp add: wi_packet_append_def append_string_def wi_inv_def same_identity_def
          wi_get_send_packet_def)
  next
    case False
    then have "append_raw msg ?p = Inl (Assert_fail ''(m_size + len) < m_buf.size()'')"
      using append_raw_full [OF inv] sz assms by (simp add: sp_capacity_def)
    then show ?thesis using False by (simp add: wi_packet_append_def append_string_def)
  qed
qed

lemma submit_stream_item:
  assumes "wi_inv wi" and "\<And>tr. w_get_sqe w tr"
  shows "wi_submit_stream_data (ring_submit w) cb wi tr =
    (if wi_is_stream wi
     then let v = wi\<lparr>m_callback := Send_cb cb, m_work_type := Type_SEND_STREAM_DATA\<rparr> in
       Inr (v, Uring_submit # Prep (link_if_wanted v (sqe_with v (Prep_send (get_fd (m_socket wi))
          (sp_data (m_send_packet wi)) (sp_size (m_send_packet wi)) 0))) # Get_sqe # tr)
     else Inl (Assert_fail ''item.is_stream()''))"
  using assms(2)
  by (simp add: wi_submit_stream_data_def ring_submit_def get_sqe_cases prep_request_def
      prep_send_stream_eq wi_is_stream_def submit_all_requests_def Let_def)

section \<open>Properties\<close>

text \<open>
  C12. Whatever a client's code does through the interface, in a callback or outside one, it keeps the
  pool well formed and every queue entry's number below the number of slots, it never runs a
  callback itself, it provides no receive buffer, it only adds queue entries, and every live work
  item stays live under its id on the same object, unchanged unless the program uses that object.
\<close>

theorem client_code_frame:
  assumes "ring_inv r" and "run_prog w p r = Inr (act, r')"
  shows "ring_inv r' \<and> callbacks_run (m_ring r') = callbacks_run (m_ring r) \<and>
    provided (m_ring r') = provided (m_ring r) \<and>
    (\<exists>new. submitted (m_ring r') = new @ submitted (m_ring r)) \<and>
    (\<forall>i a. i < length (m_work_items (m_pool r)) \<longrightarrow> m_work_items (m_pool r) ! i = Some a \<longrightarrow>
       m_work_items (m_pool r') ! i = Some a \<and>
       (keeps_off a p \<longrightarrow> pool_abs (m_pool r') i = pool_abs (m_pool r) i))"
proof -
  note e = run_prog_ext [OF assms]
  note d = ring_extD [OF conjunct2 [OF e]]
  have "pool_abs (m_pool r') i = pool_abs (m_pool r) i"
    if "i < length (m_work_items (m_pool r))" "m_work_items (m_pool r) ! i = Some a" "keeps_off a p"
    for i a
  proof -
    have "a < length (wp_heap (m_pool r))"
      using pool_invD(1) [OF _ that(1,2)] assms(1) by (simp add: ring_inv_def)
    then show ?thesis using d(4,8) d(6) [OF that(1,2)] that by (simp add: pool_abs_def)
  qed
  then show ?thesis using e d(6) client_calls_keep [OF d(3)] by blast
qed

definition example_ring :: iouring where
  "example_ring =
     (new_iouring \<lparr>ring_addr = 0, ring_entries = 0, bgid = 0, reg_flags = 0\<rparr> 64 [])
       \<lparr>m_initialized := True\<rparr>"

lemma example_ring_inv [simp]: "ring_inv example_ring"
  by (simp add: example_ring_def new_iouring_def ring_inv_def entries_ok_def)

abbreviation ready_world :: world where
  "ready_world \<equiv> example_world\<lparr>w_get_sqe := (\<lambda>_. True)\<rparr>"

theorem client_code_frame_witness:
  "\<exists>r'. run_prog ready_world (Submit_recv example_socket (Some 3) (Return RE_SUBMIT)) example_ring
      = Inr (RE_SUBMIT, r') \<and> ring_inv r' \<and> callbacks_run (m_ring r') = []"
proof -
  have new: "m_pool example_ring = new_pool" "m_initialized example_ring" "m_ring example_ring = []"
    by (simp_all add: example_ring_def new_iouring_def)
  obtain r' where r': "run_prog ready_world (Submit_recv example_socket (Some 3) (Return RE_SUBMIT))
      example_ring = Inr (RE_SUBMIT, r')"
    using new
    by (simp add: submit_recv_def alloc_recv_work_item_def internal_alloc_work_item_def new_pool_def
        is_free_def on_item_def wi_submit_recv_def ring_submit_def get_sqe_cases prep_request_def
        prep_recv_eq Let_def)
  then show ?thesis using client_code_frame [OF example_ring_inv r'] new by simp
qed

text \<open>
  C17. Sending a string over a stream socket: with queue entries available, a message below 4096 bytes
  is handed to the kernel in exactly one entry that asks to send exactly these bytes on the
  socket's descriptor, under the id of a work item that is new in the pool and waits with the
  given callback; a longer message fails the packet's assertion, and a datagram socket the ring's.
\<close>

theorem socket_send_submits:
  assumes "ring_inv r" and "m_initialized r" and "length msg < 2 ^ 63" and "\<And>tr. w_get_sqe w tr"
  shows "(case run_prog w (socket_send s msg cb (Return act)) r of
      Inl e \<Rightarrow>
        if 4096 \<le> length msg then e = Assert_fail ''(m_size + len) < m_buf.size()''
        else \<not> is_stream s \<and> e = Assert_fail ''item.is_stream()''
    | Inr (act', r') \<Rightarrow> act' = act \<and> length msg < 4096 \<and> is_stream s \<and>
        (\<exists>e wi. submitted (m_ring r') = e # submitted (m_ring r) \<and>
           sqe_user_data e = next_id (m_pool r) \<and>
           kernel_view e = Some (Send_bytes (get_fd s) msg) \<and>
           pool_abs (m_pool r) (next_id (m_pool r)) = None \<and>
           pool_abs (m_pool r') = (pool_abs (m_pool r))(next_id (m_pool r) \<mapsto> wi) \<and>
           m_callback wi = Send_cb cb \<and> m_work_type wi = Type_SEND_STREAM_DATA))"
proof -
  let ?raw = "w_raw w (m_ring r)" and ?d = "''write-from-socket''"
  let ?new = "new_work_item ?raw (next_id (m_pool r)) ?d s"
  have inv: "pool_inv (m_pool r)" using assms(1) by (simp add: ring_inv_def)
  obtain a p where al: "internal_alloc_work_item ?raw s ?d (m_pool r) = Inr (a, p)"
    using alloc_result [OF inv] by blast
  note ab = alloc_abs [OF inv al]
  have acq: "ackuire_send_workitem w s r = Inr (a, put_pool r (p, m_ring r))"
    using al assms(2) by (simp add: ackuire_send_workitem_def alloc_send_work_item_def)
  have pinv: "pool_inv p" by (rule alloc_inv [OF inv al])
  note app = append_to_new_item [OF assms(3), of ?raw "next_id (m_pool r)" ?d s]
  show ?thesis
  proof (cases "wi_packet_append msg (wi_get_send_packet ?new)")
    case (Inl e)
    then show ?thesis
      using acq ab app by (simp add: socket_send_def call_item_on heap_write_nth)
  next
    case (Inr wi)
    then have wi: "length msg < 4096" "wi_inv wi" "same_identity ?new wi"
      "sp_contents (m_send_packet wi) = msg" "\<not> m_link_to_next_request wi"
      using app by simp_all
    then have id: "m_id wi = next_id (m_pool r)" "m_socket wi = s" "wi_is_stream wi = is_stream s"
      by (simp_all add: same_identity_def wi_is_stream_def)
    have lt: "next_id (m_pool r) < length (m_work_items p)"
      using ab(5) next_id_fresh [OF inv] by (cases "m_free_ids (m_pool r)") (auto simp: next_id_def)
    note hw = heap_write_abs [OF pinv lt ab(6)]
    show ?thesis
    proof (cases "is_stream s")
      case False
      then show ?thesis
        using acq ab Inr wi(1) id
        by (simp add: socket_send_def call_item_on heap_write_nth
            submit_stream_item [OF wi(2) assms(4)])
    next
      case True
      then show ?thesis
        using acq ab Inr wi id hw next_id_fresh(2) [OF inv]
        by (simp add: socket_send_def call_item_on heap_write_nth Let_def
            submit_stream_item [OF wi(2) assms(4)] kernel_view_def sent_bytes)
          (rule exI [of _ "wi\<lparr>m_callback := Send_cb cb, m_work_type := Type_SEND_STREAM_DATA\<rparr>"],
            simp)
    qed
  qed
qed

theorem socket_send_submits_witness:
  "\<exists>r' e. run_prog ready_world (socket_send example_socket [72, 105] (Some 1) (Return Action_NONE))
      example_ring = Inr (Action_NONE, r') \<and>
    submitted (m_ring r') = [e] \<and> kernel_view e = Some (Send_bytes 42 [72, 105])"
proof -
  have "is_stream example_socket" "get_fd example_socket = 42" "m_initialized example_ring"
    "submitted (m_ring example_ring) = []"
    by (simp_all add: example_socket_def is_stream_def get_fd_def example_ring_def new_iouring_def)
  then show ?thesis
    using socket_send_submits [OF example_ring_inv, where msg = "[72, 105]" and w = ready_world
        and s = example_socket and cb = "Some 1" and act = Action_NONE]
    by (auto split: sum.splits)
qed

lemma probe_example: "probe_features (w_probe example_world) = Inr ()"
proof -
  have "reported (map (\<lambda>i. (word_of_nat i, 1)) [0..<40]) n" if "n < 40" for n
    using that unfolding reported_def
    by (intro bexI [of _ "(word_of_nat n, 1)"]) (auto simp: unat_of_nat)
  then show ?thesis
    by (simp add: example_world_def probe_features_def probe_uring_features_def
        assert_supports_def supports_reported del: upt_rec_numeral)
qed

text \<open>
  \<open>init\<close> marks the ring initialised even when it reports an error: after a failed mapping of the
  receive buffers nothing is provided to the kernel, yet every later \<open>assert(m_initialized)\<close>
  passes.
\<close>

theorem init_reports_but_initialises:
  assumes "w_syscall w (Queue_init n # tr) = 0"
    and "w_mmap w (Mmap 4210688 # Queue_init n # tr) = None"
    and "probe_features (w_probe w) = Inr ()"
  shows "\<exists>r. init w (new_iouring raw n tr) = Inr (Error_MMAP_FAILED, r) \<and> m_initialized r \<and>
    provided (m_ring r) = provided tr \<and> ring_inv r = entries_ok new_pool tr"
  using assms
  by (simp add: init_def init_ring_def new_iouring_def setup_buffer_pool_def Let_def
      sizeof_io_uring_buf_def new_buffer_ring_def ring_inv_def entries_ok_def)

theorem init_reports_but_initialises_witness:
  "\<exists>r. init (example_world\<lparr>w_mmap := (\<lambda>_. None)\<rparr>)
      (new_iouring \<lparr>ring_addr = 0, ring_entries = 0, bgid = 0, reg_flags = 0\<rparr> 64 []) =
      Inr (Error_MMAP_FAILED, r) \<and> m_initialized r"
proof -
  show ?thesis
    using probe_example init_reports_but_initialises [of "example_world\<lparr>w_mmap := (\<lambda>_. None)\<rparr>" 64 "[]"
        "\<lparr>ring_addr = 0, ring_entries = 0, bgid = 0, reg_flags = 0\<rparr>"]
    by (auto simp: example_world_def)
qed

end
