(* ===== verification/Ring_Dispatch.thy ===== *)
theory Ring_Dispatch
  imports Ring_Client
begin

text \<open>
  The completion side of \<open>src/IOUring.cpp\<close>: the \<open>call_*_callback\<close> functions, the two receive
  handlers, \<open>call_callback_and_free_work_item_id\<close> and \<open>poll_completion_queues\<close>. One poll handles
  at most one completion. What the kernel has stored in a work item's memory is there when the
  completion is seen (\<open>kernel_stores\<close>); the contents of the buffer a completion names are part of
  the completion. \<open>io_uring_recvmsg_validate\<close> and its companions are answers of the world.

  \<^item> \<open>ring_step\<close>, \<open>reachable\<close>: the states an application reaches from a fresh ring by
    initialising it, by its own calls and by polling.
\<close>

section \<open>Calling back\<close>

definition item_at :: "nat \<Rightarrow> iouring \<Rightarrow> work_item" where
  "item_at a r = wp_heap (m_pool r) ! a"

text \<open>
  Calling a \<open>std::function\<close>: with the number of the function and its argument, on the ring's state.
  The functions a \<open>client\<close> passes log the call and make its program's requests; the dispatch itself
  takes whatever the functions do.
\<close>

type_synonym runner = "nat \<Rightarrow> cb_event \<Rightarrow> iouring \<Rightarrow> (receive_post_action \<times> iouring) outcome"

definition client_run :: "world \<Rightarrow> client \<Rightarrow> runner" where
  "client_run w client f e r =
     run_prog w (client f e (m_ring r)) (r\<lparr>m_ring := Callback f e # m_ring r\<rparr>)"

definition run_callback ::
  "runner \<Rightarrow> (nat \<times> cb_event) outcome \<Rightarrow> iouring \<Rightarrow> (receive_post_action \<times> iouring) outcome" where
  "run_callback run call r = ebind call (\<lambda>(f, e). run f e r)"

definition call_close_callback ::
  "runner \<Rightarrow> nat \<Rightarrow> completion \<Rightarrow> iouring \<Rightarrow> iouring outcome" where
  "call_close_callback run a cqe r =
     (let status = cqe_res cqe in
      ebind (run_callback run (wi_call_close_callback status (item_at a r)) r)
        (\<lambda>(_, r). Inr r))"

definition call_send_callback ::
  "runner \<Rightarrow> nat \<Rightarrow> completion \<Rightarrow> iouring \<Rightarrow> iouring outcome" where
  "call_send_callback run a cqe r =
     (if cqe_res cqe < 0 \<and> (cqe_res cqe = - EFAULT \<or> cqe_res cqe = - EINVAL) then Inr r
      else
        ebind (run_callback run (wi_call_send_callback (cqe_res cqe) (item_at a r)) r)
          (\<lambda>(_, r). call_item (\<lambda>wi tr. Inr (clean_send_packet wi, tr)) a r))"

definition stored_address :: "bytes \<Rightarrow> ip_address" where
  "stored_address sa =
     (if sin_family (sockaddr_in_of_bytes sa) = AF_INET
      then ip_of_sockaddr_in (sockaddr_in_of_bytes sa)
      else if sin_family (sockaddr_in_of_bytes sa) = AF_INET6
      then ip_of_sockaddr_in6 (sockaddr_in6_of_bytes sa)
      else ip_default)"

definition call_connect_callback ::
  "runner \<Rightarrow> nat \<Rightarrow> completion \<Rightarrow> iouring \<Rightarrow> iouring outcome" where
  "call_connect_callback run a cqe r =
     (if cqe_res cqe < 0 \<and> (cqe_res cqe = - EFAULT \<or> cqe_res cqe = - EINVAL) then Inr r
      else
        let status = cqe_res cqe;
            addr = stored_address (m_buffer_for_uring (item_at a r));
            new_conn = \<lparr>connect_status = status, connect_address = addr\<rparr>
        in ebind (run_callback run (wi_call_connect_callback new_conn (item_at a r)) r)
             (\<lambda>(_, r). Inr r))"

definition call_accept_callback ::
  "runner \<Rightarrow> nat \<Rightarrow> completion \<Rightarrow> iouring \<Rightarrow> iouring outcome" where
  "call_accept_callback run a cqe r =
     (if cqe_res cqe < 0 \<and> (cqe_res cqe = - EFAULT \<or> cqe_res cqe = - EINVAL) then Inr r
      else
        let fd = cqe_res cqe in
        ebind (ip_of_storage (m_buffer_for_uring (item_at a r)) (m_accept_sock_len (item_at a r)))
          (\<lambda>addr.
        let new_conn = \<lparr>m_new_fd = fd, m_address = addr\<rparr> in
        ebind (run_callback run (wi_call_accept_callback new_conn (item_at a r)) r)
          (\<lambda>(_, r). Inr r)))"

section \<open>Receiving\<close>

definition call_recv_handler_stream ::
  "runner \<Rightarrow> bytes \<Rightarrow> nat \<Rightarrow> completion \<Rightarrow> iouring \<Rightarrow>
     (receive_post_action \<times> iouring) outcome" where
  "call_recv_handler_stream run buffer a cqe r =
     (let payload = \<lparr>msg_data = buffer, msg_size = word_of_int (cqe_res cqe), msg_source = ip_default\<rparr>
      in run_callback run (wi_call_recv_callback payload (item_at a r)) r)"

definition call_recv_handler_datagram ::
  "world \<Rightarrow> runner \<Rightarrow> bytes \<Rightarrow> nat \<Rightarrow> completion \<Rightarrow> iouring \<Rightarrow>
     (receive_post_action \<times> iouring) outcome" where
  "call_recv_handler_datagram w run buffer a cqe r =
     (if cqe_flags cqe AND IORING_CQE_F_BUFFER = 0 then Inl (Abort_call ''recv cqe bad res'')
      else
        let msg = m_msg (item_at a r) in
        case w_recvmsg_validate w buffer (cqe_res cqe) msg of
          None \<Rightarrow> Inr (RE_SUBMIT, r)
        | Some recv_msg_out \<Rightarrow>
            if sizeof_sockaddr_storage < unat (out_namelen recv_msg_out) then Inr (RE_SUBMIT, r)
            else if out_flags recv_msg_out AND MSG_TRUNC \<noteq> 0 then Inr (RE_SUBMIT, r)
            else
              let namelen = unat (out_namelen recv_msg_out);
                  name = w_recvmsg_name w buffer
              in ebind
                (if namelen = 0 \<or> namelen = sizeof_sockaddr_in
                 then Inr (ip_of_sockaddr_in (sockaddr_in_of_bytes name))
                 else if namelen = sizeof_sockaddr_in6
                 then Inr (ip_of_sockaddr_in6 (sockaddr_in6_of_bytes name))
                 else Inl (Abort_call ''namelen''))
                (\<lambda>source_addr.
                 let payload =
                       \<lparr>msg_data = w_recvmsg_payload w buffer msg,
                        msg_size = ucast (w_recvmsg_payload_length w buffer (cqe_res cqe) msg),
                        msg_source = source_addr\<rparr>
                 in run_callback run (wi_call_recv_callback payload (item_at a r)) r))"

definition buffer_index :: "completion \<Rightarrow> nat" where
  "buffer_index cqe = unat (drop_bit 16 (cqe_flags cqe))"

definition call_recv_callback ::
  "world \<Rightarrow> runner \<Rightarrow> nat \<Rightarrow> completion \<Rightarrow> iouring \<Rightarrow> (receive_post_action \<times> iouring) outcome" where
  "call_recv_callback w run a cqe r =
     (if cqe_res cqe < 0 then
        (if cqe_res cqe = - EFAULT \<or> cqe_res cqe = - EINVAL
         then Inl (Abort_call ''recv cqe bad res'')
         else if cqe_res cqe = EAI_INTR then Inr (RE_SUBMIT, r)
         else Inl (Abort_call ''recv cqe bad res''))
      else
        let idx = buffer_index cqe;
            buffer = cqe_buffer cqe
        in ebind
             (if wi_is_stream (item_at a r)
              then call_recv_handler_stream run buffer a cqe r
              else call_recv_handler_datagram w run buffer a cqe r)
             (\<lambda>(ret, r). Inr (ret, r\<lparr>m_ring := recycle_buffer (m_buffers r) idx (m_ring r)\<rparr>)))"

section \<open>One completion\<close>

text \<open>\<open>submit(*work_item)\<close> and \<open>get_pool().free_work_item(id)\<close> on the ring's state.\<close>

definition submit_item :: "world \<Rightarrow> nat \<Rightarrow> iouring \<Rightarrow> iouring outcome" where
  "submit_item w a r =
     ebind (on_item (ring_submit w) a (m_pool r) (m_ring r)) (\<lambda>q. Inr (put_pool r q))"

definition free_item :: "nat \<Rightarrow> iouring \<Rightarrow> iouring outcome" where
  "free_item wid r =
     ebind (free_work_item wid (m_pool r)) (\<lambda>p. Inr (put_pool r (p, m_ring r)))"

definition call_callback_and_free_work_item_id ::
  "world \<Rightarrow> runner \<Rightarrow> completion \<Rightarrow> iouring \<Rightarrow> iouring outcome" where
  "call_callback_and_free_work_item_id w run cqe r =
     (let wid = cqe_user_data cqe in
      ebind (get_work_item wid (m_pool r)) (\<lambda>work_item.
      case work_item of
        None \<Rightarrow> Inr r
      | Some a \<Rightarrow>
          if cqe_res cqe = - ENOBUFS then Inr r
          else
            (case wi_get_type (item_at a r) of
               Type_ACCEPT \<Rightarrow>
                 ebind (call_accept_callback run a cqe r) (\<lambda>r. submit_item w a r)
             | Type_CLOSE \<Rightarrow>
                 ebind (call_close_callback run a cqe r) (\<lambda>r. free_item wid r)
             | Type_RECV \<Rightarrow>
                 ebind (call_recv_callback w run a cqe r) (\<lambda>(ret, r).
                 case ret of
                   Action_NONE \<Rightarrow> free_item wid r
                 | RE_SUBMIT \<Rightarrow> submit_item w a r)
             | Type_CONNECT \<Rightarrow>
                 ebind (call_connect_callback run a cqe r) (\<lambda>r. free_item wid r)
             | Type_SEND_STREAM_DATA \<Rightarrow>
                 ebind (call_send_callback run a cqe r) (\<lambda>r. free_item wid r)
             | Type_SEND_WORKPACKET \<Rightarrow>
                 ebind (call_send_callback run a cqe r) (\<lambda>r. free_item wid r)
             | Type_UNKNOWN \<Rightarrow> Inl (Assert_fail ''false''))))"

text \<open>The address the kernel stored behind the pointers of an accept request.\<close>

definition kernel_stores :: "completion \<Rightarrow> iouring \<Rightarrow> iouring" where
  "kernel_stores cqe r =
     (case (cqe_sockaddr cqe, get_work_item (cqe_user_data cqe) (m_pool r)) of
        (Some (sa, len), Inr (Some a)) \<Rightarrow>
          r\<lparr>m_pool := heap_write a
              ((item_at a r)\<lparr>m_buffer_for_uring :=
                  overwrite (m_buffer_for_uring (item_at a r)) 0 (take sizeof_sockaddr_storage sa),
                  m_accept_sock_len := len\<rparr>) (m_pool r)\<rparr>
      | _ \<Rightarrow> r)"

definition poll_with :: "world \<Rightarrow> runner \<Rightarrow> iouring \<Rightarrow> (error_code \<times> iouring) outcome" where
  "poll_with w run r =
     (let tr = Peek_cqe # m_ring r;
          (success, cqe) = w_peek w tr;
          r = r\<lparr>m_ring := tr\<rparr>
      in if success = 0 then
           ebind (call_callback_and_free_work_item_id w run cqe (kernel_stores cqe r)) (\<lambda>r.
           Inr (Error_OK, r\<lparr>m_ring := Cq_advance 1 # m_ring r\<rparr>))
         else if success = - EAGAIN then Inr (Error_OK, r)
         else Inl (Abort_call ''poll_completion_queues''))"

definition poll_completion_queues ::
  "world \<Rightarrow> client \<Rightarrow> iouring \<Rightarrow> (error_code \<times> iouring) outcome" where
  "poll_completion_queues w client = poll_with w (client_run w client)"

section \<open>Reachable states\<close>

inductive ring_step :: "world \<Rightarrow> client \<Rightarrow> iouring \<Rightarrow> iouring \<Rightarrow> bool" for w client where
  step_prog: "run_prog w p r = Inr (act, r') \<Longrightarrow> ring_step w client r r'"
| step_poll: "poll_completion_queues w client r = Inr (e, r') \<Longrightarrow> ring_step w client r r'"

inductive reachable :: "world \<Rightarrow> client \<Rightarrow> iouring \<Rightarrow> bool" for w client where
  reach_init: "init w (new_iouring raw n tr) = Inr (e, r) \<Longrightarrow> submitted tr = [] \<Longrightarrow>
    reachable w client r"
| reach_step: "reachable w client r \<Longrightarrow> ring_step w client r r' \<Longrightarrow> reachable w client r'"

inductive_cases ring_stepE: "ring_step w client r r'"

section \<open>What one callback changes\<close>

definition push_calls :: "(nat \<times> cb_event) list \<Rightarrow> iouring \<Rightarrow> iouring" where
  "push_calls cbs r = r\<lparr>m_ring := map (\<lambda>(f, e). Callback f e) cbs @ m_ring r\<rparr>"

lemma callbacks_of_calls [simp]:
  "submitted (map (\<lambda>(f, e). Callback f e) cbs @ tr) = submitted tr"
  "callbacks_run (map (\<lambda>(f, e). Callback f e) cbs @ tr) = cbs @ callbacks_run tr"
  "provided (map (\<lambda>(f, e). Callback f e) cbs @ tr) = provided tr"
  "buf_view (map (\<lambda>(f, e). Callback f e) cbs @ tr) = buf_view tr"
  by (induction cbs) (auto simp: Let_def)

definition cb_ext :: "nat set \<Rightarrow> (nat \<times> cb_event) list \<Rightarrow> iouring \<Rightarrow> iouring \<Rightarrow> bool" where
  "cb_ext A cbs r r' \<longleftrightarrow> ring_inv r' \<and> ring_ext A (push_calls cbs r) r'"

lemma push_calls_simps [simp]:
  "m_pool (push_calls cbs r) = m_pool r" "m_buffers (push_calls cbs r) = m_buffers r"
  "m_initialized (push_calls cbs r) = m_initialized r"
  "submitted (m_ring (push_calls cbs r)) = submitted (m_ring r)"
  "callbacks_run (m_ring (push_calls cbs r)) = cbs @ callbacks_run (m_ring r)"
  "provided (m_ring (push_calls cbs r)) = provided (m_ring r)"
  "ring_inv (push_calls cbs r) = ring_inv r"
  by (simp_all add: push_calls_def ring_inv_def entries_ok_def)

lemma push_calls_Nil [simp]: "push_calls [] r = r"
  by (simp add: push_calls_def)

lemma cb_ext_none [simp]: "ring_inv r \<Longrightarrow> cb_ext A [] r r"
  by (simp add: cb_ext_def)

lemma cb_extD:
  assumes "cb_ext A cbs r r'"
  shows "ring_inv r'" and "callbacks_run (m_ring r') = cbs @ callbacks_run (m_ring r)"
    and "provided (m_ring r') = provided (m_ring r)"
    and "\<exists>new. submitted (m_ring r') = new @ submitted (m_ring r)"
    and "m_buffers r' = m_buffers r"
    and "length (m_work_items (m_pool r)) \<le> length (m_work_items (m_pool r'))"
    and "length (wp_heap (m_pool r)) \<le> length (wp_heap (m_pool r'))"
    and "\<And>i a. i < length (m_work_items (m_pool r)) \<Longrightarrow> m_work_items (m_pool r) ! i = Some a \<Longrightarrow>
      m_work_items (m_pool r') ! i = Some a"
    and "\<And>b. b < length (wp_heap (m_pool r)) \<Longrightarrow> same_identity (item_at b r) (item_at b r')"
    and "\<And>b. b < length (wp_heap (m_pool r)) \<Longrightarrow> b \<notin> A \<Longrightarrow> item_at b r' = item_at b r"
  using assms ring_extD [of A "push_calls cbs r" r']
    client_calls_keep [of "m_ring (push_calls cbs r)" "m_ring r'"]
  by (auto simp: cb_ext_def item_at_def)

lemma cb_ext_call_item:
  assumes "ring_member f" and "cb_ext A cbs r r1" and "call_item f a r1 = Inr r2"
  shows "cb_ext (insert a A) cbs r r2"
proof -
  have "ring_inv r1" using assms(2) by (simp add: cb_ext_def)
  note c = call_item_ext [OF assms(1) this assms(3)]
  have "ring_ext (insert a A) (push_calls cbs r) r2"
    by (rule ring_ext_trans [OF conjunct2 [OF assms(2) [unfolded cb_ext_def]] conjunct2 [OF c]]) blast
  then show ?thesis using c by (simp add: cb_ext_def)
qed

text \<open>The objects a callback's program may use.\<close>

definition used_by :: "client \<Rightarrow> io_trace \<Rightarrow> nat \<times> cb_event \<Rightarrow> nat set" where
  "used_by client tr fe = {b. \<not> keeps_off b (client (fst fe) (snd fe) tr)}"

lemma run_callback_ext:
  assumes "ring_inv r" and "run_callback (client_run w client) call r = Inr (act, r')"
  shows "\<exists>fe. call = Inr fe \<and> cb_ext (used_by client (m_ring r) fe) [fe] r r'"
proof -
  obtain f e where fe: "call = Inr (f, e)"
    and run: "run_prog w (client f e (m_ring r)) (push_calls [(f, e)] r) = Inr (act, r')"
    using assms(2) by (auto simp: run_callback_def client_run_def ebind_eq_Inr push_calls_def)
  have "ring_inv (push_calls [(f, e)] r)" using assms(1) by simp
  from run_prog_ext [OF this run] fe show ?thesis by (auto simp: cb_ext_def used_by_def)
qed

lemma submit_item_call:
  "a < length (wp_heap (m_pool r)) \<Longrightarrow> submit_item w a r = call_item (ring_submit w) a r"
  by (simp add: submit_item_def call_item_def)

lemma submit_item_ext:
  assumes "ring_inv r" and "a < length (wp_heap (m_pool r))" and "submit_item w a r = Inr r'"
  shows "ring_inv r'" and "ring_ext {a} r r'"
    and "\<exists>s. submitted (m_ring r') = s # submitted (m_ring r) \<and>
      sqe_user_data s = m_id (item_at a r) \<and> prep_request (item_at a r) = Inr (item_at a r', s)"
proof -
  note c = assms(3) [unfolded submit_item_call [OF assms(2)]]
  show "ring_inv r'" "ring_ext {a} r r'"
    using call_item_ext [OF ring_member_submit assms(1) c] by simp_all
  obtain wi tr where f: "ring_submit w (item_at a r) (m_ring r) = Inr (wi, tr)"
    and r': "r' = put_pool r (heap_write a wi (m_pool r), tr)"
    using assms(3) by (auto simp: submit_item_def on_item_def ebind_eq_Inr item_at_def)
  have "wi_inv (item_at a r)"
    using pool_invD(4) assms(1,2) by (auto simp: ring_inv_def item_at_def)
  from ring_submit_trace [OF this f] show
    "\<exists>s. submitted (m_ring r') = s # submitted (m_ring r) \<and>
      sqe_user_data s = m_id (item_at a r) \<and> prep_request (item_at a r) = Inr (item_at a r', s)"
    using assms(2) by (auto simp: r' item_at_def heap_write_nth)
qed

lemma free_item_ext:
  assumes "ring_inv r" and "free_item i r = Inr r'"
  shows "ring_inv r'" and "pool_abs (m_pool r') = (pool_abs (m_pool r))(i := None)"
    and "m_ring r' = m_ring r" and "m_buffers r' = m_buffers r"
    and "m_free_ids (m_pool r') = i # m_free_ids (m_pool r)"
    and "length (m_work_items (m_pool r')) = length (m_work_items (m_pool r))"
proof -
  have inv: "pool_inv (m_pool r)" using assms(1) by (simp add: ring_inv_def)
  obtain p where p: "free_work_item i (m_pool r) = Inr p" and r': "r' = put_pool r (p, m_ring r)"
    using assms(2) by (auto simp: free_item_def ebind_eq_Inr)
  obtain wi where "pool_abs (m_pool r) i = Some wi" using free_ok_live [OF inv p] by blast
  from free_live [OF inv this] p have
    "pool_inv p \<and> pool_abs p = (pool_abs (m_pool r))(i := None) \<and>
     m_free_ids p = i # m_free_ids (m_pool r) \<and>
     length (m_work_items p) = length (m_work_items (m_pool r))"
    by (metis sum.inject(2))
  then show "ring_inv r'" "pool_abs (m_pool r') = (pool_abs (m_pool r))(i := None)"
    "m_ring r' = m_ring r" "m_buffers r' = m_buffers r"
    "m_free_ids (m_pool r') = i # m_free_ids (m_pool r)"
    "length (m_work_items (m_pool r')) = length (m_work_items (m_pool r))"
    using assms(1) by (simp_all add: r' ring_inv_def entries_ok_def)
qed

section \<open>The callback of each type\<close>

definition callback_of :: "work_item \<Rightarrow> func" where
  "callback_of wi =
     (case m_callback wi of
        Connect_cb f \<Rightarrow> f | Accept_cb f \<Rightarrow> f | Recv_cb f \<Rightarrow> f | Send_cb f \<Rightarrow> f | Close_cb f \<Rightarrow> f)"

definition hushed :: "completion \<Rightarrow> bool" where
  "hushed cqe \<longleftrightarrow> cqe_res cqe = - EFAULT \<or> cqe_res cqe = - EINVAL"

lemma invoke_Inr [simp]: "invoke f e = Inr fe \<longleftrightarrow> (\<exists>n. f = Some n \<and> fe = (n, e))"
  by (auto simp: invoke_def split: option.splits)

lemma wi_calls:
  "wi_call_send_callback st wi = Inr fe \<Longrightarrow>
     callback_of wi = Some (fst fe) \<and> snd fe = Ev_send \<lparr>send_status = st\<rparr>"
  "wi_call_close_callback st wi = Inr fe \<Longrightarrow>
     callback_of wi = Some (fst fe) \<and> snd fe = Ev_close \<lparr>close_status = st\<rparr>"
  "wi_call_connect_callback cr wi = Inr fe \<Longrightarrow>
     callback_of wi = Some (fst fe) \<and> snd fe = Ev_connect cr"
  "wi_call_accept_callback ar wi = Inr fe \<Longrightarrow>
     callback_of wi = Some (fst fe) \<and> snd fe = Ev_accept ar"
  "wi_call_recv_callback m wi = Inr fe \<Longrightarrow>
     callback_of wi = Some (fst fe) \<and> snd fe = Ev_recv m"
  by (auto simp: wi_call_send_callback_def wi_call_close_callback_def wi_call_connect_callback_def
      wi_call_accept_callback_def wi_call_recv_callback_def callback_of_def
      split: callback_var.splits)

text \<open>The argument the callback of a one-shot request gets.\<close>

definition one_shot_event :: "work_item \<Rightarrow> completion \<Rightarrow> cb_event" where
  "one_shot_event wi cqe =
     (case m_work_type wi of
        Type_CLOSE \<Rightarrow> Ev_close \<lparr>close_status = cqe_res cqe\<rparr>
      | Type_CONNECT \<Rightarrow> Ev_connect \<lparr>connect_status = cqe_res cqe,
            connect_address = stored_address (m_buffer_for_uring wi)\<rparr>
      | _ \<Rightarrow> Ev_send \<lparr>send_status = cqe_res cqe\<rparr>)"

definition one_shot_calls :: "work_item \<Rightarrow> completion \<Rightarrow> (nat \<times> cb_event) list" where
  "one_shot_calls wi cqe =
     (if hushed cqe \<and> m_work_type wi \<noteq> Type_CLOSE then []
      else [(the (callback_of wi), one_shot_event wi cqe)])"

lemma close_callback_ext:
  assumes "ring_inv r" and "call_close_callback (client_run w client) a cqe r = Inr r'"
    and "m_work_type (item_at a r) = Type_CLOSE"
  shows "\<exists>A. cb_ext A (one_shot_calls (item_at a r) cqe) r r'"
proof -
  obtain act where "run_callback (client_run w client)
      (wi_call_close_callback (cqe_res cqe) (item_at a r)) r = Inr (act, r')"
    using assms(2) by (auto simp: call_close_callback_def ebind_eq_Inr)
  from run_callback_ext [OF assms(1) this] show ?thesis
    using wi_calls(2) assms(3) by (fastforce simp: one_shot_calls_def one_shot_event_def)
qed

lemma send_callback_ext:
  assumes "ring_inv r" and "call_send_callback (client_run w client) a cqe r = Inr r'"
    and "m_work_type (item_at a r) \<in> {Type_SEND_STREAM_DATA, Type_SEND_WORKPACKET}"
  shows "\<exists>A. cb_ext A (one_shot_calls (item_at a r) cqe) r r'"
proof (cases "hushed cqe")
  case True
  then have "r' = r" using assms(2) by (auto simp: call_send_callback_def hushed_def)
  then show ?thesis using True assms(1,3) by (auto simp: one_shot_calls_def)
next
  case False
  then obtain act r1 where "run_callback (client_run w client)
      (wi_call_send_callback (cqe_res cqe) (item_at a r)) r = Inr (act, r1)"
    and clean: "call_item (\<lambda>wi tr. Inr (clean_send_packet wi, tr)) a r1 = Inr r'"
    using assms(2) by (auto simp: call_send_callback_def hushed_def ebind_eq_Inr split: if_splits)
  from run_callback_ext [OF assms(1) this(1)] obtain fe where
    fe: "wi_call_send_callback (cqe_res cqe) (item_at a r) = Inr fe"
    "cb_ext (used_by client (m_ring r) fe) [fe] r r1"
    by blast
  have "fe = (the (callback_of (item_at a r)), one_shot_event (item_at a r) cqe)"
    using wi_calls(1) [OF fe(1)] assms(3) by (cases fe) (auto simp: one_shot_event_def)
  then show ?thesis
    using cb_ext_call_item [OF ring_member_packet(3) fe(2) clean] False
    by (auto simp: one_shot_calls_def)
qed

lemma connect_callback_ext:
  assumes "ring_inv r" and "call_connect_callback (client_run w client) a cqe r = Inr r'"
    and "m_work_type (item_at a r) = Type_CONNECT"
  shows "\<exists>A. cb_ext A (one_shot_calls (item_at a r) cqe) r r'"
proof (cases "hushed cqe")
  case True
  then have "r' = r" using assms(2) by (auto simp: call_connect_callback_def hushed_def)
  then show ?thesis using True assms(1,3) by (auto simp: one_shot_calls_def)
next
  case False
  let ?cr = "\<lparr>connect_status = cqe_res cqe,
     connect_address = stored_address (m_buffer_for_uring (item_at a r))\<rparr>"
  obtain act where "run_callback (client_run w client)
      (wi_call_connect_callback ?cr (item_at a r)) r = Inr (act, r')"
    using assms(2) False
    by (auto simp: call_connect_callback_def hushed_def ebind_eq_Inr Let_def split: if_splits)
  from run_callback_ext [OF assms(1) this] obtain fe where
    fe: "wi_call_connect_callback ?cr (item_at a r) = Inr fe"
    "cb_ext (used_by client (m_ring r) fe) [fe] r r'"
    by blast
  have "fe = (the (callback_of (item_at a r)), one_shot_event (item_at a r) cqe)"
    using wi_calls(3) [OF fe(1)] assms(3) by (cases fe) (auto simp: one_shot_event_def)
  then show ?thesis using fe(2) False by (auto simp: one_shot_calls_def)
qed

lemma accept_callback_ext:
  assumes "ring_inv r" and "call_accept_callback (client_run w client) a cqe r = Inr r'"
  shows "if hushed cqe then r' = r
    else \<exists>f addr. ip_of_storage (m_buffer_for_uring (item_at a r)) (m_accept_sock_len (item_at a r))
           = Inr addr \<and> callback_of (item_at a r) = Some f \<and>
         (let fe = (f, Ev_accept \<lparr>m_new_fd = cqe_res cqe, m_address = addr\<rparr>)
          in cb_ext (used_by client (m_ring r) fe) [fe] r r')"
proof (cases "hushed cqe")
  case True
  then show ?thesis using assms(2) by (auto simp: call_accept_callback_def hushed_def)
next
  case False
  then obtain addr act where addr:
    "ip_of_storage (m_buffer_for_uring (item_at a r)) (m_accept_sock_len (item_at a r)) = Inr addr"
    and run: "run_callback (client_run w client) (wi_call_accept_callback
        \<lparr>m_new_fd = cqe_res cqe, m_address = addr\<rparr> (item_at a r)) r = Inr (act, r')"
    using assms(2)
    by (auto simp: call_accept_callback_def hushed_def ebind_eq_Inr Let_def split: if_splits)
  from run_callback_ext [OF assms(1) run] obtain fe where
    fe: "wi_call_accept_callback \<lparr>m_new_fd = cqe_res cqe, m_address = addr\<rparr> (item_at a r) = Inr fe"
    "cb_ext (used_by client (m_ring r) fe) [fe] r r'"
    by blast
  have "fe = (fst fe, Ev_accept \<lparr>m_new_fd = cqe_res cqe, m_address = addr\<rparr>)"
    using wi_calls(4) [OF fe(1)] by (cases fe) simp
  then show ?thesis using fe(2) False addr wi_calls(4) [OF fe(1)] by (metis (no_types, lifting))
qed

section \<open>Receptions\<close>

definition recycled :: "nat \<Rightarrow> iouring \<Rightarrow> iouring" where
  "recycled idx r = r\<lparr>m_ring := recycle_buffer (m_buffers r) idx (m_ring r)\<rparr>"

lemma recycled_simps [simp]:
  "m_pool (recycled idx r) = m_pool r" "m_buffers (recycled idx r) = m_buffers r"
  "submitted (m_ring (recycled idx r)) = submitted (m_ring r)"
  "callbacks_run (m_ring (recycled idx r)) = callbacks_run (m_ring r)"
  "provided (m_ring (recycled idx r)) =
     provided (m_ring r) @ [Some (get_buffer (m_buffers r) idx, 4096, idx)]"
  "ring_inv (recycled idx r) = ring_inv r"
  "item_at b (recycled idx r) = item_at b r"
  by (simp_all add: recycled_def provided_recycle ring_inv_def entries_ok_def item_at_def)

text \<open>The message a reception delivers, when it delivers one.\<close>

definition stream_message :: "completion \<Rightarrow> received_message" where
  "stream_message cqe =
     \<lparr>msg_data = cqe_buffer cqe, msg_size = word_of_int (cqe_res cqe), msg_source = ip_default\<rparr>"

definition datagram_message :: "world \<Rightarrow> work_item \<Rightarrow> completion \<Rightarrow> received_message option" where
  "datagram_message w wi cqe =
     (case w_recvmsg_validate w (cqe_buffer cqe) (cqe_res cqe) (m_msg wi) of
        None \<Rightarrow> None
      | Some out \<Rightarrow>
          if 128 < unat (out_namelen out) \<or> out_flags out AND MSG_TRUNC \<noteq> 0 then None
          else Some
            \<lparr>msg_data = w_recvmsg_payload w (cqe_buffer cqe) (m_msg wi),
             msg_size = ucast (w_recvmsg_payload_length w (cqe_buffer cqe) (cqe_res cqe) (m_msg wi)),
             msg_source =
               (if unat (out_namelen out) = 28
                then ip_of_sockaddr_in6 (sockaddr_in6_of_bytes (w_recvmsg_name w (cqe_buffer cqe)))
                else ip_of_sockaddr_in (sockaddr_in_of_bytes (w_recvmsg_name w (cqe_buffer cqe))))\<rparr>)"

definition recv_message :: "world \<Rightarrow> work_item \<Rightarrow> completion \<Rightarrow> received_message option" where
  "recv_message w wi cqe =
     (if wi_is_stream wi then Some (stream_message cqe) else datagram_message w wi cqe)"

lemma stream_handler_ext:
  assumes "ring_inv r" and "wi_is_stream (item_at a r)"
    and "call_recv_handler_stream (client_run w client) (cqe_buffer cqe) a cqe r = Inr (act, r')"
  shows "\<exists>f. callback_of (item_at a r) = Some f \<and>
    (let fe = (f, Ev_recv (stream_message cqe))
     in cb_ext (used_by client (m_ring r) fe) [fe] r r')"
proof -
  have "run_callback (client_run w client) (wi_call_recv_callback (stream_message cqe) (item_at a r)) r = Inr (act, r')"
    using assms(3) by (simp add: call_recv_handler_stream_def stream_message_def)
  from run_callback_ext [OF assms(1) this] obtain fe where
    fe: "wi_call_recv_callback (stream_message cqe) (item_at a r) = Inr fe"
    "cb_ext (used_by client (m_ring r) fe) [fe] r r'"
    by blast
  then show ?thesis using wi_calls(5) [OF fe(1)] by (cases fe) (auto simp: Let_def)
qed

lemma datagram_handler_ext:
  assumes "ring_inv r"
    and "call_recv_handler_datagram w (client_run w client) (cqe_buffer cqe) a cqe r = Inr (act, r')"
  shows "cqe_flags cqe AND IORING_CQE_F_BUFFER \<noteq> 0 \<and>
    (case datagram_message w (item_at a r) cqe of
       None \<Rightarrow> act = RE_SUBMIT \<and> r' = r
     | Some m \<Rightarrow> \<exists>f. callback_of (item_at a r) = Some f \<and>
         (let fe = (f, Ev_recv m) in cb_ext (used_by client (m_ring r) fe) [fe] r r'))"
proof (cases "datagram_message w (item_at a r) cqe")
  case None
  then show ?thesis
    using assms(2)
    by (auto simp: call_recv_handler_datagram_def datagram_message_def Let_def split: if_splits
        option.splits)
next
  case (Some m)
  then have "run_callback (client_run w client) (wi_call_recv_callback m (item_at a r)) r = Inr (act, r')"
    and flag: "cqe_flags cqe AND IORING_CQE_F_BUFFER \<noteq> 0"
    using assms(2)
    by (auto simp: call_recv_handler_datagram_def datagram_message_def Let_def ebind_eq_Inr
        split: if_splits option.splits)
  from run_callback_ext [OF assms(1) this(1)] obtain fe where
    fe: "wi_call_recv_callback m (item_at a r) = Inr fe"
    "cb_ext (used_by client (m_ring r) fe) [fe] r r'"
    by blast
  then show ?thesis using wi_calls(5) [OF fe(1)] Some flag by (cases fe) (auto simp: Let_def)
qed

text \<open>
  A reception that returns: a negative result asks for a new submission and changes nothing;
  otherwise at most one callback runs, and the buffer the flags name is provided again.
\<close>

lemma recv_callback_ext:
  assumes "ring_inv r" and "call_recv_callback w (client_run w client) a cqe r = Inr (act, r')"
  shows "if cqe_res cqe < 0 then cqe_res cqe = EAI_INTR \<and> act = RE_SUBMIT \<and> r' = r
    else \<exists>r1. r' = recycled (buffer_index cqe) r1 \<and>
      (wi_is_stream (item_at a r) \<or> cqe_flags cqe AND IORING_CQE_F_BUFFER \<noteq> 0) \<and>
      (case recv_message w (item_at a r) cqe of
         None \<Rightarrow> act = RE_SUBMIT \<and> r1 = r
       | Some m \<Rightarrow> \<exists>f. callback_of (item_at a r) = Some f \<and>
           (let fe = (f, Ev_recv m) in cb_ext (used_by client (m_ring r) fe) [fe] r r1))"
proof (cases "cqe_res cqe < 0")
  case True
  then show ?thesis using assms(2) by (auto simp: call_recv_callback_def split: if_splits)
next
  case False
  show ?thesis
  proof (cases "wi_is_stream (item_at a r)")
    case True
    with False obtain r1 where
      "call_recv_handler_stream (client_run w client) (cqe_buffer cqe) a cqe r = Inr (act, r1)"
      "r' = recycled (buffer_index cqe) r1"
      using assms(2) by (auto simp: call_recv_callback_def ebind_eq_Inr Let_def recycled_def)
    with stream_handler_ext [OF assms(1) True this(1)] False True show ?thesis
      by (auto simp: recv_message_def)
  next
    case d: False
    with False obtain r1 where
      h: "call_recv_handler_datagram w (client_run w client) (cqe_buffer cqe) a cqe r = Inr (act, r1)"
      "r' = recycled (buffer_index cqe) r1"
      using assms(2) by (auto simp: call_recv_callback_def ebind_eq_Inr Let_def recycled_def)
    with datagram_handler_ext [OF assms(1) h(1)] False d show ?thesis
      by (auto simp: recv_message_def)
  qed
qed

section \<open>Dispatching a completion\<close>

lemma live_item:
  assumes "ring_inv r" and "pool_abs (m_pool r) i = Some wi"
  obtains a where "get_work_item i (m_pool r) = Inr (Some a)" and "a < length (wp_heap (m_pool r))"
    and "item_at a r = wi" and "m_work_items (m_pool r) ! i = Some a"
    and "i < length (m_work_items (m_pool r))" and "m_id wi = i"
  using get_work_item_live [of "m_pool r" i wi] assms by (auto simp: ring_inv_def item_at_def)

lemma found_address:
  assumes "ring_inv r" and "get_work_item i (m_pool r) = Inr (Some a)"
  shows "a < length (wp_heap (m_pool r))"
proof -
  have inv: "pool_inv (m_pool r)" using assms(1) by (simp add: ring_inv_def)
  then obtain wi where "pool_abs (m_pool r) i = Some wi"
    using assms(2) get_work_item_cases [OF inv, of i] by (auto split: if_splits option.splits)
  with assms show ?thesis by (metis live_item sum.inject(2) option.inject)
qed

text \<open>After a callback the request is still in its slot, with its identity.\<close>

lemma cb_ext_live:
  assumes "cb_ext A cbs r r1" and "i < length (m_work_items (m_pool r))"
    and "m_work_items (m_pool r) ! i = Some a" and "a < length (wp_heap (m_pool r))"
  shows "pool_abs (m_pool r1) i = Some (item_at a r1)" and "m_work_items (m_pool r1) ! i = Some a"
    and "a < length (wp_heap (m_pool r1))" and "i < length (m_work_items (m_pool r1))"
    and "same_identity (item_at a r) (item_at a r1)" and "a \<notin> A \<Longrightarrow> item_at a r1 = item_at a r"
  using cb_extD(6-10) [OF assms(1)] assms(2-) by (auto simp: pool_abs_def item_at_def)

lemma one_shot_then_free:
  assumes "cb_ext A cbs r r1" and "free_item i r1 = Inr r'"
  shows "ring_inv r'" and "callbacks_run (m_ring r') = cbs @ callbacks_run (m_ring r)"
    and "provided (m_ring r') = provided (m_ring r)" and "pool_abs (m_pool r') i = None"
    and "m_free_ids (m_pool r') = i # m_free_ids (m_pool r1)"
    and "length (m_work_items (m_pool r)) \<le> length (m_work_items (m_pool r'))"
  using free_item_ext [OF cb_extD(1) [OF assms(1)] assms(2)] cb_extD(2,3,6) [OF assms(1)]
  by simp_all

lemma released_dispatch:
  assumes "get_work_item (cqe_user_data cqe) (m_pool r) = Inr (Some a)" and "cqe_res cqe \<noteq> - ENOBUFS"
    and "call_callback_and_free_work_item_id w (client_run w client) cqe r = Inr r'"
  shows "m_work_type (item_at a r) = Type_CLOSE \<Longrightarrow>
      \<exists>r1. call_close_callback (client_run w client) a cqe r = Inr r1 \<and> free_item (cqe_user_data cqe) r1 = Inr r'"
    and "m_work_type (item_at a r) = Type_CONNECT \<Longrightarrow>
      \<exists>r1. call_connect_callback (client_run w client) a cqe r = Inr r1 \<and> free_item (cqe_user_data cqe) r1 = Inr r'"
    and "m_work_type (item_at a r) \<in> {Type_SEND_STREAM_DATA, Type_SEND_WORKPACKET} \<Longrightarrow>
      \<exists>r1. call_send_callback (client_run w client) a cqe r = Inr r1 \<and> free_item (cqe_user_data cqe) r1 = Inr r'"
  using assms by (auto simp: call_callback_and_free_work_item_id_def ebind_eq_Inr)

lemma one_shot_dispatch:
  assumes "ring_inv r" and "get_work_item (cqe_user_data cqe) (m_pool r) = Inr (Some a)"
    and "m_work_type (item_at a r) \<in> {Type_CLOSE, Type_CONNECT, Type_SEND_STREAM_DATA, Type_SEND_WORKPACKET}"
    and "cqe_res cqe \<noteq> - ENOBUFS"
    and "call_callback_and_free_work_item_id w (client_run w client) cqe r = Inr r'"
  shows "\<exists>A r1. cb_ext A (one_shot_calls (item_at a r) cqe) r r1 \<and>
    free_item (cqe_user_data cqe) r1 = Inr r'"
proof -
  note d = released_dispatch [OF assms(2,4,5)]
  consider "m_work_type (item_at a r) = Type_CLOSE" | "m_work_type (item_at a r) = Type_CONNECT"
    | "m_work_type (item_at a r) \<in> {Type_SEND_STREAM_DATA, Type_SEND_WORKPACKET}"
    using assms(3) by blast
  then show ?thesis
  proof cases
    case 1
    then show ?thesis using d(1) close_callback_ext [OF assms(1) _ 1] by blast
  next
    case 2
    then show ?thesis using d(2) connect_callback_ext [OF assms(1) _ 2] by blast
  next
    case 3
    then show ?thesis using d(3) send_callback_ext [OF assms(1) _ 3] by blast
  qed
qed

text \<open>A request submitted again after its callback.\<close>

lemma resubmit:
  assumes "cb_ext A cbs r r1" and "i < length (m_work_items (m_pool r))"
    and "m_work_items (m_pool r) ! i = Some a" and "a < length (wp_heap (m_pool r))"
    and "m_id (item_at a r) = i" and "submit_item w a r1 = Inr r'"
  shows "ring_inv r'" and "pool_abs (m_pool r') i = Some (item_at a r')"
    and "callbacks_run (m_ring r') = cbs @ callbacks_run (m_ring r)"
    and "provided (m_ring r') = provided (m_ring r)"
    and "length (m_work_items (m_pool r)) \<le> length (m_work_items (m_pool r'))"
    and "\<exists>s. submitted (m_ring r') = s # submitted (m_ring r1) \<and> sqe_user_data s = i \<and>
      prep_request (item_at a r1) = Inr (item_at a r', s)"
proof -
  note l = cb_ext_live [OF assms(1-4)]
  note d = cb_extD [OF assms(1)]
  note e = submit_item_ext [OF d(1) l(3) assms(6)]
  note x = ring_extD [OF e(2)]
  show "ring_inv r'" by (rule e(1))
  show "pool_abs (m_pool r') i = Some (item_at a r')"
    using x(4) x(6) [OF l(4,2)] l(4) by (simp add: pool_abs_def item_at_def)
  show "callbacks_run (m_ring r') = cbs @ callbacks_run (m_ring r)"
    and "provided (m_ring r') = provided (m_ring r)"
    using client_calls_keep [OF x(3)] d(2,3) by simp_all
  show "length (m_work_items (m_pool r)) \<le> length (m_work_items (m_pool r'))"
    using d(6) x(4) by simp
  show "\<exists>s. submitted (m_ring r') = s # submitted (m_ring r1) \<and> sqe_user_data s = i \<and>
      prep_request (item_at a r1) = Inr (item_at a r', s)"
    using e(3) l(5) assms(5) by (auto simp: same_identity_def)
qed

text \<open>A callback's effect carries over to the state with the buffer recycled.\<close>

lemma recycled_free:
  "free_item i (recycled idx r) = Inr r' \<Longrightarrow>
     \<exists>r2. free_item i r = Inr r2 \<and> r' = recycled idx r2"
  by (auto simp: free_item_def ebind_eq_Inr put_pool_def recycled_def)

lemma submit_recycled:
  assumes "ring_inv r" and "a < length (wp_heap (m_pool r))"
    and "submit_item w a (recycled idx r) = Inr r'"
  shows "ring_inv r'" and "ring_ext {a} (recycled idx r) r'"
    and "\<exists>s. submitted (m_ring r') = s # submitted (m_ring r) \<and>
      sqe_user_data s = m_id (item_at a r) \<and> prep_request (item_at a r) = Inr (item_at a r', s)"
  using submit_item_ext [of "recycled idx r" a w r'] assms by simp_all

lemma accept_dispatch:
  assumes "get_work_item (cqe_user_data cqe) (m_pool r) = Inr (Some a)"
    and "m_work_type (item_at a r) = Type_ACCEPT" and "cqe_res cqe \<noteq> - ENOBUFS"
    and "call_callback_and_free_work_item_id w (client_run w client) cqe r = Inr r'"
  shows "\<exists>r1. call_accept_callback (client_run w client) a cqe r = Inr r1 \<and> submit_item w a r1 = Inr r'"
  using assms by (auto simp: call_callback_and_free_work_item_id_def ebind_eq_Inr)

lemma recv_dispatch:
  assumes "get_work_item (cqe_user_data cqe) (m_pool r) = Inr (Some a)"
    and "m_work_type (item_at a r) = Type_RECV" and "cqe_res cqe \<noteq> - ENOBUFS"
    and "call_callback_and_free_work_item_id w (client_run w client) cqe r = Inr r'"
  shows "\<exists>act r1. call_recv_callback w (client_run w client) a cqe r = Inr (act, r1) \<and>
    (case act of Action_NONE \<Rightarrow> free_item (cqe_user_data cqe) r1 = Inr r'
               | RE_SUBMIT \<Rightarrow> submit_item w a r1 = Inr r')"
  using assms
  by (auto simp: call_callback_and_free_work_item_id_def ebind_eq_Inr split: receive_post_action.splits)

lemma ignored_completion:
  assumes "get_work_item (cqe_user_data cqe) (m_pool r) = Inr x"
    and "x = None \<or> cqe_res cqe = - ENOBUFS"
  shows "call_callback_and_free_work_item_id w (client_run w client) cqe r = Inr r"
  using assms by (cases x) (auto simp: call_callback_and_free_work_item_id_def Let_def)

text \<open>The calls of a reception, and what it leaves, whichever way it ends.\<close>

definition recv_calls :: "world \<Rightarrow> work_item \<Rightarrow> completion \<Rightarrow> (nat \<times> cb_event) list" where
  "recv_calls w wi cqe =
     (if cqe_res cqe < 0 then []
      else case recv_message w wi cqe of
             None \<Rightarrow> [] | Some m \<Rightarrow> [(the (callback_of wi), Ev_recv m)])"

definition after_recv :: "completion \<Rightarrow> iouring \<Rightarrow> iouring" where
  "after_recv cqe r = (if cqe_res cqe < 0 then r else recycled (buffer_index cqe) r)"

definition client_keeps_off :: "client \<Rightarrow> nat \<Rightarrow> bool" where
  "client_keeps_off client b \<longleftrightarrow> (\<forall>f e tr. keeps_off b (client f e tr))"

lemma not_used_by: "client_keeps_off client b \<Longrightarrow> b \<notin> used_by client tr fe"
  by (simp add: client_keeps_off_def used_by_def)

lemma recv_cb_ext:
  assumes "ring_inv r" and "call_recv_callback w (client_run w client) a cqe r = Inr (act, r1)"
  shows "\<exists>A r2. cb_ext A (recv_calls w (item_at a r) cqe) r r2 \<and> r1 = after_recv cqe r2 \<and>
    (\<forall>b. client_keeps_off client b \<longrightarrow> b \<notin> A)"
proof (cases "0 \<le> cqe_res cqe \<and> recv_message w (item_at a r) cqe \<noteq> None")
  case False
  then have "cb_ext {} (recv_calls w (item_at a r) cqe) r r \<and> r1 = after_recv cqe r"
    using recv_callback_ext [OF assms] assms(1)
    by (auto simp: recv_calls_def after_recv_def split: if_splits)
  then show ?thesis by (intro exI [of _ "{}"] exI [of _ r]) simp
next
  case True
  then obtain m where m: "recv_message w (item_at a r) cqe = Some m" by auto
  obtain r2 f where r2: "r1 = recycled (buffer_index cqe) r2" "callback_of (item_at a r) = Some f"
    "cb_ext (used_by client (m_ring r) (f, Ev_recv m)) [(f, Ev_recv m)] r r2"
    using recv_callback_ext [OF assms] True m by (auto simp: Let_def)
  then show ?thesis
    using True m not_used_by
    by (intro exI [of _ "used_by client (m_ring r) (f, Ev_recv m)"] exI [of _ r2])
      (auto simp: recv_calls_def after_recv_def)
qed

lemma after_recv_simps [simp]:
  "m_pool (after_recv cqe r) = m_pool r" "m_buffers (after_recv cqe r) = m_buffers r"
  "submitted (m_ring (after_recv cqe r)) = submitted (m_ring r)"
  "callbacks_run (m_ring (after_recv cqe r)) = callbacks_run (m_ring r)"
  "provided (m_ring (after_recv cqe r)) = provided (m_ring r) @
     (if cqe_res cqe < 0 then []
      else [Some (get_buffer (m_buffers r) (buffer_index cqe), 4096, buffer_index cqe)])"
  "ring_inv (after_recv cqe r) = ring_inv r"
  "item_at b (after_recv cqe r) = item_at b r"
  by (simp_all add: after_recv_def)

lemma recv_result:
  assumes "ring_inv r" and "i < length (m_work_items (m_pool r))"
    and "m_work_items (m_pool r) ! i = Some a" and "a < length (wp_heap (m_pool r))"
    and "call_recv_callback w (client_run w client) a cqe r = Inr (act, r1)"
  shows "ring_inv r1"
    and "callbacks_run (m_ring r1) = recv_calls w (item_at a r) cqe @ callbacks_run (m_ring r)"
    and "m_work_items (m_pool r1) ! i = Some a" and "a < length (wp_heap (m_pool r1))"
    and "i < length (m_work_items (m_pool r1))" and "same_identity (item_at a r) (item_at a r1)"
    and "length (m_work_items (m_pool r)) \<le> length (m_work_items (m_pool r1))"
    and "provided (m_ring r1) = provided (m_ring r) @
      (if cqe_res cqe < 0 then []
       else [Some (get_buffer (m_buffers r) (buffer_index cqe), 4096, buffer_index cqe)])"
    and "client_keeps_off client a \<Longrightarrow> item_at a r1 = item_at a r"
    and "m_buffers r1 = m_buffers r"
proof -
  obtain A r2 where r2: "cb_ext A (recv_calls w (item_at a r) cqe) r r2" "r1 = after_recv cqe r2"
    and A: "client_keeps_off client a \<Longrightarrow> a \<notin> A"
    using recv_cb_ext [OF assms(1,5)] by blast
  note d = cb_extD [OF r2(1)] and l = cb_ext_live [OF r2(1) assms(2-4)]
  show "ring_inv r1" "m_work_items (m_pool r1) ! i = Some a" "a < length (wp_heap (m_pool r1))"
    "i < length (m_work_items (m_pool r1))" "same_identity (item_at a r) (item_at a r1)"
    "length (m_work_items (m_pool r)) \<le> length (m_work_items (m_pool r1))"
    "callbacks_run (m_ring r1) = recv_calls w (item_at a r) cqe @ callbacks_run (m_ring r)"
    "provided (m_ring r1) = provided (m_ring r) @
      (if cqe_res cqe < 0 then []
       else [Some (get_buffer (m_buffers r) (buffer_index cqe), 4096, buffer_index cqe)])"
    "m_buffers r1 = m_buffers r"
    using d l r2(2) by simp_all
  show "client_keeps_off client a \<Longrightarrow> item_at a r1 = item_at a r"
    using l(6) A r2(2) by simp
qed

text \<open>The same for an accepted connection.\<close>

definition accepted_address :: "work_item \<Rightarrow> ip_address outcome" where
  "accepted_address wi = ip_of_storage (m_buffer_for_uring wi) (m_accept_sock_len wi)"

definition accept_calls :: "work_item \<Rightarrow> completion \<Rightarrow> (nat \<times> cb_event) list" where
  "accept_calls wi cqe =
     (if hushed cqe then []
      else case accepted_address wi of
             Inl e \<Rightarrow> []
           | Inr addr \<Rightarrow>
               [(the (callback_of wi), Ev_accept \<lparr>m_new_fd = cqe_res cqe, m_address = addr\<rparr>)])"

lemma accept_cb_ext:
  assumes "ring_inv r" and "call_accept_callback (client_run w client) a cqe r = Inr r1"
  shows "\<exists>A. cb_ext A (accept_calls (item_at a r) cqe) r r1 \<and>
    (\<forall>b. client_keeps_off client b \<longrightarrow> b \<notin> A)"
proof (cases "hushed cqe")
  case True
  then show ?thesis
    using accept_callback_ext [OF assms] assms(1) by (intro exI [of _ "{}"]) (simp add: accept_calls_def)
next
  case False
  with accept_callback_ext [OF assms] obtain f addr where
    f: "accepted_address (item_at a r) = Inr addr" "callback_of (item_at a r) = Some f"
    "let fe = (f, Ev_accept \<lparr>m_new_fd = cqe_res cqe, m_address = addr\<rparr>)
     in cb_ext (used_by client (m_ring r) fe) [fe] r r1"
    by (auto simp: accepted_address_def)
  then show ?thesis
    using False not_used_by unfolding accept_calls_def Let_def by force
qed

section \<open>The invariant of reachable states\<close>

text \<open>At most one callback runs, and only one of the given functions.\<close>

definition quiet_change :: "nat set \<Rightarrow> iouring \<Rightarrow> iouring \<Rightarrow> bool" where
  "quiet_change who r r' \<longleftrightarrow>
     ring_inv r' \<and>
     length (m_work_items (m_pool r)) \<le> length (m_work_items (m_pool r')) \<and>
     (\<exists>cbs. length cbs \<le> 1 \<and> fst ` set cbs \<subseteq> who \<and>
        callbacks_run (m_ring r') = cbs @ callbacks_run (m_ring r))"

text \<open>The function of the work item in a slot.\<close>

definition requester :: "nat \<Rightarrow> iouring \<Rightarrow> nat set" where
  "requester i r =
     (case get_work_item i (m_pool r) of
        Inr (Some a) \<Rightarrow> {the (callback_of (item_at a r))}
      | _ \<Rightarrow> {})"

lemma requester_live [simp]:
  "get_work_item i (m_pool r) = Inr (Some a) \<Longrightarrow> requester i r = {the (callback_of (item_at a r))}"
  by (simp add: requester_def)

lemma quiet_changeI:
  "ring_inv r' \<Longrightarrow> length (m_work_items (m_pool r)) \<le> length (m_work_items (m_pool r')) \<Longrightarrow>
     callbacks_run (m_ring r') = cbs @ callbacks_run (m_ring r) \<Longrightarrow>
     length cbs \<le> 1 \<and> fst ` set cbs \<subseteq> who \<Longrightarrow> quiet_change who r r'"
  by (auto simp: quiet_change_def)

lemma one_call:
  "length (one_shot_calls wi cqe) \<le> 1 \<and> fst ` set (one_shot_calls wi cqe) \<subseteq> {the (callback_of wi)}"
  "length (accept_calls wi cqe) \<le> 1 \<and> fst ` set (accept_calls wi cqe) \<subseteq> {the (callback_of wi)}"
  "length (recv_calls w wi cqe) \<le> 1 \<and> fst ` set (recv_calls w wi cqe) \<subseteq> {the (callback_of wi)}"
  by (simp_all add: one_shot_calls_def accept_calls_def recv_calls_def split: option.splits sum.splits)

lemma accept_quiet:
  assumes "ring_inv r" and "i < length (m_work_items (m_pool r))"
    and "m_work_items (m_pool r) ! i = Some a" and "a < length (wp_heap (m_pool r))"
    and "m_id (item_at a r) = i"
    and "call_accept_callback (client_run w client) a cqe r = Inr r1" and "submit_item w a r1 = Inr r'"
  shows "quiet_change {the (callback_of (item_at a r))} r r'"
proof -
  obtain A where c: "cb_ext A (accept_calls (item_at a r) cqe) r r1"
    using accept_cb_ext [OF assms(1,6)] by blast
  note s = resubmit [OF c(1) assms(2-5,7)]
  show ?thesis by (rule quiet_changeI [OF s(1,5,3) one_call(2)])
qed

lemma recv_quiet:
  assumes "ring_inv r" and "i < length (m_work_items (m_pool r))"
    and "m_work_items (m_pool r) ! i = Some a" and "a < length (wp_heap (m_pool r))"
    and "call_recv_callback w (client_run w client) a cqe r = Inr (act, r1)"
    and "case act of Action_NONE \<Rightarrow> free_item i r1 = Inr r' | RE_SUBMIT \<Rightarrow> submit_item w a r1 = Inr r'"
  shows "quiet_change {the (callback_of (item_at a r))} r r'"
proof -
  note v = recv_result [OF assms(1-5)]
  note cbs = v(2) one_call(3)
  show ?thesis
  proof (cases act)
    case Action_NONE
    then have "free_item i r1 = Inr r'" using assms(6) by simp
    from free_item_ext [OF v(1) this] v(7) cbs show ?thesis
      by (intro quiet_changeI) simp_all
  next
    case RE_SUBMIT
    then have "submit_item w a r1 = Inr r'" using assms(6) by simp
    note x = submit_item_ext(1,2) [OF v(1,4) this]
    note d = ring_extD [OF x(2)]
    show ?thesis
      using x(1) d(4) v(7) client_calls_keep(1) [OF d(3)] cbs
      by (intro quiet_changeI) simp_all
  qed
qed

lemma dispatch_quiet:
  assumes "ring_inv r" and "call_callback_and_free_work_item_id w (client_run w client) cqe r = Inr r'"
  shows "quiet_change (requester (cqe_user_data cqe) r) r r'"
proof -
  let ?i = "cqe_user_data cqe"
  obtain x where x: "get_work_item ?i (m_pool r) = Inr x"
    using assms(2) by (cases "get_work_item ?i (m_pool r)")
      (auto simp: call_callback_and_free_work_item_id_def Let_def)
  show ?thesis
  proof (cases "x = None \<or> cqe_res cqe = - ENOBUFS")
    case True
    then have "r' = r" using ignored_completion [OF x True, of w client] assms(2) by simp
    then show ?thesis using assms(1) by (intro quiet_changeI [where cbs = "[]"]) simp_all
  next
    case False
    then obtain a where a: "get_work_item ?i (m_pool r) = Inr (Some a)" using x by auto
    have inv: "pool_inv (m_pool r)" using assms(1) by (simp add: ring_inv_def)
    then obtain wi where "pool_abs (m_pool r) ?i = Some wi"
      using a get_work_item_cases [OF inv, of ?i] by (auto split: if_splits option.splits)
    with assms(1) a obtain l: "a < length (wp_heap (m_pool r))" "m_work_items (m_pool r) ! ?i = Some a"
      "?i < length (m_work_items (m_pool r))" "m_id (item_at a r) = ?i"
      by (metis live_item sum.inject(2) option.inject)
    consider "m_work_type (item_at a r) = Type_ACCEPT" | "m_work_type (item_at a r) = Type_RECV"
      | "m_work_type (item_at a r) = Type_UNKNOWN"
      | "m_work_type (item_at a r) \<in> {Type_CLOSE, Type_CONNECT, Type_SEND_STREAM_DATA, Type_SEND_WORKPACKET}"
      by (cases "m_work_type (item_at a r)") auto
    then show ?thesis
    proof cases
      case 1
      then show ?thesis
        using accept_dispatch [OF a 1 _ assms(2)] False accept_quiet [OF assms(1) l(3,2,1,4)] a by fastforce
    next
      case 2
      then show ?thesis
        using recv_dispatch [OF a 2 _ assms(2)] False recv_quiet [OF assms(1) l(3,2,1)] a by fastforce
    next
      case 3
      then show ?thesis
        using assms(2) a False by (simp add: call_callback_and_free_work_item_id_def)
    next
      case 4
      then obtain A r1 where "cb_ext A (one_shot_calls (item_at a r) cqe) r r1" "free_item ?i r1 = Inr r'"
        using one_shot_dispatch [OF assms(1) a 4 _ assms(2)] False by blast
      from one_shot_then_free [OF this] show ?thesis
        using one_call(1) quiet_changeI a by (metis requester_live)
    qed
  qed
qed

lemma kernel_stores_keeps:
  assumes "ring_inv r"
  shows "ring_inv (kernel_stores cqe r)" and "m_ring (kernel_stores cqe r) = m_ring r"
    and "m_work_items (m_pool (kernel_stores cqe r)) = m_work_items (m_pool r)"
proof -
  have inv: "pool_inv (m_pool r)" using assms by (simp add: ring_inv_def)
  have "pool_inv (heap_write a ((item_at a r)\<lparr>m_buffer_for_uring :=
      overwrite (m_buffer_for_uring (item_at a r)) 0 (take sizeof_sockaddr_storage sa),
      m_accept_sock_len := len\<rparr>) (m_pool r))"
    if "get_work_item (cqe_user_data cqe) (m_pool r) = Inr (Some a)" for a sa len
  proof -
    have "a < length (wp_heap (m_pool r))"
      using that get_work_item_cases [OF inv, of "cqe_user_data cqe"]
        get_work_item_live [OF inv, of "cqe_user_data cqe"]
      by (auto split: if_splits option.splits)
    moreover from this have "wi_inv (item_at a r)" using pool_invD(4) [OF inv] by (simp add: item_at_def)
    ultimately show ?thesis
      by (intro heap_write_inv [OF inv]) (auto simp: wi_inv_def same_identity_def item_at_def)
  qed
  then show "ring_inv (kernel_stores cqe r)" "m_ring (kernel_stores cqe r) = m_ring r"
    "m_work_items (m_pool (kernel_stores cqe r)) = m_work_items (m_pool r)"
    using assms
    by (auto simp: kernel_stores_def ring_inv_def entries_ok_def split: option.splits sum.splits)
qed

lemma selector_update: "f x = f (xs ! a) \<Longrightarrow> f (xs[a := x] ! b) = f (xs ! b)"
  by (cases "a < length xs"; cases "a = b") (auto simp: list_update_beyond)

lemma requester_heap_write:
  assumes "m_state x = m_state (item_at a r)" and "callback_of x = callback_of (item_at a r)"
  shows "requester i (r\<lparr>m_pool := heap_write a x (m_pool r)\<rparr>) = requester i r"
proof -
  have "is_free ((wp_heap (m_pool r))[a := x] ! b) = is_free (wp_heap (m_pool r) ! b)" for b
    using selector_update [of m_state x "wp_heap (m_pool r)" a b] assms(1)
    by (simp add: is_free_def item_at_def)
  then have "get_work_item i (heap_write a x (m_pool r)) = get_work_item i (m_pool r)"
    by (simp add: get_work_item_def heap_write_def split: option.split)
  moreover have "callback_of ((wp_heap (m_pool r))[a := x] ! b) = callback_of (wp_heap (m_pool r) ! b)" for b
    using selector_update [of callback_of x "wp_heap (m_pool r)" a b] assms(2)
    by (simp add: item_at_def)
  ultimately show ?thesis
    by (simp add: requester_def item_at_def heap_write_def split: option.split sum.split)
qed

lemma requester_kernel_stores: "requester i (kernel_stores cqe r) = requester i r"
  by (auto simp: kernel_stores_def callback_of_def intro!: requester_heap_write
      split: option.splits sum.splits)

lemma poll_quiet:
  assumes "ring_inv r" and "poll_completion_queues w client r = Inr (e, r')"
  shows "quiet_change (requester (cqe_user_data (snd (w_peek w (Peek_cqe # m_ring r)))) r) r r' \<and>
    e = Error_OK"
proof -
  let ?r0 = "r\<lparr>m_ring := Peek_cqe # m_ring r\<rparr>"
  obtain ok cqe where pk: "w_peek w (Peek_cqe # m_ring r) = (ok, cqe)" by fastforce
  have inv0: "ring_inv ?r0" using assms(1) by (simp add: ring_inv_def entries_ok_def)
  note k = kernel_stores_keeps [OF inv0, of cqe]
  show ?thesis
  proof (cases "ok = 0")
    case True
    then obtain r1 where d: "call_callback_and_free_work_item_id w (client_run w client) cqe (kernel_stores cqe ?r0) = Inr r1"
      and r': "r' = r1\<lparr>m_ring := Cq_advance 1 # m_ring r1\<rparr>" "e = Error_OK"
      using assms(2) pk by (auto simp: poll_completion_queues_def poll_with_def ebind_eq_Inr Let_def)
    have "requester (cqe_user_data cqe) ?r0 = requester (cqe_user_data cqe) r"
      by (simp add: requester_def item_at_def split: option.split sum.split)
    with dispatch_quiet [OF k(1) d] show ?thesis
      using k(2,3) r' pk requester_kernel_stores by (auto simp: quiet_change_def ring_inv_def entries_ok_def)
  next
    case False
    then show ?thesis
      using assms inv0 pk
      by (auto simp: poll_completion_queues_def poll_with_def Let_def quiet_change_def split: if_splits)
  qed
qed

lemma setup_buffer_pool_submitted:
  "setup_buffer_pool w b tr = (e, b', tr') \<Longrightarrow> submitted tr' = submitted tr"
  by (auto simp: setup_buffer_pool_def Let_def split: option.splits if_splits)

lemma init_inv:
  assumes "init w (new_iouring raw n tr0) = Inr (e, r)" and "submitted tr0 = []"
  shows "ring_inv r" and "submitted (m_ring r) = []"
proof -
  obtain e1 b tr where s: "setup_buffer_pool w (new_buffer_ring raw) (Queue_init n # tr0) = (e1, b, tr)"
    by (metis prod_cases3)
  then have r: "r = (new_iouring raw n tr0)\<lparr>m_buffers := b, m_ring := tr, m_initialized := True\<rparr>"
    using assms(1)
    by (auto simp: init_def init_ring_def new_iouring_def ebind_eq_Inr Let_def split: if_splits)
  show "ring_inv r" "submitted (m_ring r) = []"
    using setup_buffer_pool_submitted [OF s] assms(2)
    by (simp_all add: r ring_inv_def entries_ok_def new_iouring_def)
qed

lemma reachable_ring_inv: "reachable w client r \<Longrightarrow> ring_inv r"
proof (induction rule: reachable.induct)
  case (reach_init raw n tr e r)
  then show ?case by (rule init_inv(1))
next
  case (reach_step r r')
  from reach_step.hyps(2) show ?case
  proof (cases rule: ring_step.cases)
    case (step_prog p act)
    then show ?thesis using run_prog_ext [OF reach_step.IH] by blast
  next
    case (step_poll e)
    then show ?thesis using poll_quiet [OF reach_step.IH] by (auto simp: quiet_change_def)
  qed
qed

end
