(* ===== verification/Ring_Lifecycle.thy ===== *)
theory Ring_Lifecycle
  imports Ring_Dispatch
begin

text \<open>
  What a client of the ring sees of its requests, from submission to the last completion: the
  properties of \<open>poll_completion_queues\<close> and \<open>call_callback_and_free_work_item_id\<close> of
  \<open>src/IOUring.cpp\<close> on top of the theory \<open>Ring_Dispatch\<close>. One-shot requests (close, connect, send)
  answer once and give their id back; accept requests are armed again; receptions do what their
  callback says. The theorems also show where the code's protocol with the kernel has holes.

  The concrete rings of the examples hold one work item in slot 0.
\<close>

section \<open>Concrete rings\<close>

definition one_item_ring :: "work_item \<Rightarrow> iouring" where
  "one_item_ring wi =
     example_ring\<lparr>m_pool := \<lparr>wp_heap = [wi], m_work_items = [Some 0], m_free_ids = []\<rparr>\<rparr>"

definition example_item :: "work_type \<Rightarrow> callback_var \<Rightarrow> work_item" where
  "example_item t cb =
     (new_work_item example_raw 0 ''x'' example_socket)\<lparr>m_work_type := t, m_callback := cb\<rparr>"

definition plain_completion :: "int \<Rightarrow> u32 \<Rightarrow> completion" where
  "plain_completion res flags =
     \<lparr>cqe_res = res, cqe_flags = flags, cqe_user_data = 0, cqe_sockaddr = None, cqe_buffer = [104, 105]\<rparr>"

definition answering :: "receive_post_action \<Rightarrow> client" where
  "answering act = (\<lambda>f e tr. Return act)"

lemma example_item_inv [simp]: "wi_inv (example_item t cb)"
  by (simp add: example_item_def wi_inv_def new_work_item_def)

lemma example_item_simps [simp]:
  "m_id (example_item t cb) = 0" "m_state (example_item t cb) = IN_USE"
  "m_work_type (example_item t cb) = t" "m_callback (example_item t cb) = cb"
  "m_socket (example_item t cb) = example_socket" "wi_is_stream (example_item t cb)"
  "callback_of (example_item t cb) =
     (case cb of Connect_cb f \<Rightarrow> f | Accept_cb f \<Rightarrow> f | Recv_cb f \<Rightarrow> f | Send_cb f \<Rightarrow> f | Close_cb f \<Rightarrow> f)"
  by (simp_all add: example_item_def wi_is_stream_def is_stream_def example_socket_def callback_of_def)

lemma one_item_ring_simps:
  assumes "wi_inv wi" and "m_id wi = 0" and "m_state wi = IN_USE"
  shows "ring_inv (one_item_ring wi)"
    and "pool_abs (m_pool (one_item_ring wi)) 0 = Some wi"
    and "get_work_item 0 (m_pool (one_item_ring wi)) = Inr (Some 0)"
    and "item_at 0 (one_item_ring wi) = wi"
    and "m_work_items (m_pool (one_item_ring wi)) ! 0 = Some 0"
    and "m_ring (one_item_ring wi) = []"
proof -
  show "ring_inv (one_item_ring wi)"
    using assms
    by (auto simp: one_item_ring_def ring_inv_def entries_ok_def example_ring_def new_iouring_def
        intro!: pool_invI)
  show "pool_abs (m_pool (one_item_ring wi)) 0 = Some wi"
    "get_work_item 0 (m_pool (one_item_ring wi)) = Inr (Some 0)"
    "item_at 0 (one_item_ring wi) = wi"
    "m_work_items (m_pool (one_item_ring wi)) ! 0 = Some 0" "m_ring (one_item_ring wi) = []"
    using assms
    by (simp_all add: one_item_ring_def pool_abs_def get_work_item_def is_free_def item_at_def
        example_ring_def new_iouring_def)
qed

lemmas example_ring_simps [simp] = one_item_ring_simps [of "example_item t cb" for t cb, simplified]

lemma answering_keeps_off [simp]: "client_keeps_off (answering act) b"
  by (simp add: client_keeps_off_def answering_def)

lemma run_answering [simp]:
  "run_callback (client_run w (answering act)) (Inr (f, e)) r = Inr (act, r\<lparr>m_ring := Callback f e # m_ring r\<rparr>)"
  by (simp add: run_callback_def client_run_def answering_def)

lemma item_at_ring [simp]: "item_at a (r\<lparr>m_ring := tr\<rparr>) = item_at a r"
  by (simp add: item_at_def)

lemma one_item_ring_buffers [simp]: "m_buffers (one_item_ring wi) = m_buffers example_ring"
  by (simp add: one_item_ring_def)

lemma one_item_ring_quiet [simp]: "(one_item_ring wi)\<lparr>m_ring := []\<rparr> = one_item_ring wi"
  by (simp add: one_item_ring_def example_ring_def new_iouring_def)

text \<open>The example ring with its slot released, or its item submitted again.\<close>

definition freed_ring :: "work_item \<Rightarrow> io_trace \<Rightarrow> iouring" where
  "freed_ring wi tr =
     example_ring\<lparr>m_pool := \<lparr>wp_heap = [wi\<lparr>m_state := FREE\<rparr>], m_work_items = [None], m_free_ids = [0]\<rparr>,
                  m_ring := tr\<rparr>"

lemma example_free [simp]:
  "m_state wi = IN_USE \<Longrightarrow>
     free_item 0 ((one_item_ring wi)\<lparr>m_ring := tr\<rparr>) = Inr (freed_ring wi tr)"
  by (simp add: free_item_def free_work_item_def one_item_ring_def is_free_def mark_is_free_def
      put_pool_def heap_write_def freed_ring_def)

lemma example_clean [simp]:
  "call_item (\<lambda>wi tr. Inr (clean_send_packet wi, tr)) 0 ((one_item_ring wi)\<lparr>m_ring := tr\<rparr>) =
     Inr ((one_item_ring (clean_send_packet wi))\<lparr>m_ring := tr\<rparr>)"
  "m_state (clean_send_packet wi) = m_state wi"
  by (simp_all add: call_item_def on_item_def one_item_ring_def put_pool_def heap_write_def
      clean_send_packet_def)

lemma example_submit [simp]:
  "prep_request wi = Inr (wi', s) \<Longrightarrow>
     submit_item ready_world 0 ((one_item_ring wi)\<lparr>m_ring := tr\<rparr>) =
     Inr ((one_item_ring wi')\<lparr>m_ring := Uring_submit # Prep s # Get_sqe # tr\<rparr>)"
  by (simp add: submit_item_def on_item_def one_item_ring_def ring_submit_def get_sqe_cases
      submit_all_requests_def put_pool_def heap_write_def)

lemma example_get [simp]:
  "get_work_item 0 (m_pool ((one_item_ring (example_item t cb))\<lparr>m_ring := tr\<rparr>)) = Inr (Some 0)"
  by simp

lemma plain_completion_simps [simp]:
  "cqe_res (plain_completion res flags) = res" "cqe_flags (plain_completion res flags) = flags"
  "cqe_user_data (plain_completion res flags) = 0"
  "cqe_buffer (plain_completion res flags) = [104, 105]"
  by (simp_all add: plain_completion_def)

section \<open>Ids of completions\<close>



section \<open>One-shot requests\<close>



section \<open>Accepting\<close>





section \<open>Receiving\<close>

lemma recv_step:
  assumes "ring_inv r" and "get_work_item (cqe_user_data cqe) (m_pool r) = Inr (Some a)"
    and "pool_abs (m_pool r) (cqe_user_data cqe) = Some wi" and "m_work_type wi = Type_RECV"
    and "cqe_res cqe \<noteq> - ENOBUFS" and "client_keeps_off client a"
    and "call_callback_and_free_work_item_id w (client_run w client) cqe r = Inr r'"
  shows "ring_inv r' \<and>
    callbacks_run (m_ring r') = recv_calls w wi cqe @ callbacks_run (m_ring r) \<and>
    (if cqe_res cqe < 0 then cqe_res cqe = - 104 \<and> provided (m_ring r') = provided (m_ring r)
     else provided (m_ring r') = provided (m_ring r) @
       [Some (get_buffer (m_buffers r) (buffer_index cqe), 4096, buffer_index cqe)]) \<and>
    (if pool_abs (m_pool r') (cqe_user_data cqe) = None
     then next_id (m_pool r') = cqe_user_data cqe
     else pool_abs (m_pool r') (cqe_user_data cqe) = Some (recv_item wi) \<and>
       (\<exists>s rest. submitted (m_ring r') = s # rest @ submitted (m_ring r) \<and>
         sqe_user_data s = cqe_user_data cqe \<and> kernel_view s = requested wi)) \<and>
    (\<exists>act r1. call_recv_callback w (client_run w client) a cqe r = Inr (act, r1) \<and>
       (pool_abs (m_pool r') (cqe_user_data cqe) = None \<longleftrightarrow> act = Action_NONE))"
proof -
  let ?i = "cqe_user_data cqe"
  obtain a' where "get_work_item ?i (m_pool r) = Inr (Some a')"
    "a' < length (wp_heap (m_pool r))" "item_at a' r = wi" "m_work_items (m_pool r) ! ?i = Some a'"
    "?i < length (m_work_items (m_pool r))" "m_id wi = ?i"
    using live_item [OF assms(1,3)] by metis
  then have a: "a < length (wp_heap (m_pool r))" "item_at a r = wi"
    "m_work_items (m_pool r) ! ?i = Some a" "?i < length (m_work_items (m_pool r))" "m_id wi = ?i"
    using assms(2) by simp_all
  obtain act r1 where r1: "call_recv_callback w (client_run w client) a cqe r = Inr (act, r1)"
    and fin: "case act of Action_NONE \<Rightarrow> free_item ?i r1 = Inr r' | RE_SUBMIT \<Rightarrow> submit_item w a r1 = Inr r'"
    using recv_dispatch [OF assms(2) _ assms(5,7)] a(2) assms(4) by auto
  note v = recv_result [OF assms(1) a(4,3,1) r1, unfolded a(2)]
  have neg: "cqe_res cqe < 0 \<Longrightarrow> cqe_res cqe = - 104"
    using recv_callback_ext [OF assms(1) r1] by simp
  show ?thesis
  proof (cases act)
    case Action_NONE
    then have "free_item ?i r1 = Inr r'" using fin by simp
    from free_item_ext [OF v(1) this] show ?thesis
      using v(2,8) neg r1 Action_NONE by (auto simp: next_id_def)
  next
    case RE_SUBMIT
    then have sub: "submit_item w a r1 = Inr r'" using fin by simp
    note x = submit_item_ext [OF v(1,4) sub]
    note d = ring_extD [OF x(2)]
    have same: "item_at a r1 = wi" using v(9) assms(6) a(2) by simp
    obtain s where s: "submitted (m_ring r') = s # submitted (m_ring r1)" "sqe_user_data s = ?i"
      "prep_request wi = Inr (item_at a r', s)"
      using x(3) same a(5) by auto
    have wi: "wi_inv wi"
      using pool_invD(4) [of "m_pool r" a] a(1,2) assms(1) by (simp add: ring_inv_def item_at_def)
    have "kernel_view s = requested wi" and "item_at a r' = recv_item wi"
      using requested_simple [OF wi s(3)] s(3) assms(4) by (simp_all add: prep_request_def prep_recv_eq)
    moreover have "pool_abs (m_pool r') ?i = Some (item_at a r')"
      using d(4) d(6) [OF v(5,3)] v(5) by (simp add: pool_abs_def item_at_def)
    moreover obtain A r2 rest where "r1 = after_recv cqe r2" "submitted (m_ring r2) = rest @ submitted (m_ring r)"
      using recv_cb_ext [OF assms(1) r1] cb_extD(4) by metis
    ultimately show ?thesis
      using x(1) client_calls_keep [OF d(3)] v(2,8) neg s r1 RE_SUBMIT by auto
  qed
qed





text \<open>
  A completion that reports \<open>ENOBUFS\<close>, and one whose id was released in the meantime, changes
  nothing: in the first case the work item stays live for ever with no callback and no new
  submission, so the client is never told and the slot is lost.
\<close>

theorem enobufs_and_stale_ignored:
  assumes "ring_inv r" and "cqe_user_data cqe < length (m_work_items (m_pool r))"
    and "cqe_res cqe = - ENOBUFS \<or> cqe_user_data cqe \<in> set (m_free_ids (m_pool r))"
  shows "call_callback_and_free_work_item_id w (client_run w client) cqe r = Inr r"
proof -
  have inv: "pool_inv (m_pool r)" using assms(1) by (simp add: ring_inv_def)
  obtain x where x: "get_work_item (cqe_user_data cqe) (m_pool r) = Inr x"
    using get_work_item_cases [OF inv, of "cqe_user_data cqe"] assms(2) by simp
  have "cqe_user_data cqe \<in> set (m_free_ids (m_pool r)) \<Longrightarrow> x = None"
    using pool_invD(3) [OF inv] x get_work_item_dead [OF assms(2)] assms(2) by (simp add: pool_abs_def)
  then show ?thesis using ignored_completion [OF x] assms(3) by blast
qed

theorem enobufs_and_stale_ignored_witness:
  "call_callback_and_free_work_item_id ready_world (client_run ready_world (answering RE_SUBMIT)) (plain_completion (- ENOBUFS) 0)
     (one_item_ring (example_item Type_RECV (Recv_cb (Some 5)))) =
   Inr (one_item_ring (example_item Type_RECV (Recv_cb (Some 5))))"
proof -
  have "0 < length (m_work_items (m_pool (one_item_ring (example_item Type_RECV (Recv_cb (Some 5))))))"
    by (simp add: one_item_ring_def)
  then show ?thesis
    using enobufs_and_stale_ignored [of "one_item_ring (example_item Type_RECV (Recv_cb (Some 5)))"
        "plain_completion (- ENOBUFS) 0"] by simp
qed

text \<open>
  A stream reception that completes without a selected buffer, as at the end of a stream, still
  gives a buffer back: the upper half of its flags is 0, so buffer 0 is provided to the kernel a
  second time, whoever holds it.
\<close>

theorem unselected_buffer_provided_again:
  assumes "ring_inv r" and "get_work_item (cqe_user_data cqe) (m_pool r) = Inr (Some a)"
    and "pool_abs (m_pool r) (cqe_user_data cqe) = Some wi" and "m_work_type wi = Type_RECV"
    and "0 \<le> cqe_res cqe" and "unat (cqe_flags cqe) < 2 ^ 16" and "client_keeps_off client a"
    and "call_callback_and_free_work_item_id w (client_run w client) cqe r = Inr r'"
  shows "provided (m_ring r') = provided (m_ring r) @ [Some (get_buffer (m_buffers r) 0, 4096, 0)]"
proof -
  have "buffer_index cqe = 0"
    using assms(6)
    by (simp add: buffer_index_def unat_drop_bit_eq drop_bit_eq_div [of 16 "unat (cqe_flags cqe)"])
  moreover have "cqe_res cqe \<noteq> - ENOBUFS" using assms(5) by simp
  ultimately show ?thesis using recv_step [OF assms(1-4) _ assms(7,8)] assms(5) by simp
qed

theorem unselected_buffer_provided_again_witness:
  "\<exists>r'. call_callback_and_free_work_item_id ready_world (client_run ready_world (answering Action_NONE)) (plain_completion 0 0)
       (one_item_ring (example_item Type_RECV (Recv_cb (Some 5)))) = Inr r' \<and>
     provided (m_ring r') = [Some (get_buffer (m_buffers example_ring) 0, 4096, 0)]"
proof -
  let ?r = "one_item_ring (example_item Type_RECV (Recv_cb (Some 5)))"
  obtain r' where r': "call_callback_and_free_work_item_id ready_world (client_run ready_world (answering Action_NONE))
      (plain_completion 0 0) ?r = Inr r'"
    by (simp add: call_callback_and_free_work_item_id_def call_recv_callback_def
        call_recv_handler_stream_def wi_call_recv_callback_def invoke_def Let_def)
  then show ?thesis
    using unselected_buffer_provided_again [OF _ _ _ _ _ _ answering_keeps_off r', of 0] by simp
qed

section \<open>Multishot receptions\<close>

primrec handle_completions :: "world \<Rightarrow> client \<Rightarrow> completion list \<Rightarrow> iouring \<Rightarrow> iouring outcome" where
  "handle_completions w client [] r = Inr r"
| "handle_completions w client (c # cs) r =
     ebind (call_callback_and_free_work_item_id w (client_run w client) c r) (handle_completions w client cs)"

definition entries_for :: "nat \<Rightarrow> request \<Rightarrow> iouring \<Rightarrow> nat" where
  "entries_for i req r =
     length (filter (\<lambda>s. sqe_user_data s = i \<and> kernel_view s = Some req) (submitted (m_ring r)))"

lemma answering_action:
  assumes "call_recv_callback w (client_run w (answering RE_SUBMIT)) a cqe r = Inr (act, r1)"
  shows "act = RE_SUBMIT"
proof -
  have run: "act' = RE_SUBMIT" if "run_callback (client_run w (answering RE_SUBMIT)) call r0 = Inr (act', r')" for call r0 act' r'
    using that by (auto simp: run_callback_def client_run_def answering_def ebind_eq_Inr)
  show ?thesis
    using assms
    by (auto simp: call_recv_callback_def call_recv_handler_stream_def call_recv_handler_datagram_def
        ebind_eq_Inr Let_def dest: run split: if_splits option.splits)
qed

lemma recv_item_simps [simp]:
  "m_work_type (recv_item wi) = m_work_type wi" "m_socket (recv_item wi) = m_socket wi"
  "m_callback (recv_item wi) = m_callback wi" "wi_is_stream (recv_item wi) = wi_is_stream wi"
  by (simp_all add: recv_item_def wi_is_stream_def)

text \<open>
  A multishot reception is armed again although it is still armed: the kernel flags every datagram
  but the last of such a request with \<open>IORING_CQE_F_MORE\<close>, the code only logs that flag, and a
  client that keeps receiving answers \<open>RE_SUBMIT\<close>. So after \<open>n\<close> such datagrams the kernel has been
  given at least \<open>n\<close> more multishot receptions for the socket, none of which has ended.
\<close>

theorem multishot_rearmed_while_armed:
  assumes "ring_inv r" and "pool_abs (m_pool r) i = Some wi" and "m_work_type wi = Type_RECV"
    and "\<not> wi_is_stream wi"
    and "\<forall>c \<in> set cs. cqe_user_data c = i \<and> 0 \<le> cqe_res c \<and> cqe_flags c AND IORING_CQE_F_MORE \<noteq> 0"
    and "handle_completions w (answering RE_SUBMIT) cs r = Inr r'"
  shows "entries_for i (Receive_datagrams (get_fd (m_socket wi)) 128) r + length cs \<le>
         entries_for i (Receive_datagrams (get_fd (m_socket wi)) 128) r'"
  using assms
proof (induction cs arbitrary: r wi)
  case Nil
  then show ?case by simp
next
  case (Cons c cs)
  let ?req = "Receive_datagrams (get_fd (m_socket wi)) 128"
  obtain r1 where r1: "call_callback_and_free_work_item_id w (client_run w (answering RE_SUBMIT)) c r = Inr r1"
    and rest: "handle_completions w (answering RE_SUBMIT) cs r1 = Inr r'"
    using Cons.prems(6) by (auto simp: ebind_eq_Inr)
  have c: "cqe_user_data c = i" "0 \<le> cqe_res c" "cqe_res c \<noteq> - ENOBUFS" using Cons.prems(5) by auto
  obtain a where a: "get_work_item i (m_pool r) = Inr (Some a)" by (rule live_item [OF Cons.prems(1,2)])
  note st = recv_step [OF Cons.prems(1) _ _ Cons.prems(3) c(3) answering_keeps_off r1, unfolded c(1),
      OF a Cons.prems(2)]
  have live: "pool_abs (m_pool r1) i \<noteq> None" using st answering_action by blast
  with st have r1': "ring_inv r1" "pool_abs (m_pool r1) i = Some (recv_item wi)"
    by (auto split: if_splits)
  obtain s more where "submitted (m_ring r1) = s # more @ submitted (m_ring r)"
    "sqe_user_data s = i" "kernel_view s = requested wi"
    using st live by (auto split: if_splits)
  moreover have "requested wi = Some ?req" using Cons.prems(3,4) by (simp add: requested_def)
  ultimately have "Suc (entries_for i ?req r) \<le> entries_for i ?req r1" by (simp add: entries_for_def)
  moreover have "entries_for i ?req r1 + length cs \<le> entries_for i ?req r'"
    using Cons.IH [OF r1' _ _ _ rest] Cons.prems(3-5) by simp
  ultimately show ?case by simp
qed

definition example_datagram_item :: work_item where
  "example_datagram_item =
     (example_item Type_RECV (Recv_cb (Some 5)))
       \<lparr>m_socket := \<lparr>sock_type = IPV4_UDP, sock_port = PTP_PORT_EVENT,
          sock_kind = UNICAST_CLIENT_SOCKET, sock_fd = 8\<rparr>\<rparr>"

theorem multishot_rearmed_while_armed_witness:
  "\<exists>r'. handle_completions ready_world (answering RE_SUBMIT) [plain_completion 2 3]
       (one_item_ring example_datagram_item) = Inr r' \<and>
     1 \<le> entries_for 0 (Receive_datagrams 8 128) r'"
proof -
  let ?w = example_datagram_item
  have w: "wi_inv ?w" "m_id ?w = 0" "m_state ?w = IN_USE" "m_work_type ?w = Type_RECV"
    "\<not> wi_is_stream ?w" "get_fd (m_socket ?w) = 8"
    using example_item_inv [of Type_RECV "Recv_cb (Some 5)"]
    by (simp_all add: example_datagram_item_def wi_inv_def wi_is_stream_def is_stream_def get_fd_def)
  note r = one_item_ring_simps [OF w(1-3)]
  have none: "w_recvmsg_validate ready_world b x m = None" for b x m by (simp add: example_world_def)
  obtain r' where r': "handle_completions ready_world (answering RE_SUBMIT) [plain_completion 2 3]
      (one_item_ring ?w) = Inr r'"
    using r w none
    by (simp add: call_callback_and_free_work_item_id_def call_recv_callback_def
        call_recv_handler_datagram_def prep_request_def prep_recv_eq Let_def)
  have "1 \<le> entries_for 0 (Receive_datagrams 8 128) r'"
    using multishot_rearmed_while_armed [OF r(1,2) w(4,5) _ r'] w(6) by simp
  then show ?thesis using r' by blast
qed

text \<open>The state after a reception for a stream socket was submitted on a ring.\<close>

lemma submit_recv_effect:
  assumes "ring_inv r" and "submit_recv w s cb r = Inr r'"
  shows "ring_inv r'" and "callbacks_run (m_ring r') = callbacks_run (m_ring r)"
    and "\<exists>wi. pool_abs (m_pool r') (next_id (m_pool r)) = Some wi \<and> m_socket wi = s \<and>
      m_work_type wi = Type_RECV \<and> m_callback wi = Recv_cb cb"
proof -
  have e: "ring_inv r' \<and> ring_ext {} r r'" by (rule submit_ops_ext(3) [OF assms])
  then show "ring_inv r'" by simp
  show "callbacks_run (m_ring r') = callbacks_run (m_ring r)"
    using client_calls_keep(1) ring_extD(3) e by blast
  have inv: "pool_inv (m_pool r)" using assms(1) by (simp add: ring_inv_def)
  obtain a p tr where al: "alloc_recv_work_item (ring_submit w) (w_raw w (m_ring r)) s cb
      ''read-from-socket'' (m_pool r) (m_ring r) = Inr (a, p, tr)" and r': "r' = put_pool r (p, tr)"
    using assms(2) by (auto simp: submit_recv_def ebind_eq_Inr)
  from ring.alloc_recv [OF inv al] show
    "\<exists>wi. pool_abs (m_pool r') (next_id (m_pool r)) = Some wi \<and> m_socket wi = s \<and>
      m_work_type wi = Type_RECV \<and> m_callback wi = Recv_cb cb"
    by (auto simp: r')
qed


lemma stream_recv_returns:
  assumes "ring_inv r" and "pool_abs (m_pool r) (cqe_user_data c) = Some v"
    and "m_work_type v = Type_RECV" and "wi_is_stream v" and "m_callback v = Recv_cb (Some g)"
    and "0 \<le> cqe_res c"
  shows "\<exists>r'. call_callback_and_free_work_item_id w (client_run w (answering Action_NONE)) c r = Inr r'"
proof -
  obtain b where b: "get_work_item (cqe_user_data c) (m_pool r) = Inr (Some b)" "item_at b r = v"
    using live_item [OF assms(1,2)] by metis
  have "pool_inv (m_pool r)" using assms(1) by (simp add: ring_inv_def)
  then obtain p where "free_work_item (cqe_user_data c) (m_pool r) = Inr p"
    using free_live [OF _ assms(2)] by metis
  then show ?thesis
    using b assms(3-6)
    by (simp add: call_callback_and_free_work_item_id_def call_recv_callback_def
        call_recv_handler_stream_def wi_call_recv_callback_def invoke_def Let_def free_item_def)
qed


section \<open>Polling\<close>

text \<open>
  One poll handles at most one completion and runs at most one callback. An empty queue changes
  nothing; any other error of the peek aborts; and the entry is given back to the kernel only
  after its handler has returned.
\<close>

theorem poll_handles_one:
  assumes "ring_inv r"
  shows "(case w_peek w (Peek_cqe # m_ring r) of (success, cqe) \<Rightarrow>
      (case poll_completion_queues w client r of
         Inl e \<Rightarrow> (if success = 0
           then call_callback_and_free_work_item_id w (client_run w client) cqe
                  (kernel_stores cqe (r\<lparr>m_ring := Peek_cqe # m_ring r\<rparr>)) = Inl e
           else success \<noteq> - EAGAIN \<and> e = Abort_call ''poll_completion_queues'')
       | Inr (e, r') \<Rightarrow> e = Error_OK \<and> ring_inv r' \<and>
          (if success = 0
           then hd (m_ring r') = Cq_advance 1 \<and>
             length (callbacks_run (m_ring r')) \<le> Suc (length (callbacks_run (m_ring r)))
           else success = - EAGAIN \<and> r' = r\<lparr>m_ring := Peek_cqe # m_ring r\<rparr>)))"
proof -
  obtain success cqe where pk: "w_peek w (Peek_cqe # m_ring r) = (success, cqe)" by fastforce
  show ?thesis
  proof (cases "poll_completion_queues w client r")
    case (Inl e)
    then show ?thesis
      using pk by (auto simp: poll_completion_queues_def poll_with_def Let_def ebind_eq_Inl split: if_splits)
  next
    case (Inr q)
    then obtain e r' where q: "poll_completion_queues w client r = Inr (e, r')" "q = (e, r')"
      by (cases q) simp
    from poll_quiet [OF assms q(1)] have p: "ring_inv r'" "e = Error_OK"
      "length (callbacks_run (m_ring r')) \<le> Suc (length (callbacks_run (m_ring r)))"
      by (auto simp: quiet_change_def)
    show ?thesis
    proof (cases "success = 0")
      case True
      then have "hd (m_ring r') = Cq_advance 1"
        using q(1) pk by (auto simp: poll_completion_queues_def poll_with_def Let_def ebind_eq_Inr)
      then show ?thesis using pk q p True by simp
    next
      case False
      then have "success = - EAGAIN \<and> r' = r\<lparr>m_ring := Peek_cqe # m_ring r\<rparr>"
        using q(1) pk by (auto simp: poll_completion_queues_def poll_with_def Let_def split: if_splits)
      then show ?thesis using pk q p False by simp
    qed
  qed
qed

theorem poll_handles_one_witness:
  "poll_completion_queues example_world (answering RE_SUBMIT) example_ring =
     Inr (Error_OK, example_ring\<lparr>m_ring := [Peek_cqe]\<rparr>)"
proof -
  have "m_ring example_ring = []" by (simp add: example_ring_def new_iouring_def)
  then show ?thesis
    using poll_handles_one [OF example_ring_inv, of example_world "answering RE_SUBMIT"]
    by (auto simp: example_world_def split: sum.splits)
qed

end
