(* ===== verification/Request_Ownership.thy ===== *)
theory Request_Ownership
  imports Ring_Lifecycle
begin

text \<open>
  Who a slot belongs to while a request is outstanding. A history variable lists the entries the
  kernel holds, each with the work item its submission left behind. The kernel side of the
  contract is \<open>io_uring\<close>'s: it completes an entry it was given, once, or, for the multishot
  reception of datagrams, as long as it flags \<open>IORING_CQE_F_MORE\<close>. The client side is the use the
  interface documents: a client submits a work item it has acquired, once, and lets go of it; and
  its functions for datagram receptions, the set \<open>D\<close>, always ask to receive again. (What happens
  when one of them does not is the subject of \<open>late_completion_reaches_next_request\<close>.)

  \<^item> \<open>tidy\<close>, \<open>rearms\<close>: the programs that keep the client's side.
  \<^item> \<open>tracked\<close>: the states of the library with the list of outstanding entries.
  \<^item> \<open>owns\<close>: each outstanding entry has its item in its slot, and no entry but a reception of
    datagrams shares a slot with another.
\<close>

section \<open>The client's side\<close>

primrec tidy :: "nat set \<Rightarrow> prog \<Rightarrow> nat set \<Rightarrow> bool" where
  "tidy D (Return act) held \<longleftrightarrow> True"
| "tidy D (Fail e) held \<longleftrightarrow> True"
| "tidy D (Submit_connect s target cb k) held \<longleftrightarrow> tidy D k held"
| "tidy D (Submit_accept s cb k) held \<longleftrightarrow> tidy D k held"
| "tidy D (Submit_recv s cb k) held \<longleftrightarrow> (is_stream s \<or> cb \<in> Some ` D) \<and> tidy D k held"
| "tidy D (Submit_close s cb k) held \<longleftrightarrow> tidy D k held"
| "tidy D (Ackuire_send_workitem s k) held \<longleftrightarrow> (\<forall>a. tidy D (k a) (insert a held))"
| "tidy D (Get_send_packet a k) held \<longleftrightarrow> a \<in> held \<and> tidy D k held"
| "tidy D (Append_data a data k) held \<longleftrightarrow> a \<in> held \<and> tidy D k held"
| "tidy D (Submit_stream_data a cb k) held \<longleftrightarrow> a \<in> held \<and> tidy D k (held - {a})"
| "tidy D (Submit_packet a params cb k) held \<longleftrightarrow> a \<in> held \<and> tidy D k (held - {a})"
| "tidy D (Submit_item a k) held \<longleftrightarrow> False"
| "tidy D (New_socket type port kind k) held \<longleftrightarrow> (\<forall>s. tidy D (k s) held)"
| "tidy D (New_accepted_socket res k) held \<longleftrightarrow> (\<forall>s. tidy D (k s) held)"

lemma tidy_keeps_off: "tidy D p held \<Longrightarrow> b \<notin> held \<Longrightarrow> keeps_off b p"
  by (induction p arbitrary: held) fastforce+

text \<open>Programs that answer \<open>RE_SUBMIT\<close> whenever they answer.\<close>

primrec rearms :: "prog \<Rightarrow> bool" where
  "rearms (Return act) \<longleftrightarrow> act = RE_SUBMIT"
| "rearms (Fail e) \<longleftrightarrow> True"
| "rearms (Submit_connect s target cb k) \<longleftrightarrow> rearms k"
| "rearms (Submit_accept s cb k) \<longleftrightarrow> rearms k"
| "rearms (Submit_recv s cb k) \<longleftrightarrow> rearms k"
| "rearms (Submit_close s cb k) \<longleftrightarrow> rearms k"
| "rearms (Ackuire_send_workitem s k) \<longleftrightarrow> (\<forall>a. rearms (k a))"
| "rearms (Get_send_packet a k) \<longleftrightarrow> rearms k"
| "rearms (Append_data a data k) \<longleftrightarrow> rearms k"
| "rearms (Submit_stream_data a cb k) \<longleftrightarrow> rearms k"
| "rearms (Submit_packet a params cb k) \<longleftrightarrow> rearms k"
| "rearms (Submit_item a k) \<longleftrightarrow> rearms k"
| "rearms (New_socket type port kind k) \<longleftrightarrow> (\<forall>s. rearms (k s))"
| "rearms (New_accepted_socket res k) \<longleftrightarrow> (\<forall>s. rearms (k s))"

lemma rearms_run: "run_prog w p r = Inr (act, r') \<Longrightarrow> rearms p \<Longrightarrow> act = RE_SUBMIT"
  by (induction p arbitrary: r) (auto simp: ebind_eq_Inr)

definition tidy_client :: "nat set \<Rightarrow> client \<Rightarrow> bool" where
  "tidy_client D client \<longleftrightarrow>
     (\<forall>f e tr. tidy D (client f e tr) {} \<and> (f \<in> D \<longrightarrow> rearms (client f e tr)))"

section \<open>Outstanding entries\<close>

type_synonym pending = "(sqe \<times> work_item) list"

definition pending_ids :: "pending \<Rightarrow> nat list" where
  "pending_ids ps = map (\<lambda>q. sqe_user_data (fst q)) ps"

lemma pending_ids_simps [simp]:
  "pending_ids [] = []" "pending_ids (q # ps) = sqe_user_data (fst q) # pending_ids ps"
  "pending_ids (ps @ qs) = pending_ids ps @ pending_ids qs"
  by (simp_all add: pending_ids_def)

text \<open>
  A reception of datagrams is prepared anew each time it is armed, which leaves an item that asks
  for the same.
\<close>

definition datagram :: "work_item \<Rightarrow> bool" where
  "datagram wi \<longleftrightarrow> m_work_type wi = Type_RECV \<and> \<not> wi_is_stream wi"

definition like :: "work_item \<Rightarrow> work_item \<Rightarrow> bool" where
  "like v wi \<longleftrightarrow>
     v = wi \<or>
     datagram wi \<and> m_work_type v = Type_RECV \<and> m_id v = m_id wi \<and> m_socket v = m_socket wi \<and>
     m_callback v = m_callback wi"

lemma like_refl [simp]: "like v v"
  by (simp add: like_def)

lemma likeD:
  assumes "like v wi"
  shows "m_id v = m_id wi" and "m_socket v = m_socket wi" and "m_callback v = m_callback wi"
    and "m_work_type v = m_work_type wi" and "datagram v = datagram wi"
    and "callback_of v = callback_of wi" and "requested v = requested wi"
    and "datagram wi \<or> v = wi"
  using assms by (auto simp: like_def datagram_def wi_is_stream_def callback_of_def requested_def)

lemma like_trans: "like u v \<Longrightarrow> like v wi \<Longrightarrow> like u wi"
  by (auto simp: like_def datagram_def wi_is_stream_def)

definition singles :: "pending \<Rightarrow> pending" where
  "singles ps = filter (\<lambda>q. \<not> datagram (snd q)) ps"

lemma singles_simps [simp]:
  "singles [] = []" "singles (ps @ qs) = singles ps @ singles qs"
  "singles (q # ps) = (if datagram (snd q) then singles ps else q # singles ps)"
  "q \<in> set (singles ps) \<longleftrightarrow> q \<in> set ps \<and> \<not> datagram (snd q)"
  by (simp_all add: singles_def)

definition fits :: "nat set \<Rightarrow> sqe \<times> work_item \<Rightarrow> bool" where
  "fits D q \<longleftrightarrow>
     kernel_view (fst q) = requested (snd q) \<and> m_id (snd q) = sqe_user_data (fst q) \<and>
     (datagram (snd q) \<longrightarrow> callback_of (snd q) \<in> Some ` D)"

lemma fits_like: "like v wi \<Longrightarrow> fits D (s, v) \<longleftrightarrow> fits D (s, wi)"
  using likeD [of v wi] by (simp add: fits_def)

text \<open>An object in the slot that carries its number.\<close>

definition seated :: "iouring \<Rightarrow> nat \<Rightarrow> bool" where
  "seated r a \<longleftrightarrow>
     a < length (wp_heap (m_pool r)) \<and>
     m_id (item_at a r) < length (m_work_items (m_pool r)) \<and>
     m_work_items (m_pool r) ! m_id (item_at a r) = Some a"

lemma seated_pool: "seated r a \<Longrightarrow> pool_abs (m_pool r) (m_id (item_at a r)) = Some (item_at a r)"
  by (simp add: seated_def pool_abs_def item_at_def)

lemma seated_ext:
  assumes "seated r a" and "ring_ext A r r'"
  shows "seated r' a" and "m_id (item_at a r') = m_id (item_at a r)"
    and "m_socket (item_at a r') = m_socket (item_at a r)"
proof -
  note x = ring_extD [OF assms(2)]
  have a: "a < length (wp_heap (m_pool r))" using assms(1) by (simp add: seated_def)
  show id: "m_id (item_at a r') = m_id (item_at a r)"
    and "m_socket (item_at a r') = m_socket (item_at a r)"
    using x(7) [OF a] by (simp_all add: same_identity_def item_at_def)
  show "seated r' a" using assms(1) id x(4-6) by (auto simp: seated_def)
qed

definition owns :: "nat set \<Rightarrow> nat set \<Rightarrow> iouring \<Rightarrow> pending \<Rightarrow> bool" where
  "owns D held r ps \<longleftrightarrow>
     ring_inv r \<and> distinct (pending_ids (singles ps)) \<and>
     (\<forall>q \<in> set ps. \<exists>v. pool_abs (m_pool r) (sqe_user_data (fst q)) = Some v \<and> like v (snd q) \<and>
        fits D q) \<and>
     (\<forall>a \<in> held. seated r a \<and> m_id (item_at a r) \<notin> set (pending_ids ps))"

lemma ownsD:
  assumes "owns D held r ps"
  shows "ring_inv r" and "distinct (pending_ids (singles ps))"
    and "\<And>q. q \<in> set ps \<Longrightarrow>
      \<exists>v. pool_abs (m_pool r) (sqe_user_data (fst q)) = Some v \<and> like v (snd q)"
    and "\<And>q. q \<in> set ps \<Longrightarrow> fits D q"
    and "\<And>a. a \<in> held \<Longrightarrow> seated r a" 
    and "\<And>a. a \<in> held \<Longrightarrow> m_id (item_at a r) \<notin> set (pending_ids ps)"
  using assms by (auto simp: owns_def)

lemma owns_mono: "owns D held r ps \<Longrightarrow> held' \<subseteq> held \<Longrightarrow> owns D held' r ps"
  by (auto simp: owns_def)

lemma distinct_remove1_ids:
  "distinct (pending_ids xs) \<Longrightarrow> distinct (pending_ids (remove1 q xs))"
  by (auto simp: pending_ids_def distinct_map intro: inj_on_diff)

lemma owns_fewer:
  assumes "owns D held r ps"
  shows "owns D held r (remove1 q ps)"
proof -
  have "singles (remove1 q ps) = remove1 q (singles ps)" by (simp add: singles_def filter_remove1)
  moreover have "set (pending_ids (remove1 q ps)) \<subseteq> set (pending_ids ps)"
    using set_remove1_subset [of q ps] by (auto simp: pending_ids_def)
  ultimately show ?thesis
    using ownsD [OF assms] set_remove1_subset [of q ps] distinct_remove1_ids [of "singles ps" q]
    by (auto simp: owns_def)
qed

text \<open>The entries of a step, with the items now in their slots.\<close>

definition with_items :: "iouring \<Rightarrow> sqe list \<Rightarrow> pending" where
  "with_items r new = map (\<lambda>s. (s, the (pool_abs (m_pool r) (sqe_user_data s)))) new"

lemma with_items_simps [simp]:
  "with_items r [] = []"
  "with_items r (s # new) = (s, the (pool_abs (m_pool r) (sqe_user_data s))) # with_items r new"
  "with_items r (new1 @ new2) = with_items r new1 @ with_items r new2"
  "with_items (r\<lparr>m_ring := tr\<rparr>) new = with_items r new"
  by (simp_all add: with_items_def)

text \<open>Entries keep their rights when their items are looked at again.\<close>

lemma owns_again:
  assumes "owns D held r (with_items r0 new @ ps)"
  shows "owns D held r (with_items r new @ ps)"
proof -
  note o = ownsD [OF assms]
  have v: "like (the (pool_abs (m_pool r) (sqe_user_data s))) (the (pool_abs (m_pool r0) (sqe_user_data s))) \<and>
      pool_abs (m_pool r) (sqe_user_data s) \<noteq> None"
    if "s \<in> set new" for s
    using o(3) [of "(s, the (pool_abs (m_pool r0) (sqe_user_data s)))"] that
    by (auto simp: with_items_def)
  have "pending_ids (singles (with_items r new)) = pending_ids (singles (with_items r0 new))"
    using v [THEN conjunct1, THEN likeD(5)] by (induction new) simp_all
  moreover have "pending_ids (with_items r new) = pending_ids (with_items r0 new)"
    by (simp add: with_items_def pending_ids_def)
  moreover have "pool_abs (m_pool r) (sqe_user_data s) = Some (the (pool_abs (m_pool r) (sqe_user_data s))) \<and>
      fits D (s, the (pool_abs (m_pool r) (sqe_user_data s)))" if "s \<in> set new" for s
    using o(4) [of "(s, the (pool_abs (m_pool r0) (sqe_user_data s)))"] v [OF that] that
    by (auto simp: with_items_def fits_like)
  ultimately show ?thesis
    using o like_refl unfolding owns_def by (fastforce simp: with_items_def)
qed

section \<open>Steps that only add\<close>

lemma owns_ext:
  assumes "owns D held r ps" and "ring_inv r'" and "ring_ext A r r'"
    and "\<And>a. a \<in> A \<Longrightarrow> a \<in> held \<or> like (item_at a r') (item_at a r)"
  shows "owns D held r' ps"
proof -
  note o = ownsD [OF assms(1)] and x = ring_extD [OF assms(3)]
  have "\<exists>v. pool_abs (m_pool r') (sqe_user_data (fst q)) = Some v \<and> like v (snd q)"
    if q: "q \<in> set ps" for q
  proof -
    let ?i = "sqe_user_data (fst q)"
    obtain b where b: "?i < length (m_work_items (m_pool r))" "m_work_items (m_pool r) ! ?i = Some b"
      "like (item_at b r) (snd q)"
      using o(3) [OF q] by (auto simp: pool_abs_Some item_at_def)
    have p: "b < length (wp_heap (m_pool r))" "m_id (item_at b r) = ?i"
      using pool_invD(1) [OF _ b(1,2)] o(1) by (simp_all add: ring_inv_def item_at_def)
    have "b \<notin> held" using o(6) [of b] p(2) q by (auto simp: pending_ids_def)
    then have "like (item_at b r') (item_at b r)"
      using assms(4) [of b] x(8) [OF p(1)] by (cases "b \<in> A") (auto simp: item_at_def)
    then show ?thesis
      using like_trans b(3) x(4) x(6) [OF b(1,2)] b(1) by (auto simp: pool_abs_Some item_at_def)
  qed
  moreover have "seated r' a \<and> m_id (item_at a r') \<notin> set (pending_ids ps)" if a: "a \<in> held" for a
    using seated_ext [OF o(5) [OF a] assms(3)] o(6) [OF a] by simp
  ultimately show ?thesis using assms(2) o(2,4) by (simp add: owns_def)
qed

lemma owns_new_ring:
  assumes "owns D held r ps" and "submitted tr = submitted (m_ring r)"
  shows "owns D held (r\<lparr>m_ring := tr\<rparr>) ps"
  using assms by (simp add: owns_def ring_inv_def entries_ok_def seated_def item_at_def)

lemma owns_alloc:
  assumes "owns D held r ps" and "internal_alloc_work_item raw s d (m_pool r) = Inr (a, p)"
  shows "owns D (insert a held) (put_pool r (p, m_ring r)) ps" and "a \<notin> held"
    and "m_socket (item_at a (put_pool r (p, m_ring r))) = s"
proof -
  let ?r = "put_pool r (p, m_ring r)"
  note o = ownsD [OF assms(1)]
  have inv: "pool_inv (m_pool r)" using o(1) by (simp add: ring_inv_def)
  note e = alloc_ext [OF o(1) assms(2)] and ab = alloc_abs [OF inv assms(2)]
  show "a \<notin> held" using o(5) [of a] e(3) by (auto simp: seated_def)
  show "m_socket (item_at a ?r) = s" using ab(4) by (simp add: item_at_def)
  have id: "m_id (item_at a ?r) = next_id (m_pool r)" using ab(4) by (simp add: item_at_def)
  have "next_id (m_pool r) < length (m_work_items p)"
    using ab(5) next_id_fresh [OF inv] by (cases "m_free_ids (m_pool r)") (auto simp: next_id_def)
  then have "seated ?r a" using id ab(6) e(4) by (simp add: seated_def)
  moreover have "next_id (m_pool r) \<notin> set (pending_ids ps)"
    using o(3) next_id_fresh(2) [OF inv] by (fastforce simp: pending_ids_def)
  ultimately show "owns D (insert a held) ?r ps"
    using owns_ext [OF assms(1) e(1,2)] id by (simp add: owns_def)
qed

section \<open>Handing an item to the ring\<close>

lemma requested_prepared:
  assumes "wi_inv v" and "prep_request v = Inr (wi, s)"
  shows "kernel_view s = requested wi"
proof -
  have "kernel_view s = requested v"
    using requested_simple [OF assms] requested_sendmsg [OF assms(1)] assms(2)
    by (cases "m_work_type v = Type_SEND_WORKPACKET") (auto simp: prep_request_def)
  moreover have "requested v = requested wi"
  proof (cases "m_work_type v")
    case Type_SEND_WORKPACKET
    then have w: "init_send_msg v = Inr wi"
      using assms(2) by (auto simp: prep_request_def prep_send_workpacket_def outcome_simps)
    have "m_socket wi = m_socket v \<and> m_work_type wi = m_work_type v \<and> m_params wi = m_params v \<and>
        m_send_packet wi = m_send_packet v"
      using w unfolding init_send_msg_eq [OF assms(1) Type_SEND_WORKPACKET] Let_def
      by (simp split: if_splits) auto
    then show ?thesis by (simp add: requested_def Type_SEND_WORKPACKET split: sum.split)
  next
    case Type_RECV
    then show ?thesis
      using assms(2)
      by (auto simp: prep_request_def prep_recv_eq requested_def recv_item_def wi_is_stream_def Let_def)
  qed (use assms(2) in \<open>auto simp: prep_request_def prep_close_eq prep_accept_eq prep_connect_eq
      prep_send_stream_eq requested_def Let_def split: if_splits\<close>)
  ultimately show ?thesis by simp
qed

text \<open>A member function that ends in the ring's \<open>submit\<close> on the same object.\<close>

definition hands_on :: "world \<Rightarrow> io_trace io_submit \<Rightarrow> bool" where
  "hands_on w f \<longleftrightarrow>
     (\<forall>wi tr wi' tr'. wi_inv wi \<longrightarrow> f wi tr = Inr (wi', tr') \<longrightarrow>
        (\<exists>v. wi_inv v \<and> same_identity wi v \<and> ring_submit w v tr = Inr (wi', tr')))"

lemma hands_on_ring [simp]: "hands_on w (ring_submit w)"
  using same_identity_refl by (auto simp: hands_on_def)

lemma hands_on_forwards: "forwards (ring_submit w) f t cb \<Longrightarrow> hands_on w f"
  unfolding hands_on_def forwards_def by metis

lemmas hands_on_members [simp] = forwards_members [THEN hands_on_forwards]

lemma hands_on_member:
  assumes "hands_on w f" and "wi_inv wi" and "f wi tr = Inr (wi', tr')"
  shows "wi_inv wi'" and "same_identity wi wi'" and "client_calls tr tr'"
    and "\<exists>e. submitted tr' = e # submitted tr \<and> sqe_user_data e = m_id wi \<and>
      kernel_view e = requested wi'"
proof -
  obtain v where v: "wi_inv v" "same_identity wi v" "ring_submit w v tr = Inr (wi', tr')"
    using assms unfolding hands_on_def by blast
  note d = ring_memberD [OF ring_member_submit v(1,3)]
  show "wi_inv wi'" "client_calls tr tr'" by (rule d(1), rule d(3))
  show "same_identity wi wi'" by (rule same_identity_trans [OF v(2) d(2)])
  obtain e where e: "prep_request v = Inr (wi', e)" "submitted tr' = e # submitted tr"
    "sqe_user_data e = m_id v"
    using ring_submit_trace [OF v(1,3)] by blast
  then show "\<exists>e. submitted tr' = e # submitted tr \<and> sqe_user_data e = m_id wi \<and>
      kernel_view e = requested wi'"
    using requested_prepared [OF v(1) e(1)] v(2) by (auto simp: same_identity_def)
qed

lemma hands_on_ring_member: "hands_on w f \<Longrightarrow> ring_member f"
  unfolding ring_member_def using hands_on_member by (metis set_ConsD)

lemma call_item_Inr:
  assumes "call_item f a r = Inr r'"
  obtains wi tr where "f (item_at a r) (m_ring r) = Inr (wi, tr)"
    and "r' = put_pool r (heap_write a wi (m_pool r), tr)" and "item_at a r' = wi"
    and "a < length (wp_heap (m_pool r))" and "m_ring r' = tr"
  using assms that
  by (auto simp: call_item_def on_item_def outcome_simps item_at_def heap_write_nth split: if_splits)

lemma item_at_inv: "ring_inv r \<Longrightarrow> a < length (wp_heap (m_pool r)) \<Longrightarrow> wi_inv (item_at a r)"
  using pool_invD(4) by (simp add: ring_inv_def item_at_def)

text \<open>
  An item handed on leaves one entry. The item is one the client holds, or one whose reception of
  datagrams is armed again.
\<close>

lemma owns_submit:
  assumes "owns D held r ps" and "seated r a" and "hands_on w f" and "call_item f a r = Inr r'"
    and "a \<in> held \<or> datagram (item_at a r') \<and> like (item_at a r') (item_at a r)"
    and "datagram (item_at a r') \<Longrightarrow> callback_of (item_at a r') \<in> Some ` D"
  shows "\<exists>e. submitted (m_ring r') = e # submitted (m_ring r) \<and>
    owns D (held - {a}) r' (with_items r' [e] @ ps) \<and> sqe_user_data e = m_id (item_at a r)"
proof -
  note o = ownsD [OF assms(1)]
  note c = call_item_ext [OF hands_on_ring_member [OF assms(3)] o(1) assms(4)]
  have o': "owns D held r' ps"
    by (rule owns_ext [OF assms(1) conjunct1 [OF c] conjunct2 [OF c]]) (use assms(5) in auto)
  note p = ownsD [OF o'] and seat = seated_ext [OF assms(2) conjunct2 [OF c]]
  obtain wi tr where f: "f (item_at a r) (m_ring r) = Inr (wi, tr)" "item_at a r' = wi"
    "m_ring r' = tr" "a < length (wp_heap (m_pool r))"
    using call_item_Inr [OF assms(4)] by metis
  obtain e where e: "submitted tr = e # submitted (m_ring r)"
    "sqe_user_data e = m_id (item_at a r)" "kernel_view e = requested wi"
    using hands_on_member(4) [OF assms(3) item_at_inv [OF o(1) f(4)] f(1)] by blast
  have id: "m_id (item_at a r') = sqe_user_data e" using seat(2) e(2) by simp
  have abs: "pool_abs (m_pool r') (sqe_user_data e) = Some (item_at a r')"
    using seated_pool [OF seat(1)] id by simp
  have "m_id (item_at b r') \<noteq> sqe_user_data e" if "b \<in> held" "b \<noteq> a" for b
    using p(5) [OF that(1)] seat(1) that(2) id by (auto simp: seated_def)
  moreover have "sqe_user_data e \<notin> set (pending_ids (singles ps)) \<or> datagram (item_at a r')"
    using p(6) [of a] assms(5) id by (fastforce simp: pending_ids_def)
  ultimately have "owns D (held - {a}) r' ((e, item_at a r') # ps)"
    using p abs id f(2) e(3) assms(6) by (auto simp: owns_def fits_def)
  moreover have "with_items r' [e] = [(e, item_at a r')]" using abs by simp
  ultimately show ?thesis using e(1,2) f(3) by (intro exI [of _ e]) simp
qed

lemma owns_edit:
  assumes "owns D held r ps" and "a \<in> held" and "ring_member f" and "call_item f a r = Inr r'"
  shows "owns D held r' ps"
proof -
  note c = call_item_ext [OF assms(3) ownsD(1) [OF assms(1)] assms(4)]
  show ?thesis
    by (rule owns_ext [OF assms(1) conjunct1 [OF c] conjunct2 [OF c]]) (use assms(2) in simp)
qed

text \<open>An item allocated and handed on at once.\<close>

lemma submitted_type:
  assumes "ring_inv r" and "forwards (ring_submit w) f t cb" and "call_item f a r = Inr r'"
  shows "m_work_type (item_at a r') = t" and "m_callback (item_at a r') = cb"
proof -
  obtain wi tr where f: "f (item_at a r) (m_ring r) = Inr (wi, tr)" "item_at a r' = wi"
    "a < length (wp_heap (m_pool r))"
    using call_item_Inr [OF assms(3)] by metis
  then show "m_work_type (item_at a r') = t" "m_callback (item_at a r') = cb"
    using ring.submits_forwards [OF assms(2)] item_at_inv [OF assms(1)] by (auto simp: submits_def)
qed

lemma owns_alloc_submit:
  assumes "owns D held r ps" and "forwards (ring_submit w) f t cb"
    and "internal_alloc_work_item raw s d (m_pool r) = Inr (a, p)"
    and "call_item f a (put_pool r (p, m_ring r)) = Inr r'"
    and "t = Type_RECV \<Longrightarrow> is_stream s \<or> (\<exists>n \<in> D. cb = Recv_cb (Some n))"
  shows "\<exists>e. submitted (m_ring r') = e # submitted (m_ring r) \<and> owns D held r' (with_items r' [e] @ ps)"
proof -
  let ?r1 = "put_pool r (p, m_ring r)"
  note o = owns_alloc [OF assms(1,3)] and h = hands_on_forwards [OF assms(2)]
  note c = call_item_ext [OF hands_on_ring_member [OF h] ownsD(1) [OF o(1)] assms(4)]
  have seat: "seated ?r1 a" by (rule ownsD(5) [OF o(1)]) simp
  have "m_socket (item_at a r') = s" using seated_ext(3) [OF seat conjunct2 [OF c]] o(3) by simp
  moreover note submitted_type [OF ownsD(1) [OF o(1)] assms(2,4)]
  ultimately have "datagram (item_at a r') \<Longrightarrow> callback_of (item_at a r') \<in> Some ` D"
    using assms(5) by (auto simp: datagram_def wi_is_stream_def callback_of_def)
  from owns_submit [OF o(1) seat h assms(4) _ this] obtain e where
    "submitted (m_ring r') = e # submitted (m_ring r)"
    "owns D (insert a held - {a}) r' (with_items r' [e] @ ps)"
    by auto
  then show ?thesis using owns_mono [of D "insert a held - {a}" r' _ held] o(2) by blast
qed

section \<open>A whole program\<close>

text \<open>The entries of a first step keep their items through a second.\<close>

lemma owns_then:
  assumes "submitted (m_ring r1) = new1 @ submitted (m_ring r)"
    and "\<exists>new. submitted (m_ring r2) = new @ submitted (m_ring r1) \<and>
      owns D held r2 (with_items r2 new @ with_items r1 new1 @ ps)"
  shows "\<exists>new. submitted (m_ring r2) = new @ submitted (m_ring r) \<and>
    owns D held r2 (with_items r2 new @ ps)"
proof -
  obtain new2 where n: "submitted (m_ring r2) = new2 @ submitted (m_ring r1)"
    "owns D held r2 (with_items r2 new2 @ with_items r1 new1 @ ps)"
    using assms(2) by blast
  have "owns D held r2 (with_items r1 new1 @ (with_items r2 new2 @ ps))"
    using n(2) unfolding owns_def by (auto simp: Un_ac)
  from owns_again [OF this] have "owns D held r2 (with_items r2 (new2 @ new1) @ ps)"
    unfolding owns_def by (auto simp: Un_ac)
  then show ?thesis using n(1) assms(1) by (intro exI [of _ "new2 @ new1"]) simp
qed

lemma owns_then_one:
  assumes "\<exists>e. submitted (m_ring r1) = e # submitted (m_ring r) \<and>
      owns D held r1 (with_items r1 [e] @ ps)"
    and "\<And>qs. owns D held r1 qs \<Longrightarrow> \<exists>new. submitted (m_ring r2) = new @ submitted (m_ring r1) \<and>
      owns D left r2 (with_items r2 new @ qs)"
  shows "\<exists>new. submitted (m_ring r2) = new @ submitted (m_ring r) \<and>
    owns D left r2 (with_items r2 new @ ps)"
proof -
  obtain e where e: "submitted (m_ring r1) = [e] @ submitted (m_ring r)"
    "owns D held r1 (with_items r1 [e] @ ps)"
    using assms(1) by auto
  show ?thesis by (rule owns_then [OF e(1) assms(2) [OF e(2)]])
qed

text \<open>What \<open>tidy\<close> says of the rest of a program after one call.\<close>

lemma tidy_calls:
  "new_request w p = Some (s, d, t, cb, f, k) \<Longrightarrow> tidy D p held \<Longrightarrow>
     tidy D k held \<and> (t = Type_RECV \<longrightarrow> is_stream s \<or> (\<exists>n \<in> D. cb = Recv_cb (Some n)))"
  "packet_edit p = Some (a, g, k) \<Longrightarrow> tidy D p held \<Longrightarrow> a \<in> held \<and> tidy D k held"
  "item_request w p = Some (a, t, cb, f, k) \<Longrightarrow> tidy D p held \<Longrightarrow>
     a \<in> held \<and> tidy D k (held - {a}) \<and> t \<noteq> Type_RECV"
  by (cases p; auto)+

text \<open>
  Running a tidy program: its entries get their items' slots, the earlier ones keep theirs, and the
  objects that are someone else's stay so.
\<close>

lemma tidy_run:
  assumes "run_prog w p r = Inr (act, r')" and "tidy D p held" and "owns D (held \<union> frame) r ps"
    and "held \<inter> frame = {}"
  shows "\<exists>new. submitted (m_ring r') = new @ submitted (m_ring r) \<and>
    owns D frame r' (with_items r' new @ ps)"
  using assms(1) ownsD(1) [OF assms(3)] assms(2-4)
proof (induction arbitrary: held ps rule: run_prog_induct)
  case Return
  then show ?case using owns_mono [OF Return.prems(2), of frame] by simp
next
  case (Request p s d t cb f k r a q r1)
  note t = tidy_calls(1) [OF Request.hyps(1) Request.prems(1)]
  have one: "\<exists>e. submitted (m_ring r1) = e # submitted (m_ring r) \<and>
      owns D (held \<union> frame) r1 (with_items r1 [e] @ ps)"
    using owns_alloc_submit [OF Request.prems(2) request_forwards(1) [OF Request.hyps(1)]
        Request.hyps(3,4)] t by blast
  show ?case
    by (rule owns_then_one [OF one Request.IH]) (use t Request.prems(3) in auto)
next
  case (Acquire s k r a q)
  note o = owns_alloc [OF Acquire.prems(2) Acquire.hyps(2)]
  have "owns D (insert a held \<union> frame) (put_pool r (q, m_ring r)) ps" using o(1) by simp
  from Acquire.IH [OF _ this] show ?case using Acquire.prems(1,3) o(2) by auto
next
  case (Edit p a g k r r1)
  note t = tidy_calls(2) [OF Edit.hyps(1) Edit.prems(1)]
  have "submitted (m_ring r1) = submitted (m_ring r)"
    using Edit.hyps(3) by (auto simp: call_item_def on_item_def outcome_simps split: if_splits)
  moreover have "owns D (held \<union> frame) r1 ps"
    using owns_edit [OF Edit.prems(2) _ edit_member [OF Edit.hyps(1)] Edit.hyps(3)] t by simp
  ultimately show ?case using Edit.IH [of held ps] t Edit.prems(3) by simp
next
  case (Item p a t cb f k r r1)
  note t = tidy_calls(3) [OF Item.hyps(1) Item.prems(1)]
    and fw = request_forwards(2) [OF Item.hyps(1)]
  have a: "a \<in> held \<union> frame" and keep: "held \<union> frame - {a} = (held - {a}) \<union> frame"
    using t Item.prems(3) by auto
  have "\<not> datagram (item_at a r1)"
    using submitted_type(1) [OF Item.hyps(2) fw Item.hyps(3)] t by (simp add: datagram_def)
  then have one: "\<exists>e. submitted (m_ring r1) = e # submitted (m_ring r) \<and>
      owns D ((held - {a}) \<union> frame) r1 (with_items r1 [e] @ ps)"
    using owns_submit [OF Item.prems(2) ownsD(5) [OF Item.prems(2) a] hands_on_forwards [OF fw]
        Item.hyps(3)] a keep by auto
  show ?case
    by (rule owns_then_one [OF one Item.IH [of "held - {a}"]]) (use t Item.prems(3) in auto)
next
  case (Again a k r r1)
  then show ?case by simp
next
  case (Socket type port kind k r s tr)
  have e: "submitted tr = submitted (m_ring r)" using new_socket_calls [OF Socket.hyps(2)] by simp
  show ?case
    using Socket.IH [OF _ owns_new_ring [OF Socket.prems(2) e]] Socket.prems(1,3) e by simp
next
  case (Accepted res k r s)
  show ?case using Accepted.IH [OF _ Accepted.prems(2,3)] Accepted.prems(1) by simp
qed

section \<open>A completion\<close>

text \<open>
  While the library works on a completion, the object \<open>a\<close> of that completion is its own (\<open>held\<close> is
  \<open>{a}\<close>), or, when it stays armed, still the kernel's as well (\<open>held\<close> is empty): what runs in between gives
  the new entries their slots and leaves the object as it is.
\<close>

definition served :: "nat set \<Rightarrow> nat set \<Rightarrow> nat \<Rightarrow> iouring \<Rightarrow> pending \<Rightarrow> iouring \<Rightarrow> bool" where
  "served D held a r ps r' \<longleftrightarrow>
     (\<exists>new. submitted (m_ring r') = new @ submitted (m_ring r) \<and>
        owns D held r' (with_items r' new @ ps)) \<and>
     seated r' a \<and> m_id (item_at a r') = m_id (item_at a r) \<and>
     m_socket (item_at a r') = m_socket (item_at a r) \<and>
     m_work_type (item_at a r') = m_work_type (item_at a r) \<and>
     m_callback (item_at a r') = m_callback (item_at a r)"

lemma served_refl: "owns D held r ps \<Longrightarrow> seated r a \<Longrightarrow> served D held a r ps r"
  by (simp add: served_def)

lemma served_new_ring:
  assumes "served D held a r ps r'" and "submitted tr = submitted (m_ring r')"
  shows "served D held a r ps (r'\<lparr>m_ring := tr\<rparr>)"
proof -
  obtain new where "submitted (m_ring r') = new @ submitted (m_ring r)"
    "owns D held r' (with_items r' new @ ps)"
    using assms(1) by (auto simp: served_def)
  then show ?thesis
    using owns_new_ring [OF _ assms(2)] assms
    by (fastforce simp: served_def with_items_def item_at_def seated_def)
qed

lemma run_callback_served:
  assumes "owns D held r ps" and "seated r a" and "tidy_client D client"
    and "run_callback (client_run w client) call r = Inr (act, r')"
  shows "served D held a r ps r'" and "\<exists>f e. call = Inr (f, e) \<and> (f \<in> D \<longrightarrow> act = RE_SUBMIT)"
proof -
  have inv: "ring_inv r" and a: "a < length (wp_heap (m_pool r))"
    using ownsD(1) [OF assms(1)] assms(2) by (auto simp: seated_def)
  obtain f e where fe: "call = Inr (f, e)"
    and run: "run_prog w (client f e (m_ring r)) (r\<lparr>m_ring := Callback f e # m_ring r\<rparr>) = Inr (act, r')"
    using assms(4) by (auto simp: run_callback_def client_run_def ebind_eq_Inr)
  have t: "tidy D (client f e (m_ring r)) {}" and d: "f \<in> D \<longrightarrow> rearms (client f e (m_ring r))"
    using assms(3) by (auto simp: tidy_client_def)
  show "\<exists>f e. call = Inr (f, e) \<and> (f \<in> D \<longrightarrow> act = RE_SUBMIT)"
    using fe d rearms_run [OF run] by blast
  have o: "owns D ({} \<union> held) (r\<lparr>m_ring := Callback f e # m_ring r\<rparr>) ps"
    using owns_new_ring [OF assms(1), of "Callback f e # m_ring r"] by simp
  have "a \<notin> used_by client (m_ring r) (f, e)"
    using tidy_keeps_off [OF t] by (simp add: used_by_def)
  then have c: "cb_ext (used_by client (m_ring r) (f, e)) [(f, e)] r r'" "item_at a r' = item_at a r"
    using run_callback_ext [OF inv assms(4)] fe cb_extD(10) [OF _ a] by auto
  then have "seated r' a"
    using assms(2) cb_extD(6-8) [OF c(1)] by (fastforce simp: seated_def)
  then show "served D held a r ps r'"
    using tidy_run [OF run t o] c(2) by (simp add: served_def)
qed

lemma one_shot_served:
  assumes "owns D held r ps" and "seated r a" and "tidy_client D client"
  shows "call_close_callback (client_run w client) a cqe r = Inr r' \<Longrightarrow> served D held a r ps r'"
    and "call_connect_callback (client_run w client) a cqe r = Inr r' \<Longrightarrow> served D held a r ps r'"
    and "call_accept_callback (client_run w client) a cqe r = Inr r' \<Longrightarrow> served D held a r ps r'"
  using run_callback_served(1) [OF assms] served_refl [OF assms(1,2)]
  by (auto simp: call_close_callback_def call_connect_callback_def call_accept_callback_def Let_def
      ebind_eq_Inr split: if_splits)

lemma send_served:
  assumes "owns D {a} r ps" and "tidy_client D client"
    and "call_send_callback (client_run w client) a cqe r = Inr r'"
  shows "served D {a} a r ps r'"
proof (cases "hushed cqe")
  case True
  then have "r' = r" using assms(3) by (auto simp: call_send_callback_def hushed_def)
  then show ?thesis using served_refl [OF assms(1)] ownsD(5) [OF assms(1)] by simp
next
  case False
  then obtain act r1 where r1: "run_callback (client_run w client)
      (wi_call_send_callback (cqe_res cqe) (item_at a r)) r = Inr (act, r1)"
    and clean: "call_item (\<lambda>wi tr. Inr (clean_send_packet wi, tr)) a r1 = Inr r'"
    using assms(3) by (auto simp: call_send_callback_def hushed_def ebind_eq_Inr split: if_splits)
  have s: "served D {a} a r ps r1"
    by (rule run_callback_served(1) [OF assms(1) _ assms(2) r1]) (use ownsD(5) [OF assms(1)] in simp)
  then obtain new where new: "submitted (m_ring r1) = new @ submitted (m_ring r)"
    "owns D {a} r1 (with_items r1 new @ ps)"
    by (auto simp: served_def)
  have o: "owns D {a} r' (with_items r1 new @ ps)"
    by (rule owns_edit [OF new(2) _ ring_member_packet(3) clean]) simp
  have "item_at a r' = clean_send_packet (item_at a r1)" "submitted (m_ring r') = submitted (m_ring r1)"
    by (rule call_item_Inr [OF clean], simp)+
  then show ?thesis
    using s new(1) owns_again [OF o] ownsD(5) [OF o]
    by (auto simp: served_def clean_send_packet_def)
qed

text \<open>A reception: a function for datagrams asks to receive again.\<close>

lemma recv_served:
  assumes "owns D held r ps" and "seated r a" and "tidy_client D client"
    and "call_recv_callback w (client_run w client) a cqe r = Inr (act, r')"
    and "datagram (item_at a r) \<Longrightarrow> callback_of (item_at a r) \<in> Some ` D"
    and "m_work_type (item_at a r) = Type_RECV"
  shows "served D held a r ps r' \<and> (datagram (item_at a r) \<longrightarrow> act = RE_SUBMIT)"
proof (cases "cqe_res cqe < 0")
  case True
  then have "r' = r \<and> act = RE_SUBMIT" using assms(4) by (auto simp: call_recv_callback_def split: if_splits)
  then show ?thesis using served_refl [OF assms(1,2)] by simp
next
  case False
  then obtain r1 where r1: "(if wi_is_stream (item_at a r)
        then call_recv_handler_stream (client_run w client) (cqe_buffer cqe) a cqe r
        else call_recv_handler_datagram w (client_run w client) (cqe_buffer cqe) a cqe r) = Inr (act, r1)"
    and r': "r' = r1\<lparr>m_ring := recycle_buffer (m_buffers r1) (buffer_index cqe) (m_ring r1)\<rparr>"
    using assms(4) by (auto simp: call_recv_callback_def Let_def ebind_eq_Inr)
  have c: "served D held a r ps r2 \<and> (datagram (item_at a r) \<longrightarrow> act = RE_SUBMIT)"
    if run: "run_callback (client_run w client) (wi_call_recv_callback m (item_at a r)) r = Inr (act, r2)" for m r2
  proof -
    note s = run_callback_served [OF assms(1-3) run]
    show ?thesis using s assms(5) wi_calls(5) [of m "item_at a r"] by fastforce
  qed
  have "served D held a r ps r1 \<and> (datagram (item_at a r) \<longrightarrow> act = RE_SUBMIT)"
    using r1 c served_refl [OF assms(1,2)]
    by (auto simp: call_recv_handler_stream_def call_recv_handler_datagram_def Let_def ebind_eq_Inr
        datagram_def split: if_splits option.splits)
  then show ?thesis unfolding r' using served_new_ring by (simp add: recycle_buffer_def add_buffer_def)
qed

text \<open>Then the object is released, or handed to the ring again.\<close>

lemma served_free:
  assumes "served D {a} a r ps r1" and "free_item i r1 = Inr r'" and "i = m_id (item_at a r)"
  shows "\<exists>new. submitted (m_ring r') = new @ submitted (m_ring r) \<and>
    owns D {} r' (with_items r' new @ ps)"
proof -
  obtain new where new: "submitted (m_ring r1) = new @ submitted (m_ring r)"
    "owns D {a} r1 (with_items r1 new @ ps)" and id: "i = m_id (item_at a r1)"
    using assms(1,3) by (auto simp: served_def)
  note o = ownsD [OF new(2)] and f = free_item_ext [OF ownsD(1) [OF new(2)] assms(2)]
  have "i \<notin> set (pending_ids (with_items r1 new @ ps))" using o(6) id by simp
  then have "pool_abs (m_pool r') (sqe_user_data (fst q)) = pool_abs (m_pool r1) (sqe_user_data (fst q))"
    if "q \<in> set (with_items r1 new @ ps)" for q
    using f(2) that by (auto simp: pending_ids_def)
  then have own: "owns D {} r' (with_items r1 new @ ps)" using f(1) o(2-4) by (simp add: owns_def)
  from owns_again [OF own] new(1) f(3) show ?thesis by auto
qed

lemma served_resubmit:
  assumes "served D held a r ps r1" and "submit_item w a r1 = Inr r'"
    and "held = {a} \<or> held = {} \<and> datagram (item_at a r)"
    and "datagram (item_at a r) \<Longrightarrow> callback_of (item_at a r) \<in> Some ` D"
  shows "\<exists>new. submitted (m_ring r') = new @ submitted (m_ring r) \<and>
    owns D {} r' (with_items r' new @ ps)"
proof -
  obtain new where new: "submitted (m_ring r1) = new @ submitted (m_ring r)"
    "owns D held r1 (with_items r1 new @ ps)" and seat: "seated r1 a"
    using assms(1) by (auto simp: served_def)
  have a: "a < length (wp_heap (m_pool r1))" using seat by (simp add: seated_def)
  have call: "call_item (ring_submit w) a r1 = Inr r'"
    using assms(2) submit_item_call [OF a] by simp
  have inv: "wi_inv (item_at a r1)" by (rule item_at_inv [OF ownsD(1) [OF new(2)] a])
  obtain sq where "prep_request (item_at a r1) = Inr (item_at a r', sq)"
    using submit_item_ext(3) [OF ownsD(1) [OF new(2)] a assms(2)] by blast
  from prep_request_prepared [OF inv this]
  have same: "m_work_type (item_at a r') = m_work_type (item_at a r1)"
    "m_socket (item_at a r') = m_socket (item_at a r1)" "m_id (item_at a r') = m_id (item_at a r1)"
    "m_callback (item_at a r') = m_callback (item_at a r1)"
    by (simp_all add: prepared_def same_identity_def)
  have "datagram (item_at a r') = datagram (item_at a r)"
    "callback_of (item_at a r') = callback_of (item_at a r)"
    "datagram (item_at a r) \<Longrightarrow> like (item_at a r') (item_at a r1)"
    using same assms(1) by (auto simp: served_def datagram_def wi_is_stream_def callback_of_def like_def)
  with owns_submit [OF new(2) seat hands_on_ring call] assms(3,4) obtain e where
    e: "submitted (m_ring r') = e # submitted (m_ring r1)"
    "owns D (held - {a}) r' (with_items r' [e] @ with_items r1 new @ ps)"
    by auto
  have "held - {a} = {}" using assms(3) by auto
  with e show ?thesis by (intro owns_then [OF new(1)]) (intro exI [of _ "[e]"], simp)
qed

lemma dispatch_owns:
  assumes "owns D held r ps" and "seated r a" and "held = {a} \<or> held = {} \<and> datagram (item_at a r)"
    and "tidy_client D client"
    and "get_work_item (cqe_user_data cqe) (m_pool r) = Inr (Some a)"
    and "m_id (item_at a r) = cqe_user_data cqe"
    and "datagram (item_at a r) \<Longrightarrow> callback_of (item_at a r) \<in> Some ` D"
    and "call_callback_and_free_work_item_id w (client_run w client) cqe r = Inr r'"
  shows "\<exists>new. submitted (m_ring r') = new @ submitted (m_ring r) \<and>
    owns D {} r' (with_items r' new @ ps)"
proof (cases "cqe_res cqe = - ENOBUFS")
  case True
  then have "r' = r" using ignored_completion [OF assms(5)] assms(8) by simp
  then show ?thesis using owns_mono [OF assms(1), of "{}"] by simp
next
  case False
  note rel = released_dispatch [OF assms(5) False assms(8)]
    and free = served_free [OF _ _ assms(6) [symmetric]]
    and again = served_resubmit [OF _ _ assms(3,7)]
    and one = one_shot_served [OF assms(1,2,4)]
  have own: "held = {a}" if "m_work_type (item_at a r) \<noteq> Type_RECV"
    using assms(3) that by (auto simp: datagram_def)
  consider "m_work_type (item_at a r) = Type_ACCEPT" | "m_work_type (item_at a r) = Type_RECV"
    | "m_work_type (item_at a r) = Type_UNKNOWN" | "m_work_type (item_at a r) = Type_CLOSE"
    | "m_work_type (item_at a r) = Type_CONNECT"
    | "m_work_type (item_at a r) \<in> {Type_SEND_STREAM_DATA, Type_SEND_WORKPACKET}"
    by (cases "m_work_type (item_at a r)") auto
  then show ?thesis
  proof cases
    case 1
    then show ?thesis using accept_dispatch [OF assms(5) 1 False assms(8)] one(3) again by blast
  next
    case 2
    obtain act r1 where r1: "call_recv_callback w (client_run w client) a cqe r = Inr (act, r1)"
      "case act of Action_NONE \<Rightarrow> free_item (cqe_user_data cqe) r1 = Inr r'
         | RE_SUBMIT \<Rightarrow> submit_item w a r1 = Inr r'"
      using recv_dispatch [OF assms(5) 2 False assms(8)] by blast
    have s: "served D held a r ps r1" "datagram (item_at a r) \<longrightarrow> act = RE_SUBMIT"
      using recv_served [OF assms(1,2,4) r1(1) assms(7) 2] by simp_all
    show ?thesis
    proof (cases act)
      case Action_NONE
      then have "held = {a}" using s(2) assms(3) by auto
      then show ?thesis using free s(1) r1(2) Action_NONE by simp
    next
      case RE_SUBMIT
      then show ?thesis using again [OF s(1)] r1(2) by simp
    qed
  next
    case 3
    then show ?thesis
      using assms(8) False by (simp add: call_callback_and_free_work_item_id_def assms(5))
  next
    case 4
    then show ?thesis using rel(1) [OF 4] one(1) free own 4 by force
  next
    case 5
    then show ?thesis using rel(2) [OF 5] one(2) free own 5 by force
  next
    case 6
    then have "held = {a}" using own by auto
    then show ?thesis using rel(3) [OF 6] send_served assms(1,4) free by blast
  qed
qed

section \<open>Reachable states with their outstanding entries\<close>

text \<open>
  The kernel completes an entry it holds and drops it, unless it is a reception of datagrams and
  the completion says that more will come; a poll that finds nothing drops none. The other steps
  are those of \<open>reachable\<close>, with tidy code between the polls.
\<close>

definition still_pending :: "sqe \<times> work_item \<Rightarrow> completion \<Rightarrow> pending \<Rightarrow> pending" where
  "still_pending q cqe ps =
     (if datagram (snd q) \<and> cqe_flags cqe AND IORING_CQE_F_MORE \<noteq> 0 then ps else remove1 q ps)"

inductive tracked :: "world \<Rightarrow> nat set \<Rightarrow> client \<Rightarrow> iouring \<Rightarrow> pending \<Rightarrow> bool" for w D client where
  tracked_init: "init w (new_iouring raw n tr) = Inr (e, r) \<Longrightarrow> submitted tr = [] \<Longrightarrow>
    tracked w D client r []"
| tracked_prog: "tracked w D client r ps \<Longrightarrow> tidy D p {} \<Longrightarrow> run_prog w p r = Inr (act, r') \<Longrightarrow>
    submitted (m_ring r') = new @ submitted (m_ring r) \<Longrightarrow>
    tracked w D client r' (with_items r' new @ ps)"
| tracked_idle: "tracked w D client r ps \<Longrightarrow> fst (w_peek w (Peek_cqe # m_ring r)) \<noteq> 0 \<Longrightarrow>
    poll_completion_queues w client r = Inr (e, r') \<Longrightarrow> tracked w D client r' ps"
| tracked_poll: "tracked w D client r ps \<Longrightarrow> w_peek w (Peek_cqe # m_ring r) = (0, cqe) \<Longrightarrow>
    q \<in> set ps \<Longrightarrow> cqe_user_data cqe = sqe_user_data (fst q) \<Longrightarrow>
    poll_completion_queues w client r = Inr (e, r') \<Longrightarrow>
    submitted (m_ring r') = new @ submitted (m_ring r) \<Longrightarrow>
    tracked w D client r' (with_items r' new @ still_pending q cqe ps)"

text \<open>The object of a completion: the library's own when the entry is done, shared when it stays.\<close>

lemma single_removed:
  assumes "distinct (pending_ids ps)" and "q \<in> set ps"
  shows "sqe_user_data (fst q) \<notin> set (pending_ids (remove1 q ps))"
proof -
  have "distinct ps" using assms(1) by (simp add: pending_ids_def distinct_map)
  then show ?thesis
    using assms by (auto simp: pending_ids_def distinct_map inj_on_def set_remove1_eq)
qed

lemma owns_take:
  assumes "owns D {} r ps" and "q \<in> set ps"
  obtains a held where "owns D held r (still_pending q cqe ps)" and "like (item_at a r) (snd q)"
    and "fits D q" and "seated r a" and "m_id (item_at a r) = sqe_user_data (fst q)"
    and "get_work_item (sqe_user_data (fst q)) (m_pool r) = Inr (Some a)"
    and "held = {a} \<or> held = {} \<and> datagram (snd q)"
proof -
  let ?i = "sqe_user_data (fst q)"
  note o = ownsD [OF assms(1)]
  obtain v where v: "pool_abs (m_pool r) ?i = Some v" "like v (snd q)" using o(3) [OF assms(2)] by blast
  obtain a where a: "get_work_item ?i (m_pool r) = Inr (Some a)"
    "a < length (wp_heap (m_pool r))" "item_at a r = v" "m_work_items (m_pool r) ! ?i = Some a"
    "?i < length (m_work_items (m_pool r))" "m_id v = ?i"
    by (rule live_item [OF o(1) v(1)])
  have seat: "seated r a" using a by (simp add: seated_def)
  have left: "owns D {} r (still_pending q cqe ps)"
    using assms(1) owns_fewer by (simp add: still_pending_def)
  show thesis
  proof (cases "datagram (snd q)")
    case True
    then show thesis using that left a v o(4) [OF assms(2)] seat by blast
  next
    case False
    have "?i \<notin> set (pending_ids (remove1 q ps))"
    proof
      assume "?i \<in> set (pending_ids (remove1 q ps))"
      then obtain q' where q': "q' \<in> set (remove1 q ps)" "sqe_user_data (fst q') = ?i"
        by (auto simp: pending_ids_def)
      have l: "like v (snd q')" using o(3) [of q'] q' v(1) set_remove1_subset [of q ps] by auto
      have "q' \<in> set (remove1 q (singles ps))"
        using q'(1) likeD(5) [OF l] likeD(5) [OF v(2)] False by (simp add: singles_def flip: filter_remove1)
      then have "?i \<in> set (pending_ids (remove1 q (singles ps)))"
        using q'(2) unfolding pending_ids_def by (metis (mono_tags, lifting) image_eqI image_set)
      then show False using single_removed [OF o(2), of q] assms(2) False by simp
    qed
    then have "owns D {a} r (still_pending q cqe ps)"
      using left seat a(3,6) False by (simp add: owns_def still_pending_def)
    then show thesis using that a v o(4) [OF assms(2)] seat by blast
  qed
qed

text \<open>What the kernel stores stays within the object of the completion.\<close>

lemma kernel_stores_item:
  assumes "owns D held r ps" and "seated r a" and "held = {a} \<or> held = {} \<and> datagram (item_at a r)"
    and "get_work_item (cqe_user_data cqe) (m_pool r) = Inr (Some a)"
  shows "owns D held (kernel_stores cqe r) ps" and "seated (kernel_stores cqe r) a"
    and "get_work_item (cqe_user_data cqe) (m_pool (kernel_stores cqe r)) = Inr (Some a)"
    and "m_id (item_at a (kernel_stores cqe r)) = m_id (item_at a r)"
    and "datagram (item_at a (kernel_stores cqe r)) = datagram (item_at a r)"
    and "callback_of (item_at a (kernel_stores cqe r)) = callback_of (item_at a r)"
proof -
  have a: "a < length (wp_heap (m_pool r))" using assms(2) by (simp add: seated_def)
  have x: "ring_ext {a} r (kernel_stores cqe r)"
    using assms(4) a
    by (auto simp: kernel_stores_def ring_ext_def heap_write_nth same_identity_def item_at_def
        split: option.split)
  note k = kernel_stores_keeps [OF ownsD(1) [OF assms(1)], of cqe]
  have keep: "m_work_type (item_at a (kernel_stores cqe r)) = m_work_type (item_at a r)"
    "m_callback (item_at a (kernel_stores cqe r)) = m_callback (item_at a r)"
    using a by (auto simp: kernel_stores_def item_at_def heap_write_nth assms(4) split: option.split)
  note s = seated_ext [OF assms(2) x]
  show "seated (kernel_stores cqe r) a" "m_id (item_at a (kernel_stores cqe r)) = m_id (item_at a r)"
    by (rule s(1), rule s(2))
  show dg: "datagram (item_at a (kernel_stores cqe r)) = datagram (item_at a r)"
    and "callback_of (item_at a (kernel_stores cqe r)) = callback_of (item_at a r)"
    using keep s(3) by (simp_all add: datagram_def wi_is_stream_def callback_of_def)
  have "a \<in> held \<or> like (item_at a (kernel_stores cqe r)) (item_at a r)"
    using assms(3) keep s(2,3) by (auto simp: like_def datagram_def)
  then show "owns D held (kernel_stores cqe r) ps" by (intro owns_ext [OF assms(1) k(1) x]) simp
  have "m_state (item_at a (kernel_stores cqe r)) = m_state (item_at a r)"
    using ring_extD(7) [OF x a] by (simp add: same_identity_def item_at_def)
  then show "get_work_item (cqe_user_data cqe) (m_pool (kernel_stores cqe r)) = Inr (Some a)"
    using assms(4) k(3)
    by (auto simp: get_work_item_def item_at_def is_free_def outcome_simps split: option.splits if_splits)
qed

lemma poll_owns:
  assumes "owns D {} r ps" and "tidy_client D client" and "w_peek w (Peek_cqe # m_ring r) = (0, cqe)"
    and "q \<in> set ps" and "cqe_user_data cqe = sqe_user_data (fst q)"
    and "poll_completion_queues w client r = Inr (e, r')"
  shows "\<exists>new. submitted (m_ring r') = new @ submitted (m_ring r) \<and>
    owns D {} r' (with_items r' new @ still_pending q cqe ps)"
proof -
  let ?r0 = "r\<lparr>m_ring := Peek_cqe # m_ring r\<rparr>" and ?ps = "still_pending q cqe ps"
  obtain a held where a: "owns D held r ?ps" "like (item_at a r) (snd q)" "fits D q" "seated r a"
    "m_id (item_at a r) = cqe_user_data cqe" "get_work_item (cqe_user_data cqe) (m_pool r) = Inr (Some a)"
    "held = {a} \<or> held = {} \<and> datagram (snd q)"
    using owns_take [OF assms(1,4)] assms(5) by metis
  have o: "owns D held ?r0 ?ps" by (rule owns_new_ring [OF a(1)]) simp
  have g: "get_work_item (cqe_user_data cqe) (m_pool ?r0) = Inr (Some a)" "seated ?r0 a"
    "item_at a ?r0 = item_at a r"
    using a(4,6) by (simp_all add: item_at_def seated_def)
  have h: "held = {a} \<or> held = {} \<and> datagram (item_at a ?r0)" using a(7) likeD(5) [OF a(2)] g(3) by simp
  note k = kernel_stores_item [OF o g(2) h g(1)]
  obtain r1 where d: "call_callback_and_free_work_item_id w (client_run w client) cqe (kernel_stores cqe ?r0) = Inr r1"
    and r': "r' = r1\<lparr>m_ring := Cq_advance 1 # m_ring r1\<rparr>"
    using assms(3,6) by (auto simp: poll_completion_queues_def poll_with_def ebind_eq_Inr Let_def)
  have fn: "datagram (item_at a (kernel_stores cqe ?r0)) \<Longrightarrow>
      callback_of (item_at a (kernel_stores cqe ?r0)) \<in> Some ` D"
    using k(5,6) g(3) likeD(5,6) [OF a(2)] a(3) by (simp add: fits_def)
  obtain new where new: "submitted (m_ring r1) = new @ submitted (m_ring (kernel_stores cqe ?r0))"
    "owns D {} r1 (with_items r1 new @ ?ps)"
    using dispatch_owns [OF k(1,2) _ assms(2) k(3) _ fn d] h k(4,5) g(3) a(5) by auto
  have "submitted (m_ring r1) = new @ submitted (m_ring r)"
    using new(1) kernel_stores_keeps(2) [OF ownsD(1) [OF o], of cqe] by simp
  moreover have "owns D {} r' (with_items r' new @ ?ps)"
    using owns_new_ring [OF new(2), of "Cq_advance 1 # m_ring r1"] by (simp add: r')
  ultimately show ?thesis by (simp add: r')
qed

lemma tracked_owns: "tracked w D client r ps \<Longrightarrow> tidy_client D client \<Longrightarrow> owns D {} r ps"
proof (induction rule: tracked.induct)
  case (tracked_init raw n tr e r)
  then show ?case using init_inv by (simp add: owns_def)
next
  case (tracked_prog r ps p act r' new)
  then have "owns D ({} \<union> {}) r ps" by simp
  from tidy_run [OF tracked_prog.hyps(3,2) this] show ?case using tracked_prog.hyps(4) by auto
next
  case (tracked_idle r ps e r')
  have "r' = r\<lparr>m_ring := Peek_cqe # m_ring r\<rparr>"
    using tracked_idle.hyps(2,3)
    by (cases "w_peek w (Peek_cqe # m_ring r)")
      (auto simp: poll_completion_queues_def poll_with_def Let_def split: if_splits)
  then show ?case
    using owns_new_ring [OF tracked_idle.IH [OF tracked_idle.prems], of "Peek_cqe # m_ring r"] by simp
next
  case (tracked_poll r ps cqe q e r' new)
  from poll_owns [OF tracked_poll.IH [OF tracked_poll.prems] tracked_poll.prems tracked_poll.hyps(2-5)]
  show ?case using tracked_poll.hyps(6) by auto
qed

text \<open>An accept request made on a ring whose queues could not be mapped.\<close>

abbreviation mapless_world :: world where
  "mapless_world \<equiv> ready_world\<lparr>w_mmap := (\<lambda>_. None)\<rparr>"

lemma recv_on_fresh_ring:
  assumes "m_pool r0 = new_pool" and "m_initialized r0" and "\<And>tr. w_get_sqe w tr"
  shows "\<exists>r s. run_prog w (Submit_recv sock (Some 3) (Return RE_SUBMIT)) r0 = Inr (RE_SUBMIT, r) \<and>
     submitted (m_ring r) = s # submitted (m_ring r0) \<and> sqe_user_data s = 0 \<and>
     m_work_type (the (pool_abs (m_pool r) 0)) = Type_RECV \<and>
     m_socket (the (pool_abs (m_pool r) 0)) = sock \<and>
     m_callback (the (pool_abs (m_pool r) 0)) = Recv_cb (Some 3) \<and>
     callbacks_run (m_ring r) = callbacks_run (m_ring r0)"
  using assms
  by (simp add: submit_recv_def alloc_recv_work_item_def internal_alloc_work_item_def new_pool_def
      is_free_def on_item_def wi_submit_recv_def ring_submit_def get_sqe_cases prep_request_def
      prep_recv_eq Let_def submit_all_requests_def pool_abs_def heap_write_def recv_item_def
      new_work_item_def)

lemma example_recv_run:
  "\<exists>e raw r0 r s. init (mapless_world\<lparr>w_peek := pk\<rparr>) (new_iouring raw 64 []) = Inr (e, r0) \<and>
     run_prog (mapless_world\<lparr>w_peek := pk\<rparr>) (Submit_recv sock (Some 3) (Return RE_SUBMIT)) r0 =
       Inr (RE_SUBMIT, r) \<and>
     submitted (m_ring r0) = [] \<and> submitted (m_ring r) = [s] \<and> sqe_user_data s = 0 \<and>
     m_work_type (the (pool_abs (m_pool r) 0)) = Type_RECV \<and>
     m_socket (the (pool_abs (m_pool r) 0)) = sock \<and>
     m_callback (the (pool_abs (m_pool r) 0)) = Recv_cb (Some 3) \<and> callbacks_run (m_ring r) = []"
proof -
  let ?w = "mapless_world\<lparr>w_peek := pk\<rparr>"
  let ?raw = "\<lparr>ring_addr = 0, ring_entries = 0, bgid = 0, reg_flags = 0\<rparr>"
  have "probe_features (w_probe ?w) = Inr ()" using probe_example by simp
  then obtain r0 where r0: "init ?w (new_iouring ?raw 64 []) = Inr (Error_MMAP_FAILED, r0)"
    and f: "m_pool r0 = new_pool" "m_initialized r0" "submitted (m_ring r0) = []"
      "callbacks_run (m_ring r0) = []"
    by (simp add: init_def init_ring_def new_iouring_def setup_buffer_pool_def Let_def)
      (simp add: example_world_def)
  have "w_get_sqe ?w tr" for tr by simp
  from recv_on_fresh_ring [OF f(1,2) this, of sock, unfolded f(3,4)] r0 f(3) show ?thesis by blast
qed

lemma example_tracked_recv:
  assumes "is_stream sock \<or> 3 \<in> D"
  shows "\<exists>r s. tracked (mapless_world\<lparr>w_peek := pk\<rparr>) D client r
     [(s, the (pool_abs (m_pool r) 0))] \<and> sqe_user_data s = 0 \<and>
     m_work_type (the (pool_abs (m_pool r) 0)) = Type_RECV \<and>
     m_socket (the (pool_abs (m_pool r) 0)) = sock \<and>
     m_callback (the (pool_abs (m_pool r) 0)) = Recv_cb (Some 3) \<and> callbacks_run (m_ring r) = []"
proof -
  let ?w = "mapless_world\<lparr>w_peek := pk\<rparr>"
  obtain e raw r0 r s where r0: "init ?w (new_iouring raw 64 []) = Inr (e, r0)"
    and r: "run_prog ?w (Submit_recv sock (Some 3) (Return RE_SUBMIT)) r0 = Inr (RE_SUBMIT, r)"
    and s: "submitted (m_ring r0) = []" "submitted (m_ring r) = [s]" "sqe_user_data s = 0"
    and c: "m_work_type (the (pool_abs (m_pool r) 0)) = Type_RECV"
      "m_socket (the (pool_abs (m_pool r) 0)) = sock"
      "m_callback (the (pool_abs (m_pool r) 0)) = Recv_cb (Some 3)" "callbacks_run (m_ring r) = []"
    using example_recv_run [of pk sock] by blast
  have "tracked ?w D client r0 []" by (rule tracked_init [OF r0]) simp
  from tracked_prog [OF this _ r, of "[s]"] have
    "tracked ?w D client r [(s, the (pool_abs (m_pool r) 0))]"
    using s assms by auto
  then show ?thesis using s(3) c by blast
qed

definition datagram_socket :: isocket where
  "datagram_socket = example_socket\<lparr>sock_type := IPV4_UDP\<rparr>"

lemma example_clients:
  "tidy_client {} (answering Action_NONE)" "tidy_client {3} (answering RE_SUBMIT)"
  "is_stream example_socket" "\<not> is_stream datagram_socket"
  by (simp_all add: tidy_client_def answering_def example_socket_def datagram_socket_def is_stream_def)

lemma stream_poll_returns:
  assumes "owns D {} r ps" and "(s, wi) \<in> set ps" and "cqe_user_data c = sqe_user_data s"
    and "m_work_type wi = Type_RECV" and "m_socket wi = example_socket" and "m_callback wi = Recv_cb (Some f)"
    and "0 \<le> cqe_res c" and "cqe_sockaddr c = None" and "w_peek w (Peek_cqe # m_ring r) = (0, c)"
  shows "\<exists>e r'. poll_completion_queues w (answering Action_NONE) r = Inr (e, r')"
proof -
  let ?k = "answering Action_NONE" and ?r = "r\<lparr>m_ring := Peek_cqe # m_ring r\<rparr>"
  note o = ownsD [OF assms(1)]
  have st: "wi_is_stream wi" using assms(5) example_clients(3) by (simp add: wi_is_stream_def)
  have "ring_inv ?r" using o(1) by (simp add: ring_inv_def entries_ok_def)
  moreover have "pool_abs (m_pool ?r) (cqe_user_data c) = Some wi"
    using o(3) [OF assms(2)] likeD(8) [of _ wi] assms(3) st by (auto simp: datagram_def)
  ultimately obtain r1 where "call_callback_and_free_work_item_id w (client_run w ?k) c ?r = Inr r1"
    using stream_recv_returns [where v = wi and c = c] assms(4,6,7) st by force
  then show ?thesis
    using assms(8,9) by (simp add: poll_completion_queues_def poll_with_def Let_def kernel_stores_def)
qed

text \<open>
  C2. Outstanding requests do not share slots. Whatever the order of requests, completions and
  releases, while clients submit each work item they acquire at most once and ask to receive again
  in every function they give to a reception of datagrams, the slot of each entry the kernel
  holds still holds the work item that was submitted (untouched, but for the preparation of a
  reception of datagrams, which leaves the same function and socket), asking for exactly what the
  entry says. No two entries have the same id, except when they are armings of one and the same
  reception of datagrams.
\<close>

theorem outstanding_requests_own_their_slots:
  assumes "tracked w D client r ps" and "tidy_client D client"
  shows "distinct (map (\<lambda>q. sqe_user_data (fst q)) (filter (\<lambda>q. \<not> datagram (snd q)) ps)) \<and>
    (\<forall>(s, wi) \<in> set ps. \<exists>v. pool_abs (m_pool r) (sqe_user_data s) = Some v \<and>
       m_id v = sqe_user_data s \<and> kernel_view s = requested v \<and>
       m_callback v = m_callback wi \<and> m_socket v = m_socket wi \<and> (datagram wi \<or> v = wi)) \<and>
    (\<forall>(s, wi) \<in> set ps. \<forall>(s', wi') \<in> set ps. sqe_user_data s = sqe_user_data s' \<longrightarrow>
       datagram wi = datagram wi' \<and> m_callback wi = m_callback wi' \<and> m_socket wi = m_socket wi')"
proof -
  note o = ownsD [OF tracked_owns [OF assms]]
  have v: "\<exists>v. pool_abs (m_pool r) (sqe_user_data s) = Some v \<and> like v wi \<and>
      m_id wi = sqe_user_data s \<and> kernel_view s = requested wi" if "(s, wi) \<in> set ps" for s wi
    using o(3,4) [OF that] by (auto simp: fits_def)
  have d: "distinct (map (\<lambda>q. sqe_user_data (fst q)) (filter (\<lambda>q. \<not> datagram (snd q)) ps))"
    using o(2) by (simp add: pending_ids_def singles_def)
  have same: "datagram wi = datagram wi' \<and> m_callback wi = m_callback wi' \<and> m_socket wi = m_socket wi'"
    if "(s, wi) \<in> set ps" "(s', wi') \<in> set ps" "sqe_user_data s = sqe_user_data s'" for s wi s' wi'
  proof -
    note q = that
    obtain u where u: "like u wi" "like u wi'" using v [OF q(1)] v [OF q(2)] q(3) by auto
    show ?thesis using likeD(2,3,5) [OF u(1)] likeD(2,3,5) [OF u(2)] by simp
  qed
  have slot: "\<exists>v. pool_abs (m_pool r) (sqe_user_data s) = Some v \<and> m_id v = sqe_user_data s \<and>
      kernel_view s = requested v \<and> m_callback v = m_callback wi \<and> m_socket v = m_socket wi \<and>
      (datagram wi \<or> v = wi)" if "(s, wi) \<in> set ps" for s wi
  proof -
    note q = that
    obtain u where u: "pool_abs (m_pool r) (sqe_user_data s) = Some u" "like u wi"
      "m_id wi = sqe_user_data s" "kernel_view s = requested wi"
      using v [OF q] by blast
    then show ?thesis using likeD [OF u(2)] by simp
  qed
  show ?thesis
  proof (intro conjI)
    show "distinct (map (\<lambda>q. sqe_user_data (fst q)) (filter (\<lambda>q. \<not> datagram (snd q)) ps))" by (rule d)
  qed (clarify, rule slot, assumption, clarify, rule same, assumption+)
qed

theorem outstanding_requests_own_their_slots_witness:
  "\<exists>r s wi v. tracked mapless_world {3} (answering RE_SUBMIT) r [(s, wi)] \<and> datagram wi \<and>
     pool_abs (m_pool r) (sqe_user_data s) = Some v \<and> kernel_view s = requested v"
proof -
  obtain r s wi where t: "tracked mapless_world {3} (answering RE_SUBMIT) r [(s, wi)]"
    "m_work_type wi = Type_RECV" "m_socket wi = datagram_socket"
    using example_tracked_recv [of datagram_socket "{3}" "w_peek mapless_world" "answering RE_SUBMIT"]
    by auto
  have "datagram wi" using t(2,3) example_clients(4) by (simp add: datagram_def wi_is_stream_def)
  then show ?thesis using outstanding_requests_own_their_slots [OF t(1) example_clients(2)] t(1) by auto
qed

text \<open>
  C3. So a completion reaches its requester, of datagrams or of anything else: a poll that finds the
  completion of an outstanding entry runs no callback but the one the entry's work item was
  submitted with, and that at most once.
\<close>

theorem completion_reaches_its_requester:
  assumes "tracked w D client r ps" and "tidy_client D client" and "(s, wi) \<in> set ps"
    and "w_peek w (Peek_cqe # m_ring r) = (0, cqe)" and "cqe_user_data cqe = sqe_user_data s"
    and "poll_completion_queues w client r = Inr (e, r')"
  shows "\<exists>cbs. callbacks_run (m_ring r') = cbs @ callbacks_run (m_ring r) \<and> length cbs \<le> 1 \<and>
    (\<forall>(f, arg) \<in> set cbs. f = the (callback_of wi))"
proof -
  have o: "owns D {} r ps" by (rule tracked_owns [OF assms(1,2)])
  obtain a where a: "like (item_at a r) wi" "get_work_item (cqe_user_data cqe) (m_pool r) = Inr (Some a)"
    using owns_take [OF o assms(3)] assms(5) by (metis fst_conv snd_conv)
  then have "requester (cqe_user_data cqe) r = {the (callback_of wi)}" using likeD(6) by simp
  then have "quiet_change {the (callback_of wi)} r r'"
    using poll_quiet [OF ownsD(1) [OF o] assms(6)] assms(4) by simp
  then show ?thesis by (fastforce simp: quiet_change_def)
qed

theorem completion_reaches_its_requester_witness:
  "\<exists>r e r'. poll_completion_queues (mapless_world\<lparr>w_peek := \<lambda>_. (0, plain_completion 2 0)\<rparr>)
     (answering Action_NONE) r = Inr (e, r') \<and>
     (\<forall>(f, arg) \<in> set (callbacks_run (m_ring r')). f = 3)"
proof -
  let ?c = "plain_completion 2 0" and ?k = "answering Action_NONE"
  let ?w = "mapless_world\<lparr>w_peek := \<lambda>_. (0, ?c)\<rparr>"
  obtain r s wi where t: "tracked ?w {} ?k r [(s, wi)]" and s: "sqe_user_data s = 0"
    and wi: "m_work_type wi = Type_RECV" "m_socket wi = example_socket" "m_callback wi = Recv_cb (Some 3)"
    and none: "callbacks_run (m_ring r) = []"
    using example_tracked_recv [of example_socket "{}" "\<lambda>_. (0, ?c)" ?k] example_clients(3) by blast
  obtain e r' where p: "poll_completion_queues ?w ?k r = Inr (e, r')"
    using stream_poll_returns [OF tracked_owns [OF t example_clients(1)], of s wi ?c 3 ?w] wi s
    by (auto simp: plain_completion_def)
  show ?thesis
    using completion_reaches_its_requester [OF t example_clients(1) _ _ _ p] p s wi(3) none
    by (fastforce simp: callback_of_def)
qed

end
