(* ===== verification/Request_Policy.thy ===== *)
theory Request_Policy
  imports Request_Ownership
begin

text \<open>
  Where callbacks and queue entries come from. A policy says which requests a program may make: on
  which socket, of which type, with which callback. If everything a client runs keeps to a policy,
  so does everything the library hands to the kernel and every callback it runs, and each work
  item holds the alternative of \<open>std::variant\<close> that its \<open>call_*_callback\<close> asserts.

  \<^item> \<open>allows\<close>: the programs that keep to a policy.
  \<^item> \<open>governed\<close>: the states of the library under such programs.
\<close>

section \<open>Policies\<close>

type_synonym policy = "isocket \<Rightarrow> work_type \<Rightarrow> func \<Rightarrow> bool"

text \<open>
  A send item is bound to its socket when it is acquired and to its type and callback when it is
  submitted, so a policy allows a send on every socket or on none.
\<close>

primrec allows :: "policy \<Rightarrow> prog \<Rightarrow> bool" where
  "allows T (Return act) \<longleftrightarrow> True"
| "allows T (Fail e) \<longleftrightarrow> True"
| "allows T (Submit_connect s target cb k) \<longleftrightarrow> T s Type_CONNECT cb \<and> allows T k"
| "allows T (Submit_accept s cb k) \<longleftrightarrow> T s Type_ACCEPT cb \<and> allows T k"
| "allows T (Submit_recv s cb k) \<longleftrightarrow> T s Type_RECV cb \<and> allows T k"
| "allows T (Submit_close s cb k) \<longleftrightarrow> T s Type_CLOSE cb \<and> allows T k"
| "allows T (Ackuire_send_workitem s k) \<longleftrightarrow> (\<forall>a. allows T (k a))"
| "allows T (Get_send_packet a k) \<longleftrightarrow> allows T k"
| "allows T (Append_data a data k) \<longleftrightarrow> allows T k"
| "allows T (Submit_stream_data a cb k) \<longleftrightarrow> (\<forall>s. T s Type_SEND_STREAM_DATA cb) \<and> allows T k"
| "allows T (Submit_packet a params cb k) \<longleftrightarrow> (\<forall>s. T s Type_SEND_WORKPACKET cb) \<and> allows T k"
| "allows T (Submit_item a k) \<longleftrightarrow> allows T k"
| "allows T (New_socket type port kind k) \<longleftrightarrow> (\<forall>s. allows T (k s))"
| "allows T (New_accepted_socket res k) \<longleftrightarrow>
     (\<forall>s. new_accepted_socket res = Inr s \<longrightarrow> allows T (k s))"

definition allows_client :: "policy \<Rightarrow> client \<Rightarrow> bool" where
  "allows_client T client \<longleftrightarrow> (\<forall>f e tr. allows T (client f e tr))"

text \<open>The alternative of the variant that goes with a type.\<close>

fun alternative :: "work_type \<Rightarrow> callback_var \<Rightarrow> bool" where
  "alternative Type_CONNECT (Connect_cb f) \<longleftrightarrow> True"
| "alternative Type_ACCEPT (Accept_cb f) \<longleftrightarrow> True"
| "alternative Type_RECV (Recv_cb f) \<longleftrightarrow> True"
| "alternative Type_SEND_STREAM_DATA (Send_cb f) \<longleftrightarrow> True"
| "alternative Type_SEND_WORKPACKET (Send_cb f) \<longleftrightarrow> True"
| "alternative Type_CLOSE (Close_cb f) \<longleftrightarrow> True"
| "alternative t cb \<longleftrightarrow> False"

definition item_ok :: "policy \<Rightarrow> work_item \<Rightarrow> bool" where
  "item_ok T wi \<longleftrightarrow>
     m_work_type wi = Type_UNKNOWN \<or>
     alternative (m_work_type wi) (m_callback wi) \<and> T (m_socket wi) (m_work_type wi) (callback_of wi)"

text \<open>The type and the descriptor of a request, read off its queue entry.\<close>

fun op_view :: "sqe_op \<Rightarrow> work_type \<times> int" where
  "op_view (Prep_close fd) = (Type_CLOSE, fd)"
| "op_view (Prep_accept fd len fl) = (Type_ACCEPT, fd)"
| "op_view (Prep_connect fd sa len) = (Type_CONNECT, fd)"
| "op_view (Prep_recv fd ptr n fl) = (Type_RECV, fd)"
| "op_view (Prep_recvmsg_multishot fd msg fl) = (Type_RECV, fd)"
| "op_view (Prep_send fd data n fl) = (Type_SEND_STREAM_DATA, fd)"
| "op_view (Prep_sendmsg fd msg img fl) = (Type_SEND_WORKPACKET, fd)"

definition entry_ok :: "policy \<Rightarrow> sqe \<Rightarrow> bool" where
  "entry_ok T s \<longleftrightarrow>
     (\<exists>sock f. T sock (fst (op_view (sqe_operation s))) f \<and> get_fd sock = snd (op_view (sqe_operation s)))"

fun event_types :: "cb_event \<Rightarrow> work_type set" where
  "event_types (Ev_connect r) = {Type_CONNECT}"
| "event_types (Ev_accept r) = {Type_ACCEPT}"
| "event_types (Ev_recv m) = {Type_RECV}"
| "event_types (Ev_send r) = {Type_SEND_STREAM_DATA, Type_SEND_WORKPACKET}"
| "event_types (Ev_close r) = {Type_CLOSE}"

definition call_ok :: "policy \<Rightarrow> nat \<times> cb_event \<Rightarrow> bool" where
  "call_ok T c \<longleftrightarrow> (\<exists>sock. \<exists>t \<in> event_types (snd c). T sock t (Some (fst c)))"

definition policed :: "policy \<Rightarrow> iouring \<Rightarrow> bool" where
  "policed T r \<longleftrightarrow>
     ring_inv r \<and> (\<forall>b < length (wp_heap (m_pool r)). item_ok T (item_at b r)) \<and>
     (\<forall>s \<in> set (submitted (m_ring r)). entry_ok T s) \<and>
     (\<forall>c \<in> set (callbacks_run (m_ring r)). call_ok T c)"

section \<open>One request\<close>

lemma prep_request_view:
  assumes "wi_inv wi" and "prep_request wi = Inr (wi', s)"
  shows "op_view (sqe_operation s) = (m_work_type wi, get_fd (m_socket wi))"
    and "m_work_type wi \<noteq> Type_UNKNOWN"
proof -
  show "m_work_type wi \<noteq> Type_UNKNOWN" using assms(2) by (auto simp: prep_request_def)
  show "op_view (sqe_operation s) = (m_work_type wi, get_fd (m_socket wi))"
    using assms init_send_msg_inv [OF assms(1)]
    by (cases "m_work_type wi")
      (auto simp: prep_request_def prep_close_eq prep_accept_eq prep_connect_eq prep_recv_eq
        prep_send_stream_eq prep_send_workpacket_def outcome_simps split: if_splits)
qed

text \<open>What a call that may submit an item does under a policy.\<close>

definition lawful :: "policy \<Rightarrow> io_trace io_submit \<Rightarrow> bool" where
  "lawful T f \<longleftrightarrow>
     (\<forall>wi tr wi' tr'. wi_inv wi \<longrightarrow> item_ok T wi \<longrightarrow> f wi tr = Inr (wi', tr') \<longrightarrow>
        item_ok T wi' \<and> callbacks_run tr' = callbacks_run tr \<and>
        (\<forall>s \<in> set (submitted tr'). s \<in> set (submitted tr) \<or> entry_ok T s))"

lemma lawful_submit [simp]: "lawful T (ring_submit w)"
  unfolding lawful_def
proof (intro allI impI)
  fix wi wi' :: work_item and tr tr' :: io_trace
  assume a: "wi_inv wi" "item_ok T wi" "ring_submit w wi tr = Inr (wi', tr')"
  obtain s tr1 where s: "get_sqe w tr = Inr tr1" "prep_request wi = Inr (wi', s)"
    "tr' = Uring_submit # Prep s # tr1"
    by (rule ring_submitE [OF a(3)])
  note v = prep_request_view [OF a(1) s(2)] and p = prep_request_prepared [OF a(1) s(2)]
  have "item_ok T wi'" using a(2) p by (simp add: item_ok_def prepared_def same_identity_def callback_of_def)
  moreover have "entry_ok T s" using a(2) v by (auto simp: item_ok_def entry_ok_def)
  ultimately show "item_ok T wi' \<and> callbacks_run tr' = callbacks_run tr \<and>
      (\<forall>s \<in> set (submitted tr'). s \<in> set (submitted tr) \<or> entry_ok T s)"
    using s(3) get_sqe_keeps [OF s(1)] by auto
qed

fun func_of :: "callback_var \<Rightarrow> func" where
  "func_of (Connect_cb f) = f"
| "func_of (Accept_cb f) = f"
| "func_of (Recv_cb f) = f"
| "func_of (Send_cb f) = f"
| "func_of (Close_cb f) = f"

lemma callback_of_func: "callback_of wi = func_of (m_callback wi)"
  by (cases "m_callback wi") (simp_all add: callback_of_def)

lemma forwards_policed:
  assumes "forwards (ring_submit w) f t cb" and "alternative t cb"
    and "wi_inv wi" and "T (m_socket wi) t (func_of cb)" and "f wi tr = Inr (wi', tr')"
  shows "item_ok T wi'" and "callbacks_run tr' = callbacks_run tr"
    and "\<And>s. s \<in> set (submitted tr') \<Longrightarrow> s \<in> set (submitted tr) \<or> entry_ok T s"
proof -
  obtain v where v: "wi_inv v" "same_identity wi v" "m_work_type v = t" "m_callback v = cb"
    "ring_submit w v tr = Inr (wi', tr')"
    by (rule forwardsE [OF assms(1,3,5)])
  have "item_ok T v" using v(2-4) assms(2,4) by (simp add: item_ok_def same_identity_def callback_of_func)
  then have "item_ok T wi' \<and> callbacks_run tr' = callbacks_run tr \<and>
      (\<forall>s \<in> set (submitted tr'). s \<in> set (submitted tr) \<or> entry_ok T s)"
    using lawful_submit v(1,5) unfolding lawful_def by blast
  then show "item_ok T wi'" "callbacks_run tr' = callbacks_run tr"
    "\<And>s. s \<in> set (submitted tr') \<Longrightarrow> s \<in> set (submitted tr) \<or> entry_ok T s"
    by blast+
qed

section \<open>Runs of programs\<close>

lemma policedD:
  assumes "policed T r"
  shows "ring_inv r" and "\<And>b. b < length (wp_heap (m_pool r)) \<Longrightarrow> item_ok T (item_at b r)"
    and "\<And>s. s \<in> set (submitted (m_ring r)) \<Longrightarrow> entry_ok T s"
    and "\<And>c. c \<in> set (callbacks_run (m_ring r)) \<Longrightarrow> call_ok T c"
  using assms by (simp_all add: policed_def)

lemma policed_call:
  assumes "policed T r" and "ring_member f" and "call_item f a r = Inr r'"
    and "\<And>wi tr. wi_inv (item_at a r) \<Longrightarrow> f (item_at a r) (m_ring r) = Inr (wi, tr) \<Longrightarrow>
      item_ok T wi \<and> callbacks_run tr = callbacks_run (m_ring r) \<and>
      (\<forall>s \<in> set (submitted tr). s \<in> set (submitted (m_ring r)) \<or> entry_ok T s)"
  shows "policed T r'"
proof -
  note p = policedD [OF assms(1)]
  have a: "a < length (wp_heap (m_pool r))"
    using assms(3) by (auto simp: call_item_def split: if_splits)
  obtain wi tr where f: "f (item_at a r) (m_ring r) = Inr (wi, tr)"
    "r' = put_pool r (heap_write a wi (m_pool r), tr)"
    using assms(3) by (auto simp: call_item_def on_item_def outcome_simps item_at_def split: if_splits)
  have "wi_inv (item_at a r)" using pool_invD(4) [OF _ a] p(1) by (simp add: ring_inv_def item_at_def)
  note new = assms(4) [OF this f(1)]
  have "ring_inv r'" using call_item_ext [OF assms(2) p(1) assms(3)] by blast
  then show ?thesis
    using new p(2-4) a by (auto simp: policed_def f(2) item_at_def heap_write_nth)
qed

lemma policed_submit:
  assumes "policed T r" and "call_item (ring_submit w) a r = Inr r'"
  shows "policed T r'"
proof (rule policed_call [OF assms(1) ring_member_submit assms(2)])
  fix wi tr
  assume "wi_inv (item_at a r)" and "ring_submit w (item_at a r) (m_ring r) = Inr (wi, tr)"
  moreover have "item_ok T (item_at a r)"
    using policedD(2) [OF assms(1)] assms(2) by (auto simp: call_item_def split: if_splits)
  ultimately show "item_ok T wi \<and> callbacks_run tr = callbacks_run (m_ring r) \<and>
      (\<forall>s \<in> set (submitted tr). s \<in> set (submitted (m_ring r)) \<or> entry_ok T s)"
    using lawful_submit unfolding lawful_def by blast
qed

lemma policed_alloc:
  assumes "policed T r" and "internal_alloc_work_item raw s d (m_pool r) = Inr (a, q)"
  shows "policed T (put_pool r (q, m_ring r))" and "m_socket (item_at a (put_pool r (q, m_ring r))) = s"
proof -
  note p = policedD [OF assms(1)]
  have inv: "pool_inv (m_pool r)" using p(1) by (simp add: ring_inv_def)
  note e = alloc_ext [OF p(1) assms(2)] and ab = alloc_abs [OF inv assms(2)]
  show "m_socket (item_at a (put_pool r (q, m_ring r))) = s" using ab(4) by (simp add: item_at_def)
  have "wp_heap q = wp_heap (m_pool r) @ [new_work_item raw (next_id (m_pool r)) d s]"
    using alloc_result [OF inv, of raw s d] assms(2) by auto
  then have "item_ok T (wp_heap q ! b)" if "b < length (wp_heap q)" for b
    using that p(2) by (auto simp: nth_append item_ok_def item_at_def less_Suc_eq)
  then show "policed T (put_pool r (q, m_ring r))"
    using e(1) p(3,4) by (simp add: policed_def item_at_def)
qed

lemma policed_new_ring:
  assumes "policed T r" and "submitted tr = submitted (m_ring r)"
    and "\<forall>c \<in> set (callbacks_run tr). c \<in> set (callbacks_run (m_ring r)) \<or> call_ok T c"
  shows "policed T (r\<lparr>m_ring := tr\<rparr>)"
proof -
  note p = policedD [OF assms(1)]
  have "\<forall>c \<in> set (callbacks_run tr). call_ok T c" using assms(3) p(4) by blast
  then show ?thesis
    using p(1-3) assms(2) by (simp add: policed_def ring_inv_def entries_ok_def item_at_def)
qed

lemma allows_calls:
  "new_request w p = Some (s, d, t, cb, f, k) \<Longrightarrow> allows T p \<Longrightarrow>
     allows T k \<and> alternative t cb \<and> T s t (func_of cb)"
  "packet_edit p = Some (a, g, k) \<Longrightarrow> allows T p \<Longrightarrow> allows T k"
  "item_request w p = Some (a, t, cb, f, k) \<Longrightarrow> allows T p \<Longrightarrow>
     allows T k \<and> alternative t cb \<and> (\<forall>s. T s t (func_of cb))"
  by (cases p; auto)+

lemma edit_keeps:
  assumes "packet_edit p = Some (a, g, k)" and "g wi = Inr wi'"
  shows "m_work_type wi' = m_work_type wi \<and> m_callback wi' = m_callback wi \<and> m_socket wi' = m_socket wi"
  using assms
  by (cases p) (auto simp: wi_get_send_packet_def wi_packet_append_def outcome_simps)

lemma policed_run:
  assumes "run_prog w p r = Inr (act, r')" and "allows T p" and "policed T r"
  shows "policed T r'"
  using assms(1) policedD(1) [OF assms(3)] assms(2,3)
proof (induction rule: run_prog_induct)
  case Return
  then show ?case by simp
next
  case (Request p s d t cb f k r a q r1)
  note al = allows_calls(1) [OF Request.hyps(1) Request.prems(1)]
    and fw = request_forwards(1) [OF Request.hyps(1)]
    and new = policed_alloc [OF Request.prems(2) Request.hyps(3)]
  have "policed T r1"
    by (rule policed_call [OF new(1) ring_member_forwards [OF fw] Request.hyps(4)])
      (use forwards_policed [OF fw, of _ T] al new(2) in auto)
  then show ?case using Request.IH al by blast
next
  case (Acquire s k r a q)
  then show ?case using policed_alloc(1) [OF Acquire.prems(2) Acquire.hyps(2)] by simp
next
  case (Edit p a g k r r1)
  have lt: "a < length (wp_heap (m_pool r))"
    using Edit.hyps(3) by (auto simp: call_item_def split: if_splits)
  have "policed T r1"
  proof (rule policed_call [OF Edit.prems(2) edit_member [OF Edit.hyps(1)] Edit.hyps(3)])
    fix wi tr
    assume "edit_item g (item_at a r) (m_ring r) = Inr (wi, tr)"
    then have "g (item_at a r) = Inr wi" "tr = m_ring r" by (auto simp: outcome_simps)
    then show "item_ok T wi \<and> callbacks_run tr = callbacks_run (m_ring r) \<and>
        (\<forall>s \<in> set (submitted tr). s \<in> set (submitted (m_ring r)) \<or> entry_ok T s)"
      using edit_keeps [OF Edit.hyps(1)] policedD(2) [OF Edit.prems(2) lt]
      by (auto simp: item_ok_def callback_of_func)
  qed
  then show ?case using Edit.IH allows_calls(2) [OF Edit.hyps(1) Edit.prems(1)] by blast
next
  case (Item p a t cb f k r r1)
  note al = allows_calls(3) [OF Item.hyps(1) Item.prems(1)]
    and fw = request_forwards(2) [OF Item.hyps(1)]
  have "policed T r1"
    by (rule policed_call [OF Item.prems(2) ring_member_forwards [OF fw] Item.hyps(3)])
      (use forwards_policed [OF fw, of _ T] al in auto)
  then show ?case using Item.IH al by blast
next
  case (Again a k r r1)
  then show ?case using policed_submit [OF Again.prems(2) Again.hyps(2)] by simp
next
  case (Socket type port kind k r s tr)
  note c = new_socket_calls [OF Socket.hyps(2)]
  have "callbacks_run tr = callbacks_run (m_ring r)" using client_calls_keep(1) c by blast
  then have "policed T (r\<lparr>m_ring := tr\<rparr>)"
    using policed_new_ring [OF Socket.prems(2), of tr] c by simp
  then show ?case using Socket.IH Socket.prems(1) by simp
next
  case (Accepted res k r s)
  then show ?case by simp
qed

section \<open>A completion\<close>

text \<open>What a state keeps through a callback.\<close>

abbreviation policed_after :: "policy \<Rightarrow> iouring \<Rightarrow> iouring \<Rightarrow> bool" where
  "policed_after T r r' \<equiv> policed T r' \<and> length (wp_heap (m_pool r)) \<le> length (wp_heap (m_pool r'))"

lemma policed_callback:
  assumes "policed T r" and "allows_client T client" and "run_callback (client_run w client) call r = Inr (act, r')"
    and "\<And>fe. call = Inr fe \<Longrightarrow> call_ok T fe"
  shows "policed_after T r r'"
proof
  obtain f e where fe: "call = Inr (f, e)"
    and run: "run_prog w (client f e (m_ring r)) (r\<lparr>m_ring := Callback f e # m_ring r\<rparr>) = Inr (act, r')"
    using assms(3) by (auto simp: run_callback_def client_run_def ebind_eq_Inr)
  have "policed T (r\<lparr>m_ring := Callback f e # m_ring r\<rparr>)"
    using policed_new_ring [OF assms(1)] assms(4) [OF fe] by simp
  then show "policed T r'"
    using policed_run [OF run] assms(2) by (simp add: allows_client_def)
  show "length (wp_heap (m_pool r)) \<le> length (wp_heap (m_pool r'))"
    using run_callback_ext [OF policedD(1) [OF assms(1)] assms(3)] cb_extD(7) by blast
qed

text \<open>The call made for an item that keeps to the policy does so too.\<close>

lemma item_calls_ok:
  assumes "item_ok T wi"
  shows "m_work_type wi \<in> {Type_SEND_STREAM_DATA, Type_SEND_WORKPACKET} \<Longrightarrow>
      wi_call_send_callback st wi = Inr fe \<Longrightarrow> call_ok T fe"
    and "m_work_type wi = Type_CLOSE \<Longrightarrow> wi_call_close_callback st wi = Inr fe \<Longrightarrow> call_ok T fe"
    and "m_work_type wi = Type_CONNECT \<Longrightarrow> wi_call_connect_callback cr wi = Inr fe \<Longrightarrow> call_ok T fe"
    and "m_work_type wi = Type_ACCEPT \<Longrightarrow> wi_call_accept_callback ar wi = Inr fe \<Longrightarrow> call_ok T fe"
    and "m_work_type wi = Type_RECV \<Longrightarrow> wi_call_recv_callback m wi = Inr fe \<Longrightarrow> call_ok T fe"
proof -
  have ok: "m_work_type wi = Type_UNKNOWN \<or> T (m_socket wi) (m_work_type wi) (callback_of wi)"
    using assms by (auto simp: item_ok_def)
  then show "m_work_type wi \<in> {Type_SEND_STREAM_DATA, Type_SEND_WORKPACKET} \<Longrightarrow>
      wi_call_send_callback st wi = Inr fe \<Longrightarrow> call_ok T fe"
    using wi_calls(1) [of st wi fe] by (auto simp: call_ok_def)
  show "m_work_type wi = Type_CLOSE \<Longrightarrow> wi_call_close_callback st wi = Inr fe \<Longrightarrow> call_ok T fe"
    using ok wi_calls(2) [of st wi fe] by (auto simp: call_ok_def)
  show "m_work_type wi = Type_CONNECT \<Longrightarrow> wi_call_connect_callback cr wi = Inr fe \<Longrightarrow> call_ok T fe"
    using ok wi_calls(3) [of cr wi fe] by (auto simp: call_ok_def)
  show "m_work_type wi = Type_ACCEPT \<Longrightarrow> wi_call_accept_callback ar wi = Inr fe \<Longrightarrow> call_ok T fe"
    using ok wi_calls(4) [of ar wi fe] by (auto simp: call_ok_def)
  show "m_work_type wi = Type_RECV \<Longrightarrow> wi_call_recv_callback m wi = Inr fe \<Longrightarrow> call_ok T fe"
    using ok wi_calls(5) [of m wi fe] by (auto simp: call_ok_def)
qed

lemma one_shot_policed:
  assumes "policed T r" and "allows_client T client" and "item_ok T (item_at a r)"
  shows "m_work_type (item_at a r) = Type_CLOSE \<Longrightarrow>
      call_close_callback (client_run w client) a cqe r = Inr r' \<Longrightarrow> policed_after T r r'"
    and "m_work_type (item_at a r) = Type_CONNECT \<Longrightarrow>
      call_connect_callback (client_run w client) a cqe r = Inr r' \<Longrightarrow> policed_after T r r'"
    and "m_work_type (item_at a r) = Type_ACCEPT \<Longrightarrow>
      call_accept_callback (client_run w client) a cqe r = Inr r' \<Longrightarrow> policed_after T r r'"
  using policed_callback [OF assms(1,2)] item_calls_ok [OF assms(3)] assms(1)
  by (fastforce simp: call_close_callback_def call_connect_callback_def call_accept_callback_def
      Let_def ebind_eq_Inr split: if_splits)+

lemma send_policed:
  assumes "policed T r" and "allows_client T client" and "item_ok T (item_at a r)"
    and "m_work_type (item_at a r) \<in> {Type_SEND_STREAM_DATA, Type_SEND_WORKPACKET}"
    and "call_send_callback (client_run w client) a cqe r = Inr r'"
  shows "policed_after T r r'"
proof (cases "hushed cqe")
  case True
  then have "r' = r" using assms(5) by (auto simp: call_send_callback_def hushed_def)
  then show ?thesis using assms(1) by simp
next
  case False
  then obtain act r1 where r1: "run_callback (client_run w client)
      (wi_call_send_callback (cqe_res cqe) (item_at a r)) r = Inr (act, r1)"
    and clean: "call_item (\<lambda>wi tr. Inr (clean_send_packet wi, tr)) a r1 = Inr r'"
    using assms(5) by (auto simp: call_send_callback_def hushed_def ebind_eq_Inr split: if_splits)
  have p: "policed_after T r r1"
    by (rule policed_callback [OF assms(1,2) r1]) (rule item_calls_ok(1) [OF assms(3,4)])
  have a: "a < length (wp_heap (m_pool r1))"
    using clean by (auto simp: call_item_def split: if_splits)
  have "policed T r'"
    by (rule policed_call [OF conjunct1 [OF p] ring_member_packet(3) clean])
      (use policedD(2) [OF conjunct1 [OF p] a] in
        \<open>auto simp: clean_send_packet_def item_ok_def callback_of_func\<close>)
  moreover have "length (wp_heap (m_pool r')) = length (wp_heap (m_pool r1))"
    using clean by (auto simp: call_item_def on_item_def split: if_splits)
  ultimately show ?thesis using p by simp
qed

lemma recv_policed:
  assumes "policed T r" and "allows_client T client" and "item_ok T (item_at a r)"
    and "m_work_type (item_at a r) = Type_RECV"
    and "call_recv_callback w (client_run w client) a cqe r = Inr (act, r')"
  shows "policed_after T r r'"
proof (cases "cqe_res cqe < 0")
  case True
  then have "r' = r" using assms(5) by (auto simp: call_recv_callback_def split: if_splits)
  then show ?thesis using assms(1) by simp
next
  case False
  then obtain r1 where h: "(if wi_is_stream (item_at a r)
      then call_recv_handler_stream (client_run w client) (cqe_buffer cqe) a cqe r
      else call_recv_handler_datagram w (client_run w client) (cqe_buffer cqe) a cqe r) = Inr (act, r1)"
    and r': "r' = r1\<lparr>m_ring := recycle_buffer (m_buffers r1) (buffer_index cqe) (m_ring r1)\<rparr>"
    using assms(5) by (auto simp: call_recv_callback_def Let_def ebind_eq_Inr)
  have run: "\<exists>m. run_callback (client_run w client) (wi_call_recv_callback m (item_at a r)) r = Inr (act, r1) \<or> r1 = r"
    using h by (auto simp: call_recv_handler_stream_def call_recv_handler_datagram_def Let_def
        ebind_eq_Inr split: if_splits option.splits)
  have "policed_after T r r1"
    using run policed_callback [OF assms(1,2)] item_calls_ok(5) [OF assms(3,4)] assms(1) by blast
  then show ?thesis
    unfolding r' using policed_new_ring [of T r1] by (simp add: recycle_buffer_def add_buffer_def)
qed

lemma item_ok_state [simp]: "item_ok T (wi\<lparr>m_state := st\<rparr>) = item_ok T wi"
  by (simp add: item_ok_def callback_of_func)

lemma free_policed:
  assumes "policed T r" and "free_item i r = Inr r'"
  shows "policed T r'"
proof -
  note p = policedD [OF assms(1)] and f = free_item_ext [OF policedD(1) [OF assms(1)] assms(2)]
  have "length (wp_heap (m_pool r')) = length (wp_heap (m_pool r)) \<and>
      (\<forall>b < length (wp_heap (m_pool r)). item_ok T (item_at b r) \<longrightarrow> item_ok T (item_at b r'))"
    using assms(2)
    by (auto simp: free_item_def free_work_item_def mark_is_free_def outcome_simps item_at_def
        heap_write_def selector_update [where f = "item_ok T"] split: if_splits option.splits)
  then show ?thesis using p f(1,3) by (simp add: policed_def)
qed

lemma resubmit_policed:
  assumes "policed_after T r r1" and "a < length (wp_heap (m_pool r))" and "submit_item w a r1 = Inr r'"
  shows "policed T r'"
  using policed_submit [of T r1 w a r'] submit_item_call [of a r1 w] assms by simp

lemma dispatch_policed:
  assumes "policed T r" and "allows_client T client"
    and "call_callback_and_free_work_item_id w (client_run w client) cqe r = Inr r'"
  shows "policed T r'"
proof -
  let ?i = "cqe_user_data cqe"
  note inv = policedD(1) [OF assms(1)]
  obtain x where x: "get_work_item ?i (m_pool r) = Inr x"
    using assms(3) by (cases "get_work_item ?i (m_pool r)")
      (auto simp: call_callback_and_free_work_item_id_def Let_def)
  show ?thesis
  proof (cases "x = None \<or> cqe_res cqe = - ENOBUFS")
    case True
    then have "r' = r" using ignored_completion [OF x True, of w client] assms(3) by simp
    then show ?thesis using assms(1) by simp
  next
    case False
    then obtain a where a: "get_work_item ?i (m_pool r) = Inr (Some a)" using x by auto
    have lt: "a < length (wp_heap (m_pool r))" by (rule found_address [OF inv a])
    note ok = policedD(2) [OF assms(1) lt]
    note one = one_shot_policed [OF assms(1,2) ok, of w cqe]
    note rel = released_dispatch [OF a _ assms(3)]
    show ?thesis
    proof (cases "m_work_type (item_at a r)")
      case Type_ACCEPT
      then show ?thesis
        using accept_dispatch [OF a Type_ACCEPT _ assms(3)] False one(3) resubmit_policed [OF _ lt]
        by (metis (no_types, lifting))
    next
      case Type_RECV
      then obtain act r1 where r1: "call_recv_callback w (client_run w client) a cqe r = Inr (act, r1)"
        "case act of Action_NONE \<Rightarrow> free_item ?i r1 = Inr r' | RE_SUBMIT \<Rightarrow> submit_item w a r1 = Inr r'"
        using recv_dispatch [OF a _ _ assms(3)] False by blast
      have after: "policed_after T r r1" by (rule recv_policed [OF assms(1,2) ok Type_RECV r1(1)])
      show ?thesis
      proof (cases act)
        case Action_NONE
        then show ?thesis using r1(2) free_policed [OF conjunct1 [OF after]] by simp
      next
        case RE_SUBMIT
        then show ?thesis using r1(2) resubmit_policed [OF after lt] by simp
      qed
    next
      case Type_UNKNOWN
      then show ?thesis using assms(3) a False by (simp add: call_callback_and_free_work_item_id_def)
    next
      case Type_CLOSE
      then show ?thesis using rel(1) False one(1) free_policed by blast
    next
      case Type_CONNECT
      then show ?thesis using rel(2) False one(2) free_policed by blast
    next
      case Type_SEND_STREAM_DATA
      then show ?thesis using rel(3) False send_policed [OF assms(1,2) ok] free_policed by blast
    next
      case Type_SEND_WORKPACKET
      then show ?thesis using rel(3) False send_policed [OF assms(1,2) ok] free_policed by blast
    qed
  qed
qed

lemma item_ok_stored [simp]:
  "item_ok T (wi\<lparr>m_buffer_for_uring := sa, m_accept_sock_len := len\<rparr>) = item_ok T wi"
  by (simp add: item_ok_def callback_of_func)

lemma kernel_stores_policed:
  assumes "policed T r"
  shows "policed T (kernel_stores cqe r)"
proof -
  note k = kernel_stores_keeps [OF policedD(1) [OF assms], of cqe]
  have "length (wp_heap (m_pool (kernel_stores cqe r))) = length (wp_heap (m_pool r)) \<and>
      (\<forall>b. item_ok T (item_at b (kernel_stores cqe r)) = item_ok T (item_at b r))"
    by (auto simp: kernel_stores_def heap_write_def item_at_def selector_update [where f = "item_ok T"]
        split: option.splits sum.splits)
  then show ?thesis using policedD [OF assms] k by (simp add: policed_def)
qed

lemma poll_policed:
  assumes "policed T r" and "allows_client T client" and "poll_completion_queues w client r = Inr (e, r')"
  shows "policed T r'"
proof -
  let ?r0 = "r\<lparr>m_ring := Peek_cqe # m_ring r\<rparr>"
  obtain success cqe where pk: "w_peek w (Peek_cqe # m_ring r) = (success, cqe)" by fastforce
  have p0: "policed T ?r0" using policed_new_ring [OF assms(1)] by simp
  show ?thesis
  proof (cases "success = 0")
    case True
    then obtain r1 where d: "call_callback_and_free_work_item_id w (client_run w client) cqe (kernel_stores cqe ?r0) = Inr r1"
      and r': "r' = r1\<lparr>m_ring := Cq_advance 1 # m_ring r1\<rparr>"
      using assms(3) pk by (auto simp: poll_completion_queues_def poll_with_def Let_def ebind_eq_Inr)
    have "policed T r1" by (rule dispatch_policed [OF kernel_stores_policed [OF p0] assms(2) d])
    then show ?thesis unfolding r' using policed_new_ring [of T r1] by simp
  next
    case False
    then have "r' = ?r0"
      using assms(3) pk by (auto simp: poll_completion_queues_def poll_with_def Let_def split: if_splits)
    then show ?thesis using p0 by simp
  qed
qed

section \<open>Reachable states\<close>

inductive governed :: "policy \<Rightarrow> world \<Rightarrow> client \<Rightarrow> iouring \<Rightarrow> bool" for T w client where
  governed_init: "init w (new_iouring raw n tr) = Inr (e, r) \<Longrightarrow> submitted tr = [] \<Longrightarrow>
    callbacks_run tr = [] \<Longrightarrow> governed T w client r"
| governed_prog: "governed T w client r \<Longrightarrow> allows T p \<Longrightarrow> run_prog w p r = Inr (act, r') \<Longrightarrow>
    governed T w client r'"
| governed_poll: "governed T w client r \<Longrightarrow> poll_completion_queues w client r = Inr (e, r') \<Longrightarrow>
    governed T w client r'"

lemma setup_buffer_pool_callbacks:
  "setup_buffer_pool w b tr = (e, b', tr') \<Longrightarrow> callbacks_run tr' = callbacks_run tr"
  by (auto simp: setup_buffer_pool_def Let_def split: option.splits if_splits)

lemma init_policed:
  assumes "init w (new_iouring raw n tr) = Inr (e, r)" and "submitted tr = []" and "callbacks_run tr = []"
  shows "policed T r"
proof -
  have "callbacks_run (m_ring r) = []" and "wp_heap (m_pool r) = []"
    using assms(1,3) setup_buffer_pool_callbacks
    by (fastforce simp: init_def init_ring_def new_iouring_def new_pool_def ebind_eq_Inr Let_def
        split: if_splits prod.splits)+
  then show ?thesis using init_inv [OF assms(1,2)] by (simp add: policed_def)
qed

lemma governed_policed: "governed T w client r \<Longrightarrow> allows_client T client \<Longrightarrow> policed T r"
  by (induction rule: governed.induct) (auto intro: init_policed policed_run poll_policed)

section \<open>Properties\<close>

text \<open>
  C6. Nothing happens that no client asked for. If everything the clients of a ring run keeps to a
  policy, then in every state they reach each entry handed to the kernel is a request the policy
  allows, on a descriptor it allows it for; each callback that was run had been passed with a
  request of the type whose result it got; and every work item that was submitted holds the
  alternative of \<open>std::variant\<close> its type asserts, so the assertions of \<open>call_*_callback\<close> never fail.
\<close>

theorem requests_keep_to_policy:
  assumes "governed T w client r" and "allows_client T client"
  shows "(\<forall>s \<in> set (submitted (m_ring r)). \<exists>sock f.
       T sock (fst (op_view (sqe_operation s))) f \<and> get_fd sock = snd (op_view (sqe_operation s))) \<and>
    (\<forall>(f, e) \<in> set (callbacks_run (m_ring r)). \<exists>sock. \<exists>t \<in> event_types e. T sock t (Some f)) \<and>
    (\<forall>i wi. pool_abs (m_pool r) i = Some wi \<longrightarrow> m_work_type wi \<noteq> Type_UNKNOWN \<longrightarrow>
       alternative (m_work_type wi) (m_callback wi))"
proof -
  note p = policedD [OF governed_policed [OF assms]]
  have "alternative (m_work_type wi) (m_callback wi)"
    if wi: "pool_abs (m_pool r) i = Some wi" "m_work_type wi \<noteq> Type_UNKNOWN" for i wi
  proof -
    obtain a where "a < length (wp_heap (m_pool r))" "item_at a r = wi"
      by (rule live_item [OF p(1) wi(1)])
    then show ?thesis using p(2) wi(2) by (auto simp: item_ok_def)
  qed
  moreover have "\<exists>sock. \<exists>t \<in> event_types e. T sock t (Some f)"
    if "(f, e) \<in> set (callbacks_run (m_ring r))" for f e
    using p(4) [OF that] by (simp add: call_ok_def)
  ultimately show ?thesis using p(3) by (auto simp: entry_ok_def)
qed

text \<open>A policy of one request, on a client that makes it.\<close>

definition only_recv :: "policy" where
  "only_recv s t f \<longleftrightarrow> s = example_socket \<and> t = Type_RECV \<and> f = Some 3"

theorem requests_keep_to_policy_witness:
  "\<exists>r s. governed only_recv mapless_world (answering Action_NONE) r \<and>
     submitted (m_ring r) = [s] \<and> op_view (sqe_operation s) = (Type_RECV, 42)"
proof -
  obtain e raw r0 r s where r0: "init mapless_world (new_iouring raw 64 []) = Inr (e, r0)"
    and r: "run_prog mapless_world (Submit_recv example_socket (Some 3) (Return RE_SUBMIT)) r0
      = Inr (RE_SUBMIT, r)" and s: "submitted (m_ring r) = [s]"
    using example_recv_run [of "w_peek mapless_world" example_socket] by auto
  have "governed only_recv mapless_world (answering Action_NONE) r0"
    by (rule governed_init [OF r0]) simp_all
  from governed_prog [OF this _ r] have g: "governed only_recv mapless_world (answering Action_NONE) r"
    by (simp add: only_recv_def)
  have "allows_client only_recv (answering Action_NONE)" by (simp add: allows_client_def answering_def)
  from requests_keep_to_policy [OF g this] have "op_view (sqe_operation s) = (Type_RECV, 42)"
    using s by (auto simp: only_recv_def example_socket_def get_fd_def prod_eq_iff)
  then show ?thesis using g s by blast
qed

end
