(* ===== verification/Ring_Progress.thy ===== *)
theory Ring_Progress
  imports Request_Policy
begin

text \<open>
  When requests get through: what each \<open>submit_*\<close> call adds to a ring that grants queue entries,
  and what a completion of a live request does when its callback's program returns. The other
  theories say what a run does if it returns; here it does return.

  \<^item> \<open>adds\<close>: a program that submits one request and returns \<open>NONE\<close>.
  \<^item> \<open>poll_progress\<close>: a poll that finds the completion of a live request.
\<close>

section \<open>One request more\<close>

definition granting :: "world \<Rightarrow> bool" where
  "granting w \<longleftrightarrow> (\<forall>tr. w_get_sqe w tr)"

lemma submit_granted:
  "granting w \<Longrightarrow> ring_submit w wi tr =
     ebind (prep_request wi) (\<lambda>(wi, s). Inr (wi, Uring_submit # Prep s # Get_sqe # tr))"
  by (simp add: granting_def ring_submit_def get_sqe_cases submit_all_requests_def)

definition adds :: "world \<Rightarrow> prog \<Rightarrow> iouring \<Rightarrow> iouring \<Rightarrow> sqe \<Rightarrow> work_item \<Rightarrow> bool" where
  "adds w p r r' e wi \<longleftrightarrow>
     run_prog w p r = Inr (Action_NONE, r') \<and> m_initialized r' \<and>
     submitted (m_ring r') = e # submitted (m_ring r) \<and>
     sqe_user_data e = next_id (m_pool r) \<and> pool_abs (m_pool r) (sqe_user_data e) = None \<and>
     pool_abs (m_pool r') = (pool_abs (m_pool r))(sqe_user_data e \<mapsto> wi)"

lemma alloc_live:
  assumes "ring_inv r"
  obtains a q where "internal_alloc_work_item raw s d (m_pool r) = Inr (a, q)"
    and "a < length (wp_heap q)" and "wp_heap q ! a = new_work_item raw (next_id (m_pool r)) d s"
    and "ring_inv (put_pool r (q, m_ring r))"
    and "pool_abs (m_pool r) (next_id (m_pool r)) = None"
    and "\<And>wi. pool_abs (heap_write a wi q) = (pool_abs (m_pool r))(next_id (m_pool r) \<mapsto> wi)"
proof -
  let ?i = "next_id (m_pool r)"
  have inv: "pool_inv (m_pool r)" using assms by (simp add: ring_inv_def)
  obtain q where al: "internal_alloc_work_item raw s d (m_pool r) = Inr (length (wp_heap (m_pool r)), q)"
    by (rule alloc_result [OF inv])
  note ab = alloc_abs [OF inv al] and e = alloc_ext(1) [OF assms al]
  have q: "pool_inv q" using e by (simp add: ring_inv_def)
  have "?i < length (m_work_items q)"
    using ab(5) next_id_fresh [OF inv] by (cases "m_free_ids (m_pool r)") (auto simp: next_id_def)
  then have "pool_abs (heap_write (length (wp_heap (m_pool r))) wi q) = (pool_abs (m_pool r))(?i \<mapsto> wi)" for wi
    using heap_write_abs [OF q _ ab(6)] ab(1) by simp
  then show thesis using that [OF al ab(3,4) e next_id_fresh(2) [OF inv]] by blast
qed

lemma request_added:
  assumes "ring_inv r" and "m_initialized r"
    and "\<And>raw i tr. f (new_work_item raw i d s) tr =
      Inr (v raw i, Uring_submit # Prep (sqe_for raw i) # Get_sqe # tr)"
    and "\<And>raw i. sqe_user_data (sqe_for raw i) = i"
    and "\<And>q. ebind (internal_alloc_work_item (w_raw w (m_ring r)) s d (m_pool r))
        (\<lambda>(a, p). ebind (on_item f a p (m_ring r)) (\<lambda>(p, io). Inr (a, p, io))) = Inr q \<Longrightarrow>
      run_prog w p r = Inr (Action_NONE, put_pool r (snd q))"
  shows "\<exists>r' raw i. adds w p r r' (sqe_for raw i) (v raw i)"
proof -
  let ?raw = "w_raw w (m_ring r)" and ?i = "next_id (m_pool r)"
  obtain a q where al: "internal_alloc_work_item ?raw s d (m_pool r) = Inr (a, q)"
    "wp_heap q ! a = new_work_item ?raw ?i d s" "pool_abs (m_pool r) ?i = None"
    "\<And>wi. pool_abs (heap_write a wi q) = (pool_abs (m_pool r))(?i \<mapsto> wi)"
    using alloc_live [OF assms(1), where raw = ?raw and s = s and d = d] by metis
  let ?io = "Uring_submit # Prep (sqe_for ?raw ?i) # Get_sqe # m_ring r"
  have "run_prog w p r = Inr (Action_NONE, put_pool r (heap_write a (v ?raw ?i) q, ?io))"
    using assms(5) [of "(a, heap_write a (v ?raw ?i) q, ?io)"] al(1,2) assms(3)
    by (simp add: on_item_def)
  then have "adds w p r (put_pool r (heap_write a (v ?raw ?i) q, ?io)) (sqe_for ?raw ?i) (v ?raw ?i)"
    using al(3,4) assms(2,4) by (simp add: adds_def)
  then show ?thesis by blast
qed

lemma recv_adds:
  assumes "ring_inv r" and "m_initialized r" and "granting w" and "is_stream s"
  shows "\<exists>r' e wi. adds w (Submit_recv s cb (Return Action_NONE)) r r' e wi \<and>
    sqe_operation e = Prep_recv (get_fd s) Null_ptr 4096 0 \<and>
    m_work_type wi = Type_RECV \<and> m_callback wi = Recv_cb cb \<and> m_socket wi = s"
proof -
  let ?wi = "\<lambda>raw i. (new_work_item raw i ''read-from-socket'' s)\<lparr>m_callback := Recv_cb cb, m_work_type := Type_RECV\<rparr>"
  let ?e = "\<lambda>raw i. (set_flag IOSQE_BUFFER_SELECT
      (sqe_with (?wi raw i) (Prep_recv (get_fd s) Null_ptr 4096 0)))\<lparr>sqe_buf_group := 0\<rparr>"
  have "\<exists>r' raw i. adds w (Submit_recv s cb (Return Action_NONE)) r r' (?e raw i) (?wi raw i)"
    by (rule request_added [OF assms(1,2), where f = "wi_submit_recv (ring_submit w) cb" and s = s
          and d = "''read-from-socket''"])
      (use assms(2,4) in \<open>auto simp: wi_submit_recv_def submit_granted [OF assms(3)] prep_request_def
          prep_recv_eq recv_item_def wi_is_stream_def submit_recv_def alloc_recv_work_item_def\<close>)
  then obtain r' raw i where "adds w (Submit_recv s cb (Return Action_NONE)) r r' (?e raw i) (?wi raw i)"
    by blast
  then show ?thesis
    by (intro exI [of _ r'] exI [of _ "?e raw i"] exI [of _ "?wi raw i"]) simp
qed

lemma close_adds:
  assumes "ring_inv r" and "m_initialized r" and "granting w"
  shows "\<exists>r' e wi. adds w (Submit_close s cb (Return Action_NONE)) r r' e wi \<and>
    sqe_operation e = Prep_close (get_fd s) \<and>
    m_work_type wi = Type_CLOSE \<and> m_callback wi = Close_cb cb \<and> m_socket wi = s"
proof -
  let ?wi = "\<lambda>raw i. (new_work_item raw i ''close-of-socket'' s)\<lparr>m_callback := Close_cb cb, m_work_type := Type_CLOSE\<rparr>"
  let ?e = "\<lambda>raw i. sqe_with (?wi raw i) (Prep_close (get_fd s))"
  have "\<exists>r' raw i. adds w (Submit_close s cb (Return Action_NONE)) r r' (?e raw i) (?wi raw i)"
    by (rule request_added [OF assms(1,2), where f = "wi_submit_close (ring_submit w) cb" and s = s
          and d = "''close-of-socket''"])
      (use assms(2) in \<open>auto simp: wi_submit_close_def submit_granted [OF assms(3)] prep_request_def
          prep_close_eq submit_close_def alloc_close_work_item_def\<close>)
  then obtain r' raw i where "adds w (Submit_close s cb (Return Action_NONE)) r r' (?e raw i) (?wi raw i)"
    by blast
  then show ?thesis
    by (intro exI [of _ r'] exI [of _ "?e raw i"] exI [of _ "?wi raw i"]) simp
qed

lemma connect_adds:
  assumes "ring_inv r" and "m_initialized r" and "granting w" and "m_in4 target = Some v"
  shows "\<exists>r' e wi. adds w (Submit_connect s target cb (Return Action_NONE)) r r' e wi \<and>
    sqe_operation e = Prep_connect (get_fd s) (sockaddr_in_bytes v) 16 \<and>
    m_work_type wi = Type_CONNECT \<and> m_callback wi = Connect_cb cb \<and> m_socket wi = s"
proof -
  let ?wi = "\<lambda>raw i. (new_work_item raw i ''connect-job'' s)\<lparr>m_connect_sock_len := 16,
      m_buffer_for_uring := overwrite (m_buffer_for_uring (new_work_item raw i ''connect-job'' s)) 0
        (sockaddr_in_bytes v),
      m_callback := Connect_cb cb, m_work_type := Type_CONNECT\<rparr>"
  let ?e = "\<lambda>raw i. sqe_with (?wi raw i) (Prep_connect (get_fd s) (sockaddr_in_bytes v) 16)"
  have addr: "size_sockaddr target = Inr 16" "data_sockaddr target = Inr (sockaddr_in_bytes v)"
    using assms(4) by (simp_all add: size_sockaddr_def data_sockaddr_def)
  have "\<exists>r' raw i. adds w (Submit_connect s target cb (Return Action_NONE)) r r' (?e raw i) (?wi raw i)"
    by (rule request_added [OF assms(1,2), where f = "wi_submit_connect (ring_submit w) target cb" and s = s
          and d = "''connect-job''"])
      (use assms(2) addr in \<open>auto simp: wi_submit_connect_def submit_granted [OF assms(3)] prep_request_def
          prep_connect_eq submit_connect_def alloc_connect_work_item_def link_if_wanted_def
          wi_next_request_should_wait_def overwrite_def\<close>)
  then obtain r' raw i where
    "adds w (Submit_connect s target cb (Return Action_NONE)) r r' (?e raw i) (?wi raw i)"
    by blast
  then show ?thesis
    by (intro exI [of _ r'] exI [of _ "?e raw i"] exI [of _ "?wi raw i"]) simp
qed

section \<open>Sending what was put together piece by piece\<close>

definition append_pieces :: "nat \<Rightarrow> bytes list \<Rightarrow> prog \<Rightarrow> prog" where
  "append_pieces a pieces k = foldr (Append_data a) pieces k"

lemma append_pieces_simps [simp]:
  "append_pieces a [] k = k"
  "append_pieces a (d # pieces) k = Append_data a d (append_pieces a pieces k)"
  by (simp_all add: append_pieces_def)

text \<open>An item whose packet grows and that is otherwise as it was.\<close>

definition packed :: "work_item \<Rightarrow> bytes \<Rightarrow> work_item \<Rightarrow> bool" where
  "packed wi data wi' \<longleftrightarrow>
     wi_inv wi' \<and> sp_contents (m_send_packet wi') = data \<and>
     wi' = wi\<lparr>m_send_packet := m_send_packet wi'\<rparr>"

lemma append_packed:
  assumes "packed wi data v" and "length data + length d < 4096"
  shows "\<exists>v'. wi_packet_append d v = Inr v' \<and> packed wi (data @ d) v'"
proof -
  let ?p = "m_send_packet v"
  have inv: "sp_inv ?p" "wi_inv v" and v: "v = wi\<lparr>m_send_packet := ?p\<rparr>" and c: "sp_contents ?p = data"
    using assms(1) by (simp_all add: packed_def wi_inv_def)
  have "unat (m_size ?p) + length d < sp_capacity"
    using assms(2) c length_sp_contents [OF inv(1)] by (simp add: sp_capacity_def)
  from append_raw_fits [OF inv(1) this] obtain q where q: "append_raw d ?p = Inr q" by blast
  have "wi_packet_append d v = Inr (v\<lparr>m_send_packet := q\<rparr>)"
    by (simp add: wi_packet_append_def append_string_def q)
  moreover from this have "wi_inv (v\<lparr>m_send_packet := q\<rparr>)" by (rule wi_packet_append_inv [OF inv(2)])
  moreover have "v\<lparr>m_send_packet := q\<rparr> = wi\<lparr>m_send_packet := q\<rparr>" by (subst v) simp
  ultimately show ?thesis
    using append_raw_contents [OF inv(1) q] c
    by (intro exI [of _ "v\<lparr>m_send_packet := q\<rparr>"]) (simp add: packed_def)
qed

lemma run_append_pieces:
  "packed wi data v \<Longrightarrow> length data + length (concat pieces) < 4096 \<Longrightarrow> a < length (wp_heap q) \<Longrightarrow>
     \<exists>v'. packed wi (data @ concat pieces) v' \<and>
       run_prog w (append_pieces a pieces k) (put_pool r (heap_write a v q, tr)) =
         run_prog w k (put_pool r (heap_write a v' q, tr))"
proof (induction pieces arbitrary: data v)
  case Nil
  then show ?case by auto
next
  case (Cons d pieces)
  obtain v1 where v1: "wi_packet_append d v = Inr v1" "packed wi (data @ d) v1"
    using append_packed [OF Cons.prems(1), of d] Cons.prems(2) by auto
  have "run_prog w (append_pieces a (d # pieces) k) (put_pool r (heap_write a v q, tr)) =
      run_prog w (append_pieces a pieces k) (put_pool r (heap_write a v1 q, tr))"
    using Cons.prems(3) v1(1) by (simp add: call_item_on heap_write_nth)
  moreover obtain v' where "packed wi ((data @ d) @ concat pieces) v'"
    "run_prog w (append_pieces a pieces k) (put_pool r (heap_write a v1 q, tr)) =
       run_prog w k (put_pool r (heap_write a v' q, tr))"
    using Cons.IH [OF v1(2)] Cons.prems(2,3) by auto
  ultimately show ?case by auto
qed

lemma send_adds:
  assumes "ring_inv r" and "m_initialized r" and "granting w" and "is_stream s"
    and "length (concat pieces) < 4096"
  shows "\<exists>r' e wi. adds w (Ackuire_send_workitem s (\<lambda>a. Get_send_packet a (append_pieces a pieces
        (Submit_stream_data a cb (Return Action_NONE))))) r r' e wi \<and>
    (\<exists>data. sqe_operation e = Prep_send (get_fd s) data (word_of_nat (length (concat pieces))) 0 \<and>
       take (length (concat pieces)) data = concat pieces) \<and>
    m_work_type wi = Type_SEND_STREAM_DATA \<and> m_callback wi = Send_cb cb \<and> m_socket wi = s"
proof -
  let ?raw = "w_raw w (m_ring r)" and ?i = "next_id (m_pool r)" and ?n = "length (concat pieces)"
  let ?new = "new_work_item ?raw ?i ''write-from-socket'' s"
  let ?send = "\<lambda>a. Submit_stream_data a cb (Return Action_NONE)"
  let ?p = "Ackuire_send_workitem s (\<lambda>a. Get_send_packet a (append_pieces a pieces (?send a)))"
  obtain a q where al: "internal_alloc_work_item ?raw s ''write-from-socket'' (m_pool r) = Inr (a, q)"
    "a < length (wp_heap q)" "wp_heap q ! a = ?new" "pool_abs (m_pool r) ?i = None"
    "\<And>wi. pool_abs (heap_write a wi q) = (pool_abs (m_pool r))(?i \<mapsto> wi)"
    using alloc_live [OF assms(1), where raw = ?raw and s = s and d = "''write-from-socket''"] by metis
  have empty: "packed ?new [] (wi_get_send_packet ?new)"
    by (simp add: packed_def wi_get_send_packet_inv) (simp add: wi_get_send_packet_def)
  obtain v where v: "packed ?new (concat pieces) v"
    and app: "run_prog w (append_pieces a pieces (?send a))
        (put_pool r (heap_write a (wi_get_send_packet ?new) q, m_ring r)) =
      run_prog w (?send a) (put_pool r (heap_write a v q, m_ring r))"
    using run_append_pieces [OF empty, of pieces a q w "?send a" r "m_ring r"] assms(5) al(2) by auto
  let ?wi = "v\<lparr>m_callback := Send_cb cb, m_work_type := Type_SEND_STREAM_DATA\<rparr>"
  let ?data = "sp_data (m_send_packet v)"
  let ?e = "sqe_with ?wi (Prep_send (get_fd s) ?data (word_of_nat ?n) 0)"
  have vn: "m_socket v = s" "m_id v = ?i" "m_link_to_next_request v = False" "wi_inv v"
    using v by (auto simp: packed_def dest: arg_cong [where f = m_socket] arg_cong [where f = m_id]
        arg_cong [where f = m_link_to_next_request])
  have inv: "sp_inv (m_send_packet v)" and c: "sp_contents (m_send_packet v) = concat pieces"
    using v by (simp_all add: packed_def wi_inv_def)
  have n: "unat (m_size (m_send_packet v)) = ?n" using length_sp_contents [OF inv] c by simp
  have size: "sp_size (m_send_packet v) = word_of_nat ?n"
    by (simp add: sp_size_def flip: n)
  have data: "take ?n ?data = concat pieces" using c n by (simp add: sp_contents_def sp_data_def)
  let ?r' = "put_pool r (heap_write a ?wi q, Uring_submit # Prep ?e # Get_sqe # m_ring r)"
  have "run_prog w (?send a) (put_pool r (heap_write a v q, m_ring r)) = Inr (Action_NONE, ?r')"
    using al(2) vn assms(4) size
      submit_stream_item [OF vn(4), of w cb "m_ring r"] assms(3)
    by (simp add: call_item_on heap_write_nth granting_def wi_is_stream_def Let_def link_if_wanted_def
        wi_next_request_should_wait_def)
  then have "run_prog w ?p r = Inr (Action_NONE, ?r')"
    using al(1-3) app assms(2)
    by (simp add: ackuire_send_workitem_def alloc_send_work_item_def call_item_on)
  then have "adds w ?p r ?r' ?e ?wi" using al(4,5) assms(2) vn(2) by (simp add: adds_def)
  then show ?thesis using data vn(1)
    by (intro exI [of _ ?r'] exI [of _ ?e] exI [of _ ?wi]) auto
qed

section \<open>One completion\<close>

text \<open>The one live request of a ring, and the argument its callback gets.\<close>

definition one_live :: "iouring \<Rightarrow> nat \<Rightarrow> work_item \<Rightarrow> bool" where
  "one_live r i wi \<longleftrightarrow> ring_inv r \<and> m_initialized r \<and> pool_abs (m_pool r) = [i \<mapsto> wi]"

definition completion_event :: "work_item \<Rightarrow> completion \<Rightarrow> cb_event" where
  "completion_event wi c =
     (if m_work_type wi = Type_RECV
      then Ev_recv \<lparr>msg_data = cqe_buffer c, msg_size = word_of_int (cqe_res c), msg_source = ip_default\<rparr>
      else one_shot_event wi c)"

lemma program_adds:
  assumes "one_live r i wi" and "adds w p r r' e v"
  shows "ring_inv r'" and "m_initialized r'" and "sqe_user_data e \<noteq> i"
    and "pool_abs (m_pool r') = [i \<mapsto> wi, sqe_user_data e \<mapsto> v]"
    and "submitted (m_ring r') = e # submitted (m_ring r)"
    and "callbacks_run (m_ring r') = callbacks_run (m_ring r)"
proof -
  have run: "run_prog w p r = Inr (Action_NONE, r')" using assms(2) by (simp add: adds_def)
  note x = run_prog_ext [OF _ run]
  show "ring_inv r'" "callbacks_run (m_ring r') = callbacks_run (m_ring r)"
    using x assms(1) ring_extD(3) client_calls_keep(1) by (auto simp: one_live_def)
  show "m_initialized r'" "sqe_user_data e \<noteq> i"
    "pool_abs (m_pool r') = [i \<mapsto> wi, sqe_user_data e \<mapsto> v]"
    "submitted (m_ring r') = e # submitted (m_ring r)"
    using assms by (auto simp: adds_def one_live_def)
qed

lemma free_progress:
  assumes "ring_inv r" and "pool_abs (m_pool r) i = Some wi"
  shows "\<exists>r'. free_item i r = Inr r' \<and> ring_inv r' \<and> pool_abs (m_pool r') = (pool_abs (m_pool r))(i := None) \<and>
    m_ring r' = m_ring r \<and> m_initialized r' = m_initialized r"
proof -
  have inv: "pool_inv (m_pool r)" using assms(1) by (simp add: ring_inv_def)
  obtain p where p: "free_work_item i (m_pool r) = Inr p" using free_live [OF inv assms(2)] by metis
  then have "free_item i r = Inr (put_pool r (p, m_ring r))" by (simp add: free_item_def)
  with free_item_ext [OF assms(1) this] show ?thesis by auto
qed

lemma recycled_initialized [simp]: "m_initialized (recycled idx r) = m_initialized r"
  by (simp add: recycled_def)

text \<open>
  Dispatching the successful completion of a live request: its callback runs, and when its program
  returns \<open>NONE\<close>, the request is released.
\<close>

lemma dispatch_progress:
  assumes "ring_inv r" and "pool_abs (m_pool r) (cqe_user_data c) = Some wi" and "0 \<le> cqe_res c"
    and "m_work_type wi \<in> {Type_CONNECT, Type_SEND_STREAM_DATA, Type_RECV, Type_CLOSE}"
    and "alternative (m_work_type wi) (m_callback wi)" and "callback_of wi = Some f"
    and "m_work_type wi = Type_RECV \<longrightarrow> wi_is_stream wi"
    and "run_prog w (client f (completion_event wi c) (m_ring r)) (push_calls [(f, completion_event wi c)] r) =
      Inr (Action_NONE, r1)"
  shows "\<exists>r'. call_callback_and_free_work_item_id w (client_run w client) c r = Inr r' \<and> ring_inv r' \<and>
    pool_abs (m_pool r') = (pool_abs (m_pool r1))(cqe_user_data c := None) \<and>
    submitted (m_ring r') = submitted (m_ring r1) \<and> callbacks_run (m_ring r') = callbacks_run (m_ring r1) \<and>
    m_initialized r' = m_initialized r1"
proof -
  let ?i = "cqe_user_data c" and ?r0 = "push_calls [(f, completion_event wi c)] r"
  obtain a where a: "get_work_item ?i (m_pool r) = Inr (Some a)" "a < length (wp_heap (m_pool r))"
    "item_at a r = wi" "m_work_items (m_pool r) ! ?i = Some a" "?i < length (m_work_items (m_pool r))"
    by (rule live_item [OF assms(1,2)])
  have x: "ring_inv r1 \<and> ring_ext {b. \<not> keeps_off b (client f (completion_event wi c) (m_ring r))} ?r0 r1"
    by (rule run_prog_ext [OF _ assms(8)]) (simp add: assms(1))
  have a1: "m_work_items (m_pool r1) ! ?i = Some a" "?i < length (m_work_items (m_pool r1))"
    "a < length (wp_heap (m_pool r1))"
    using ring_extD(4-6) [OF conjunct2 [OF x]] a(2,4,5) by fastforce+
  have noerr: "cqe_res c \<noteq> - ENOBUFS" using assms(3) by simp
  have called: "run_callback (client_run w client) (Inr (f, completion_event wi c)) r = Inr (Action_NONE, r1)"
    using assms(8) by (simp add: run_callback_def client_run_def push_calls_def)
  have live: "pool_abs (m_pool r1) ?i = Some (item_at a r1)"
    using a1 by (simp add: pool_abs_Some item_at_def)
  have goal: "\<exists>r'. call_callback_and_free_work_item_id w (client_run w client) c r = Inr r' \<and> ring_inv r' \<and>
      pool_abs (m_pool r') = (pool_abs (m_pool r1))(?i := None) \<and>
      submitted (m_ring r') = submitted (m_ring r1) \<and> callbacks_run (m_ring r') = callbacks_run (m_ring r1) \<and>
      m_initialized r' = m_initialized r1"
    if "call_callback_and_free_work_item_id w (client_run w client) c r = free_item ?i r2" and "ring_inv r2"
      and "pool_abs (m_pool r2) = (pool_abs (m_pool r1))(?i \<mapsto> v)"
      and "submitted (m_ring r2) = submitted (m_ring r1)"
      and "callbacks_run (m_ring r2) = callbacks_run (m_ring r1)" and "m_initialized r2 = m_initialized r1"
    for r2 v
    using free_progress [OF that(2), of ?i v] that by auto
  have same: "pool_abs (m_pool r1) = (pool_abs (m_pool r1))(?i \<mapsto> item_at a r1)"
    using live by (simp add: fun_upd_idem)
  let ?clean = "\<lambda>wi tr. Inr (clean_send_packet wi, tr)"
  let ?r2 = "put_pool r1 (heap_write a (clean_send_packet (item_at a r1)) (m_pool r1), m_ring r1)"
  have clean: "call_item ?clean a r1 = Inr ?r2"
    using a1(3) by (simp add: call_item_def on_item_def item_at_def)
  have "ring_inv ?r2" using call_item_ext [OF ring_member_packet(3) conjunct1 [OF x] clean] by simp
  moreover have "pool_abs (m_pool ?r2) = (pool_abs (m_pool r1))(?i \<mapsto> clean_send_packet (item_at a r1))"
    using heap_write_abs [OF _ a1(2,1)] x by (simp add: ring_inv_def)
  ultimately have sent: ?thesis if "call_callback_and_free_work_item_id w (client_run w client) c r = free_item ?i ?r2"
    by (intro goal [OF that]) simp_all
  note disp = call_callback_and_free_work_item_id_def completion_event_def one_shot_event_def
  show ?thesis
  proof (cases "m_work_type wi")
    case Type_CONNECT
    then have "m_callback wi = Connect_cb (Some f)"
      using assms(5,6) by (cases "m_callback wi") (auto simp: callback_of_def)
    then show ?thesis
      using called a(1,3) noerr assms(3) Type_CONNECT
      by (intro goal [OF _ conjunct1 [OF x] same])
        (auto simp: disp call_connect_callback_def wi_call_connect_callback_def invoke_def Let_def)
  next
    case Type_CLOSE
    then have "m_callback wi = Close_cb (Some f)"
      using assms(5,6) by (cases "m_callback wi") (auto simp: callback_of_def)
    then show ?thesis
      using called a(1,3) noerr assms(3) Type_CLOSE
      by (intro goal [OF _ conjunct1 [OF x] same])
        (auto simp: disp call_close_callback_def wi_call_close_callback_def invoke_def Let_def)
  next
    case Type_SEND_STREAM_DATA
    then have "m_callback wi = Send_cb (Some f)"
      using assms(5,6) by (cases "m_callback wi") (auto simp: callback_of_def)
    then show ?thesis
      using called a(1,3) noerr assms(3) Type_SEND_STREAM_DATA clean
      by (intro sent) (auto simp: disp call_send_callback_def wi_call_send_callback_def invoke_def Let_def)
  next
    case Type_RECV
    then have "m_callback wi = Recv_cb (Some f)"
      using assms(5,6) by (cases "m_callback wi") (auto simp: callback_of_def)
    then have "call_callback_and_free_work_item_id w (client_run w client) c r = free_item ?i (recycled (buffer_index c) r1)"
      using called a(1,3) noerr assms(3,7) Type_RECV
      by (auto simp: disp call_recv_callback_def call_recv_handler_stream_def wi_call_recv_callback_def
          invoke_def Let_def recycled_def)
    then show ?thesis by (rule goal) (use x same in simp_all)
  qed (use assms(4) in simp_all)
qed

text \<open>So a poll that finds the completion of the one live request leaves what its callback added.\<close>

lemma poll_progress:
  assumes "one_live r (cqe_user_data c) wi" and "w_peek w (Peek_cqe # m_ring r) = (0, c)"
    and "cqe_sockaddr c = None" and "0 \<le> cqe_res c"
    and "m_work_type wi \<in> {Type_CONNECT, Type_SEND_STREAM_DATA, Type_RECV, Type_CLOSE}"
    and "alternative (m_work_type wi) (m_callback wi)" and "callback_of wi = Some f"
    and "m_work_type wi = Type_RECV \<longrightarrow> wi_is_stream wi"
    and "run_prog w (client f (completion_event wi c) (Peek_cqe # m_ring r))
      (r\<lparr>m_ring := Callback f (completion_event wi c) # Peek_cqe # m_ring r\<rparr>) = Inr (Action_NONE, r1)"
  shows "\<exists>r'. poll_completion_queues w client r = Inr (Error_OK, r') \<and> ring_inv r' \<and>
    pool_abs (m_pool r') = (pool_abs (m_pool r1))(cqe_user_data c := None) \<and>
    submitted (m_ring r') = submitted (m_ring r1) \<and> callbacks_run (m_ring r') = callbacks_run (m_ring r1) \<and>
    m_initialized r' = m_initialized r1"
proof -
  let ?r0 = "r\<lparr>m_ring := Peek_cqe # m_ring r\<rparr>"
  have "ring_inv ?r0" "pool_abs (m_pool ?r0) (cqe_user_data c) = Some wi"
    using assms(1) by (simp_all add: one_live_def ring_inv_def entries_ok_def)
  from dispatch_progress [OF this assms(4-8), of w client r1] obtain r' where
    d: "call_callback_and_free_work_item_id w (client_run w client) c ?r0 = Inr r'" "ring_inv r'"
    "pool_abs (m_pool r') = (pool_abs (m_pool r1))(cqe_user_data c := None)"
    "submitted (m_ring r') = submitted (m_ring r1)" "callbacks_run (m_ring r') = callbacks_run (m_ring r1)"
    "m_initialized r' = m_initialized r1"
    using assms(9) by (auto simp: push_calls_def)
  have "kernel_stores c ?r0 = ?r0" by (simp add: kernel_stores_def assms(3))
  then have "poll_completion_queues w client r = Inr (Error_OK, r'\<lparr>m_ring := Cq_advance 1 # m_ring r'\<rparr>)"
    using assms(2) d(1) by (simp add: poll_completion_queues_def poll_with_def Let_def)
  then show ?thesis using d(2-6) by (simp add: ring_inv_def entries_ok_def)
qed

section \<open>A prompt kernel\<close>

text \<open>
  A kernel that grants every queue entry and completes, at the next look at the completion queue,
  the entry that was submitted last, successfully; a close succeeds with 0.
\<close>

definition completes :: "completion \<Rightarrow> sqe \<Rightarrow> bool" where
  "completes c e \<longleftrightarrow>
     cqe_user_data c = sqe_user_data e \<and> cqe_sockaddr c = None \<and> 0 \<le> cqe_res c \<and>
     (fst (op_view (sqe_operation e)) = Type_CLOSE \<longrightarrow> cqe_res c = 0)"

definition prompt :: "world \<Rightarrow> bool" where
  "prompt w \<longleftrightarrow> granting w \<and>
     (\<forall>tr e rest. submitted tr = e # rest \<longrightarrow> (\<exists>c. w_peek w tr = (0, c) \<and> completes c e))"

abbreviation called :: "nat \<Rightarrow> cb_event \<Rightarrow> iouring \<Rightarrow> iouring" where
  "called f ev r \<equiv> r\<lparr>m_ring := Callback f ev # Peek_cqe # m_ring r\<rparr>"

text \<open>The request a client waits for: the only one, and the one submitted last.\<close>

definition awaiting :: "iouring \<Rightarrow> sqe \<Rightarrow> work_item \<Rightarrow> nat \<Rightarrow> bool" where
  "awaiting r e wi f \<longleftrightarrow>
     one_live r (sqe_user_data e) wi \<and> submitted (m_ring r) \<noteq> [] \<and> hd (submitted (m_ring r)) = e \<and>
     m_work_type wi \<in> {Type_CONNECT, Type_SEND_STREAM_DATA, Type_RECV, Type_CLOSE} \<and>
     alternative (m_work_type wi) (m_callback wi) \<and> callback_of wi = Some f \<and>
     (m_work_type wi = Type_RECV \<longrightarrow> wi_is_stream wi)"

lemma awaiting_peek:
  assumes "prompt w" and "awaiting r e wi f"
  obtains c where "w_peek w (Peek_cqe # m_ring r) = (0, c)" and "completes c e"
proof -
  obtain rest where "submitted (Peek_cqe # m_ring r) = e # rest"
    using assms(2) by (cases "submitted (m_ring r)") (auto simp: awaiting_def)
  then show thesis using assms(1) that unfolding prompt_def by blast
qed

lemma awaiting_step:
  assumes "prompt w" and "awaiting r e wi f"
    and next_one: "\<And>c. completes c e \<Longrightarrow> \<exists>r1 e2 v.
      adds w (client f (completion_event wi c) (Peek_cqe # m_ring r))
        (called f (completion_event wi c) r) r1 e2 v \<and> Q e2 v"
  shows "\<exists>c e2 v r'. completes c e \<and> poll_completion_queues w client r = Inr (Error_OK, r') \<and>
    one_live r' (sqe_user_data e2) v \<and> submitted (m_ring r') = e2 # submitted (m_ring r) \<and>
    callbacks_run (m_ring r') = (f, completion_event wi c) # callbacks_run (m_ring r) \<and> Q e2 v"
proof -
  obtain c where c: "w_peek w (Peek_cqe # m_ring r) = (0, c)" "completes c e"
    by (rule awaiting_peek [OF assms(1,2)])
  let ?r0 = "called f (completion_event wi c) r"
  obtain r1 e2 v where add: "adds w (client f (completion_event wi c) (Peek_cqe # m_ring r)) ?r0 r1 e2 v"
    and q: "Q e2 v"
    using next_one [OF c(2)] by blast
  note a = assms(2) [unfolded awaiting_def] and id = c(2) [unfolded completes_def]
  have "one_live ?r0 (cqe_user_data c) wi"
    using a id by (simp add: one_live_def ring_inv_def entries_ok_def)
  note p = program_adds [OF this add]
  have run: "run_prog w (client f (completion_event wi c) (Peek_cqe # m_ring r)) ?r0 = Inr (Action_NONE, r1)"
    using add by (simp add: adds_def)
  obtain r' where r': "poll_completion_queues w client r = Inr (Error_OK, r')" "ring_inv r'"
    "pool_abs (m_pool r') = (pool_abs (m_pool r1))(cqe_user_data c := None)"
    "submitted (m_ring r') = submitted (m_ring r1)" "callbacks_run (m_ring r') = callbacks_run (m_ring r1)"
    "m_initialized r' = m_initialized r1"
    using poll_progress [where client = client, OF _ c(1) _ _ _ _ _ _ run] a id by auto
  have "pool_abs (m_pool r') = [sqe_user_data e2 \<mapsto> v]"
    using r'(3) p(3,4) by (auto simp: fun_eq_iff)
  then have "one_live r' (sqe_user_data e2) v" using r'(2,6) p(2) by (simp add: one_live_def)
  then show ?thesis using c(2) r' p(5,6) q by auto
qed

lemma awaiting_end:
  assumes "prompt w" and "awaiting r e wi f"
    and "\<And>c. completes c e \<Longrightarrow> client f (completion_event wi c) (Peek_cqe # m_ring r) = Return Action_NONE"
  shows "\<exists>c r'. completes c e \<and> poll_completion_queues w client r = Inr (Error_OK, r') \<and>
    ring_inv r' \<and> pool_abs (m_pool r') = Map.empty \<and> submitted (m_ring r') = submitted (m_ring r) \<and>
    callbacks_run (m_ring r') = (f, completion_event wi c) # callbacks_run (m_ring r)"
proof -
  obtain c where c: "w_peek w (Peek_cqe # m_ring r) = (0, c)" "completes c e"
    by (rule awaiting_peek [OF assms(1,2)])
  let ?r0 = "called f (completion_event wi c) r"
  note a = assms(2) [unfolded awaiting_def] and id = c(2) [unfolded completes_def]
  have run: "run_prog w (client f (completion_event wi c) (Peek_cqe # m_ring r)) ?r0 = Inr (Action_NONE, ?r0)"
    using assms(3) [OF c(2)] by simp
  obtain r' where r': "poll_completion_queues w client r = Inr (Error_OK, r')" "ring_inv r'"
    "pool_abs (m_pool r') = (pool_abs (m_pool ?r0))(cqe_user_data c := None)"
    "submitted (m_ring r') = submitted (m_ring ?r0)" "callbacks_run (m_ring r') = callbacks_run (m_ring ?r0)"
    using poll_progress [where client = client, OF _ c(1) _ _ _ _ _ _ run] a id by auto
  have "pool_abs (m_pool r') = Map.empty" using r'(3) a id by (auto simp: one_live_def fun_eq_iff)
  then show ?thesis using c(2) r' by auto
qed

end
