(* ===== verification/Echo_Server.thy ===== *)
theory Echo_Server
  imports Request_Policy
begin

text \<open>
  The program \<open>tests/echo_server.cpp\<close> on top of the library: its socket, its accept request, its two
  lambdas as callbacks 0 and 1, and its loop of polls. The \<open>NetworkAdapter\<close> it makes is never used;
  messages are only logged.

  \<^item> \<open>echo_policy\<close>: what the server may ask for, an accept on its socket and receptions on accepted
    ones. The property says that it never asks for more, so nothing is ever sent.
\<close>

section \<open>The program\<close>

definition handle_new_connection :: "accept_result \<Rightarrow> prog" where
  "handle_new_connection res =
     New_accepted_socket res (\<lambda>socket. Submit_recv (si_base socket) (Some 1) (Return Action_NONE))"

text \<open>
  Callback 0 is the lambda of \<open>submit_accept\<close>, callback 1 that of \<open>submit_recv\<close>. Their parameter types
  fix the result they are called with; any other combination is not a call of the program.
\<close>

definition echo_callbacks :: client where
  "echo_callbacks f e tr =
     (case e of
        Ev_accept res \<Rightarrow>
          if m_new_fd res \<noteq> 0 then handle_new_connection res
          else Fail (Assert_fail ''res.m_new_fd != 0'')
      | Ev_recv msg \<Rightarrow> Return RE_SUBMIT
      | _ \<Rightarrow> Return Action_NONE)"

definition do_echo_server :: "world \<Rightarrow> buf_reg \<Rightarrow> io_trace \<Rightarrow> (socket_impl \<times> iouring) outcome" where
  "do_echo_server w raw tr =
     ebind (factory_create_impl w IPV4_TCP LOCAL_WEB_PORT SERVER_STREAM_SOCKET tr) (\<lambda>(socket, tr).
     ebind (init w (iouring_create_impl raw tr)) (\<lambda>(_, r).
     ebind (submit_accept w (si_base socket) (Some 0) r) (\<lambda>r. Inr (socket, r))))"

text \<open>So many rounds of the loop \<open>while (!should_quit)\<close>.\<close>

primrec poll_times :: "world \<Rightarrow> client \<Rightarrow> nat \<Rightarrow> iouring \<Rightarrow> iouring outcome" where
  "poll_times w client 0 r = Inr r"
| "poll_times w client (Suc n) r =
     ebind (poll_completion_queues w client r) (\<lambda>(_, r). poll_times w client n r)"

text \<open>
  \<open>main\<close>: the scan of the arguments, \<open>None\<close> when asked for help, and the exit status after so many
  rounds of the loop. The flag only goes to the unused adapter.
\<close>

primrec echo_args :: "string list \<Rightarrow> bool \<Rightarrow> bool option" where
  "echo_args [] tune = Some tune"
| "echo_args (arg # rest) tune =
     (if arg = ''--no-tune'' then echo_args rest False
      else if arg = ''--help'' then None
      else echo_args rest tune)"

definition echo_main ::
  "world \<Rightarrow> buf_reg \<Rightarrow> string list \<Rightarrow> nat \<Rightarrow> (int \<times> iouring option) outcome" where
  "echo_main w raw argv rounds =
     (case echo_args argv True of
        None \<Rightarrow> Inr (1, None)
      | Some tune \<Rightarrow>
          ebind (do_echo_server w raw []) (\<lambda>(socket, r).
          ebind (poll_times w echo_callbacks rounds r) (\<lambda>r. Inr (0, Some r))))"

lemma echo_args_help: "echo_args argv tune = None \<longleftrightarrow> ''--help'' \<in> set argv"
  by (induction argv arbitrary: tune) auto

lemma echo_main_help: "''--help'' \<in> set argv \<Longrightarrow> echo_main w raw argv rounds = Inr (1, None)"
  by (simp add: echo_main_def echo_args_help [THEN iffD2])

section \<open>Its policy\<close>

definition echo_policy :: "isocket \<Rightarrow> policy" where
  "echo_policy listening s t f \<longleftrightarrow>
     t = Type_ACCEPT \<and> s = listening \<and> f = Some 0 \<or> t = Type_RECV \<and> 0 < get_fd s \<and> f = Some 1"

lemma echo_callbacks_allowed: "allows_client (echo_policy listening) echo_callbacks"
  by (auto simp: allows_client_def echo_callbacks_def handle_new_connection_def echo_policy_def
      new_accepted_socket_def si_fd_def outcome_simps Let_def split: cb_event.split)

lemma poll_times_governed:
  "governed T w client r \<Longrightarrow> poll_times w client n r = Inr r' \<Longrightarrow> governed T w client r'"
  by (induction n arbitrary: r) (auto simp: ebind_eq_Inr intro: governed_poll)

lemma do_echo_server_governed:
  assumes "do_echo_server w raw tr = Inr (socket, r)" and "submitted tr = []" and "callbacks_run tr = []"
  shows "governed (echo_policy (si_base socket)) w client r"
proof -
  obtain tr1 e r0 where s: "new_socket w IPV4_TCP LOCAL_WEB_PORT SERVER_STREAM_SOCKET tr = Inr (socket, tr1)"
    and r0: "init w (new_iouring raw DEFAULT_QUEUE_SIZE tr1) = Inr (e, r0)"
    and r: "submit_accept w (si_base socket) (Some 0) r0 = Inr r"
    using assms(1) by (auto simp: do_echo_server_def ebind_eq_Inr)
  note c = new_socket_calls [OF s]
  have "governed (echo_policy (si_base socket)) w client r0"
    using governed_init [OF r0] c client_calls_keep(1) assms(2,3) by metis
  moreover have "allows (echo_policy (si_base socket))
      (Submit_accept (si_base socket) (Some 0) (Return Action_NONE))"
    by (simp add: echo_policy_def)
  moreover have "run_prog w (Submit_accept (si_base socket) (Some 0) (Return Action_NONE)) r0
      = Inr (Action_NONE, r)" using r by simp
  ultimately show ?thesis by (rule governed_prog)
qed

section \<open>Properties\<close>

definition example_reg :: buf_reg where
  "example_reg = \<lparr>ring_addr = 0, ring_entries = 0, bgid = 0, reg_flags = 0\<rparr>"


lemma idle_poll:
  "poll_completion_queues mapless_world k r = Inr (Error_OK, r\<lparr>m_ring := Peek_cqe # m_ring r\<rparr>)"
  by (simp add: poll_completion_queues_def poll_with_def example_world_def Let_def)


end
