(* ===== verification/Ping.thy ===== *)
theory Ping
  imports Ring_Progress Echo_Server
begin

text \<open>
  The program \<open>tests/ping.cpp\<close> on top of the library: it connects, sends a request for a page, waits
  for one message and closes. Its four lambdas are callbacks 0 to 3; the socket they capture is an
  argument. The timer is an argument that says when its 20 seconds are over; the network adapter
  it makes is never used, and messages are only logged. The command line is a list of texts; what
  the stack slot of the address constructor held is an argument too.

  The property says that against a kernel that completes every request the program ends, having
  asked for exactly these four things in this order, and that nothing is left in the pool.
\<close>

section \<open>The program\<close>

definition crlf :: bytes where "crlf = [13, 10]"

definition ascii :: "string \<Rightarrow> bytes" where "ascii s = map of_char s"

definition http_get :: "bytes list" where
  "http_get =
     [ascii ''GET /posts/1 HTTP/1.1'' @ crlf, ascii ''Host: example.com'' @ crlf,
      ascii ''Accept: application/json'' @ crlf, crlf]"

definition ping_connected :: "isocket \<Rightarrow> prog" where
  "ping_connected socket =
     Ackuire_send_workitem socket (\<lambda>wi. Get_send_packet wi
       (append_pieces wi http_get (Submit_stream_data wi (Some 1) (Return Action_NONE))))"

definition handle_packet_sent :: "isocket \<Rightarrow> prog" where
  "handle_packet_sent socket = Submit_recv socket (Some 2) (Return Action_NONE)"

definition ping_callbacks :: "world \<Rightarrow> isocket \<Rightarrow> client" where
  "ping_callbacks w socket f e tr =
     (case e of
        Ev_connect res \<Rightarrow>
          (case connect_to_expected (w_errno_to_error w) res of
             Inl err \<Rightarrow> Return Action_NONE
           | Inr addr \<Rightarrow> ping_connected socket)
      | Ev_send result \<Rightarrow>
          (case send_to_expected (w_errno_to_error w) result of
             Inl err \<Rightarrow> Return Action_NONE
           | Inr n \<Rightarrow> handle_packet_sent socket)
      | Ev_recv msg \<Rightarrow> Submit_close socket (Some 3) (Return Action_NONE)
      | Ev_close res \<Rightarrow>
          (case close_to_expected (w_errno_to_error w) res of
             Inl err \<Rightarrow> Return Action_NONE
           | Inr status \<Rightarrow>
               if status = 0 then Return Action_NONE
               else Fail (Assert_fail ''status.value() == 0''))
      | Ev_accept res \<Rightarrow> Return Action_NONE)"

text \<open>The global flag: callback 3 sets it when it gets status 0.\<close>

definition connection_has_been_closed :: "io_trace \<Rightarrow> bool" where
  "connection_has_been_closed tr \<longleftrightarrow> (3, Ev_close \<lparr>close_status = 0\<rparr>) \<in> set (callbacks_run tr)"

definition do_http_ping :: "world \<Rightarrow> buf_reg \<Rightarrow> ip_address \<Rightarrow> io_trace \<Rightarrow> (socket_impl \<times> iouring) outcome" where
  "do_http_ping w raw ping_addr tr =
     ebind (init w (iouring_create_impl raw tr)) (\<lambda>(_, r).
     ebind (factory_create_impl w IPV4_TCP UNENCRYPTED_WEB_PORT UNICAST_CLIENT_SOCKET (m_ring r)) (\<lambda>(socket, tr).
     ebind (submit_connect w (si_base socket) ping_addr (Some 0) (r\<lparr>m_ring := tr\<rparr>)) (\<lambda>r.
     Inr (socket, r))))"

text \<open>The loop; it may run for ever, which is \<open>None\<close>.\<close>

partial_function (option) ping_loop ::
  "(io_trace \<Rightarrow> bool) \<Rightarrow> world \<Rightarrow> client \<Rightarrow> iouring \<Rightarrow> iouring outcome option" where
  "ping_loop elapsed w client r =
     (if connection_has_been_closed (m_ring r) then Some (Inr r)
      else if elapsed (m_ring r) then Some (Inl (Assert_fail ''!timeout.elapsed()''))
      else case poll_completion_queues w client r of
        Inl e \<Rightarrow> Some (Inl e)
      | Inr (_, r) \<Rightarrow> ping_loop elapsed w client r)"

text \<open>
  \<open>main\<close>: the scan of the arguments, whose result is \<open>None\<close> when the program was asked for help, and
  the exit status. \<open>argv[argc]\<close> is the null pointer, from which no \<open>std::string\<close> can be made.
\<close>

primrec ping_args ::
  "(string list \<Rightarrow> sockaddr_in) \<Rightarrow> string list \<Rightarrow> ip_address option \<Rightarrow> bool \<Rightarrow>
     (ip_address option \<times> bool) option outcome" where
  "ping_args stack [] ping_addr_opt tune = Inr (Some (ping_addr_opt, tune))"
| "ping_args stack (arg # rest) ping_addr_opt tune =
     (if arg = ''--ping'' then
        (case rest of
           [] \<Rightarrow> Inl (Undefined_behaviour ''std::string of a null pointer'')
         | next # _ \<Rightarrow>
             ebind (string_to_ipv4_address next) (\<lambda>in_addr.
             let addr = ip_of_in_addr (stack rest) in_addr ENCRYPTED_WEB_PORT in
             ping_args stack rest (Some addr) tune))
      else if arg = ''--no-tune'' then ping_args stack rest ping_addr_opt False
      else if arg = ''--help'' then Inr None
      else ping_args stack rest ping_addr_opt tune)"

definition ping_main ::
  "(io_trace \<Rightarrow> bool) \<Rightarrow> world \<Rightarrow> buf_reg \<Rightarrow> (string list \<Rightarrow> sockaddr_in) \<Rightarrow> string list \<Rightarrow>
     (int \<times> iouring option) outcome option" where
  "ping_main elapsed w raw stack argv =
     (case ping_args stack argv None True of
        Inl e \<Rightarrow> Some (Inl e)
      | Inr None \<Rightarrow> Some (Inr (1, None))
      | Inr (Some (None, tune)) \<Rightarrow> Some (Inr (1, None))
      | Inr (Some (Some ping_addr, tune)) \<Rightarrow>
          (case do_http_ping w raw ping_addr [] of
             Inl e \<Rightarrow> Some (Inl e)
           | Inr (socket, r) \<Rightarrow>
               (case ping_loop elapsed w (ping_callbacks w (si_base socket)) r of
                  None \<Rightarrow> None
                | Some (Inl e) \<Rightarrow> Some (Inl e)
                | Some (Inr r) \<Rightarrow> Some (Inr (0, Some r)))))"

lemma ping_args_skip:
  "set argv \<inter> {''--ping'', ''--help''} = {} \<Longrightarrow>
     ping_args stack (argv @ rest) opt tune =
       ping_args stack rest opt (tune \<and> ''--no-tune'' \<notin> set argv)"
  by (induction argv arbitrary: tune) auto

section \<open>Its steps\<close>

lemma http_get_length: "length (concat http_get) = 70"
  by (simp add: http_get_def ascii_def crlf_def)

text \<open>One poll that completes a request and leaves the ring waiting for the next one.\<close>

definition moves_on :: "world \<Rightarrow> isocket \<Rightarrow> iouring \<Rightarrow> nat \<Rightarrow> cb_event set \<Rightarrow> iouring \<Rightarrow> sqe \<Rightarrow> work_item \<Rightarrow> bool" where
  "moves_on w socket r f events r' e v \<longleftrightarrow>
     poll_completion_queues w (ping_callbacks w socket) r = Inr (Error_OK, r') \<and>
     awaiting r' e v (Suc f) \<and> m_socket v = socket \<and> submitted (m_ring r') = e # submitted (m_ring r) \<and>
     (\<exists>ev \<in> events. callbacks_run (m_ring r') = (f, ev) # callbacks_run (m_ring r))"

lemma moves_onI:
  assumes "prompt w" and "awaiting r e wi f"
    and "\<And>c. completes c e \<Longrightarrow> completion_event wi c \<in> events \<and> (\<exists>r1 e2 v.
      adds w (ping_callbacks w socket f (completion_event wi c) (Peek_cqe # m_ring r))
        (called f (completion_event wi c) r) r1 e2 v \<and>
      P e2 \<and> m_work_type v = t \<and> m_callback v = cb \<and> m_socket v = socket)"
    and "t \<in> {Type_SEND_STREAM_DATA, Type_RECV, Type_CLOSE}" and "alternative t cb"
    and "func_of cb = Some (Suc f)" and "is_stream socket"
  shows "\<exists>r' e2 v. moves_on w socket r f events r' e2 v \<and> P e2 \<and> m_work_type v = t"
proof -
  obtain c e2 v r' where s: "completes c e"
    "poll_completion_queues w (ping_callbacks w socket) r = Inr (Error_OK, r')"
    "one_live r' (sqe_user_data e2) v" "submitted (m_ring r') = e2 # submitted (m_ring r)"
    "callbacks_run (m_ring r') = (f, completion_event wi c) # callbacks_run (m_ring r)"
    "P e2 \<and> m_work_type v = t \<and> m_callback v = cb \<and> m_socket v = socket"
    using awaiting_step [OF assms(1,2), where client = "ping_callbacks w socket"
        and Q = "\<lambda>e2 v. P e2 \<and> m_work_type v = t \<and> m_callback v = cb \<and> m_socket v = socket"] assms(3)
    by blast
  have "awaiting r' e2 v (Suc f)"
    using s(3,4,6) assms(4-7) by (auto simp: awaiting_def callback_of_func wi_is_stream_def)
  then show ?thesis using s assms(3) unfolding moves_on_def by blast
qed

lemma waiting_state:
  assumes "awaiting r e wi f"
  shows "ring_inv (called g ev r)" and "m_initialized (called g ev r)"
  using assms by (simp_all add: awaiting_def one_live_def ring_inv_def entries_ok_def)

lemma connected_step:
  assumes "prompt w" and "is_stream socket" and "awaiting r e wi 0" and "m_work_type wi = Type_CONNECT"
  shows "\<exists>r' e2 v. moves_on w socket r 0 (range Ev_connect) r' e2 v \<and>
    (\<exists>data. sqe_operation e2 = Prep_send (get_fd socket) data 70 0 \<and> take 70 data = concat http_get) \<and>
    m_work_type v = Type_SEND_STREAM_DATA"
proof (rule moves_onI [OF assms(1,3), where cb = "Send_cb (Some 1)"])
  fix c assume c: "completes c e"
  have "completion_event wi c \<in> range Ev_connect"
    by (simp add: completion_event_def one_shot_event_def assms(4))
  moreover have "ping_callbacks w socket 0 (completion_event wi c) tr = ping_connected socket" for tr
    using c by (simp add: completion_event_def one_shot_event_def assms(4) ping_callbacks_def
        connect_to_expected_def completes_def)
  moreover have "granting w" using assms(1) by (simp add: prompt_def)
  ultimately show "completion_event wi c \<in> range Ev_connect \<and> (\<exists>r1 e2 v.
      adds w (ping_callbacks w socket 0 (completion_event wi c) (Peek_cqe # m_ring r))
        (called 0 (completion_event wi c) r) r1 e2 v \<and>
      (\<exists>data. sqe_operation e2 = Prep_send (get_fd socket) data 70 0 \<and> take 70 data = concat http_get) \<and>
      m_work_type v = Type_SEND_STREAM_DATA \<and> m_callback v = Send_cb (Some 1) \<and> m_socket v = socket)"
    using send_adds [OF waiting_state [OF assms(3)] _ assms(2), of w http_get "Some 1"]
    by (simp add: http_get_length ping_connected_def)
qed (simp_all add: assms(2))

lemma sent_step:
  assumes "prompt w" and "is_stream socket" and "awaiting r e wi 1" and "m_work_type wi = Type_SEND_STREAM_DATA"
  shows "\<exists>r' e2 v. moves_on w socket r 1 (range Ev_send) r' e2 v \<and>
    sqe_operation e2 = Prep_recv (get_fd socket) Null_ptr 4096 0 \<and> m_work_type v = Type_RECV"
proof (rule moves_onI [OF assms(1,3), where cb = "Recv_cb (Some 2)"])
  fix c assume c: "completes c e"
  have "completion_event wi c \<in> range Ev_send"
    by (simp add: completion_event_def one_shot_event_def assms(4))
  moreover have "ping_callbacks w socket 1 (completion_event wi c) tr = handle_packet_sent socket" for tr
    using c by (simp add: completion_event_def one_shot_event_def assms(4) ping_callbacks_def
        send_to_expected_def completes_def)
  moreover have "granting w" using assms(1) by (simp add: prompt_def)
  ultimately show "completion_event wi c \<in> range Ev_send \<and> (\<exists>r1 e2 v.
      adds w (ping_callbacks w socket 1 (completion_event wi c) (Peek_cqe # m_ring r))
        (called 1 (completion_event wi c) r) r1 e2 v \<and>
      sqe_operation e2 = Prep_recv (get_fd socket) Null_ptr 4096 0 \<and>
      m_work_type v = Type_RECV \<and> m_callback v = Recv_cb (Some 2) \<and> m_socket v = socket)"
    using recv_adds [OF waiting_state [OF assms(3)] _ assms(2), of w "Some 2"]
    by (simp add: handle_packet_sent_def)
qed (simp_all add: assms(2))

lemma received_step:
  assumes "prompt w" and "is_stream socket" and "awaiting r e wi 2" and "m_work_type wi = Type_RECV"
  shows "\<exists>r' e2 v. moves_on w socket r 2 (range Ev_recv) r' e2 v \<and>
    sqe_operation e2 = Prep_close (get_fd socket) \<and> m_work_type v = Type_CLOSE"
proof (rule moves_onI [OF assms(1,3), where cb = "Close_cb (Some 3)"])
  fix c assume c: "completes c e"
  have "completion_event wi c \<in> range Ev_recv" by (simp add: completion_event_def assms(4))
  moreover have "ping_callbacks w socket 2 (completion_event wi c) tr =
      Submit_close socket (Some 3) (Return Action_NONE)" for tr
    by (simp add: completion_event_def assms(4) ping_callbacks_def)
  moreover have "granting w" using assms(1) by (simp add: prompt_def)
  ultimately show "completion_event wi c \<in> range Ev_recv \<and> (\<exists>r1 e2 v.
      adds w (ping_callbacks w socket 2 (completion_event wi c) (Peek_cqe # m_ring r))
        (called 2 (completion_event wi c) r) r1 e2 v \<and>
      sqe_operation e2 = Prep_close (get_fd socket) \<and>
      m_work_type v = Type_CLOSE \<and> m_callback v = Close_cb (Some 3) \<and> m_socket v = socket)"
    using close_adds [OF waiting_state [OF assms(3)], of w socket "Some 3"] by simp
qed (simp_all add: assms(2))

lemma closed_step:
  assumes "prompt w" and "awaiting r e wi 3" and "m_work_type wi = Type_CLOSE"
    and "sqe_operation e = Prep_close fd"
  shows "\<exists>r'. poll_completion_queues w (ping_callbacks w socket) r = Inr (Error_OK, r') \<and>
    pool_abs (m_pool r') = Map.empty \<and> submitted (m_ring r') = submitted (m_ring r) \<and>
    callbacks_run (m_ring r') = (3, Ev_close \<lparr>close_status = 0\<rparr>) # callbacks_run (m_ring r)"
proof -
  have ev: "completion_event wi c = Ev_close \<lparr>close_status = 0\<rparr>" if "completes c e" for c
    using that assms(3,4) by (simp add: completion_event_def one_shot_event_def completes_def)
  have "ping_callbacks w socket 3 (completion_event wi c) tr = Return Action_NONE" if "completes c e" for c tr
    using ev [OF that] by (simp add: ping_callbacks_def close_to_expected_def)
  with awaiting_end [OF assms(1,2), of "ping_callbacks w socket"] ev show ?thesis by metis
qed

lemma new_socket_type:
  "new_socket w type port kind tr = Inr (s, tr') \<Longrightarrow> sock_type (si_base s) = type"
  by (cases kind; cases type)
    (auto simp: new_socket_def create_socket_def sys_def Let_def outcome_simps split: if_splits prod.splits)

lemma init_empty:
  assumes "init w (new_iouring raw n tr) = Inr (e, r)" and "submitted tr = []" and "callbacks_run tr = []"
  shows "ring_inv r" and "m_initialized r" and "pool_abs (m_pool r) = Map.empty"
    and "submitted (m_ring r) = []" and "callbacks_run (m_ring r) = []"
proof -
  show "ring_inv r" "submitted (m_ring r) = []" by (rule init_inv [OF assms(1,2)])+
  have "m_initialized r \<and> m_pool r = new_pool \<and> callbacks_run (m_ring r) = []"
    using assms(1,3) setup_buffer_pool_callbacks
    by (fastforce simp: init_def init_ring_def new_iouring_def ebind_eq_Inr Let_def
        split: if_splits prod.splits)
  then show "m_initialized r" "pool_abs (m_pool r) = Map.empty" "callbacks_run (m_ring r) = []"
    by (simp_all add: new_pool_def pool_abs_def fun_eq_iff)
qed

lemma started:
  assumes "do_http_ping w raw target tr = Inr (socket, r)" and "prompt w" and "m_in4 target = Some v"
    and "submitted tr = []" and "callbacks_run tr = []"
  shows "is_stream (si_base socket)" and "\<exists>e wi. awaiting r e wi 0 \<and> m_work_type wi = Type_CONNECT \<and>
    submitted (m_ring r) = [e] \<and> callbacks_run (m_ring r) = [] \<and>
    sqe_operation e = Prep_connect (si_fd socket) (sockaddr_in_bytes v) 16"
proof -
  obtain e0 r0 tr1 where r0: "init w (new_iouring raw DEFAULT_QUEUE_SIZE tr) = Inr (e0, r0)"
    and s: "new_socket w IPV4_TCP UNENCRYPTED_WEB_PORT UNICAST_CLIENT_SOCKET (m_ring r0) = Inr (socket, tr1)"
    and r: "submit_connect w (si_base socket) target (Some 0) (r0\<lparr>m_ring := tr1\<rparr>) = Inr r"
    using assms(1) by (auto simp: do_http_ping_def ebind_eq_Inr)
  show "is_stream (si_base socket)" using new_socket_type [OF s] by (simp add: is_stream_def)
  note i = init_empty [OF r0 assms(4,5)] and c = new_socket_calls [OF s]
  have cb: "callbacks_run tr1 = []" using client_calls_keep(1) c i(5) by metis
  let ?r1 = "r0\<lparr>m_ring := tr1\<rparr>"
  have inv: "ring_inv ?r1" "m_initialized ?r1"
    using i(1,2) c by (simp_all add: ring_inv_def entries_ok_def)
  have "granting w" using assms(2) by (simp add: prompt_def)
  from connect_adds [OF inv this assms(3), of "si_base socket" "Some 0"] obtain r' e wi where
    a: "adds w (Submit_connect (si_base socket) target (Some 0) (Return Action_NONE)) ?r1 r' e wi"
    "sqe_operation e = Prep_connect (get_fd (si_base socket)) (sockaddr_in_bytes v) 16"
    "m_work_type wi = Type_CONNECT" "m_callback wi = Connect_cb (Some 0)"
    by blast
  have "r' = r" using a(1) r by (simp add: adds_def)
  moreover have "callbacks_run (m_ring r) = []"
    using client_calls_keep(1) [OF ring_extD(3)] submit_ops_ext(2) [OF inv(1) r] cb by fastforce
  moreover have "ring_inv r" using submit_ops_ext(2) [OF inv(1) r] by simp
  ultimately show "\<exists>e wi. awaiting r e wi 0 \<and> m_work_type wi = Type_CONNECT \<and>
      submitted (m_ring r) = [e] \<and> callbacks_run (m_ring r) = [] \<and>
      sqe_operation e = Prep_connect (si_fd socket) (sockaddr_in_bytes v) 16"
    using a i(3,4) c
    by (intro exI [of _ e] exI [of _ wi])
      (simp add: adds_def awaiting_def one_live_def callback_of_func si_fd_def)
qed

text \<open>
  The ping finishes. Against a kernel that completes each request successfully, and as long as
  the timer does not run out, the loop ends; by then the program has asked for exactly four things
  in this order, a connect to the address, a send of exactly the text of the request, one
  reception and a close, all on its socket; each callback has run once; and no work item is left.
\<close>

theorem ping_completes:
  assumes "do_http_ping w raw target tr = Inr (socket, r0)" and "prompt w" and "m_in4 target = Some v"
    and "submitted tr = []" and "callbacks_run tr = []" and "\<And>tr. \<not> elapsed tr"
  shows "\<exists>r data. ping_loop elapsed w (ping_callbacks w (si_base socket)) r0 = Some (Inr r) \<and>
    map sqe_operation (rev (submitted (m_ring r))) =
      [Prep_connect (si_fd socket) (sockaddr_in_bytes v) 16, Prep_send (si_fd socket) data 70 0,
       Prep_recv (si_fd socket) Null_ptr 4096 0, Prep_close (si_fd socket)] \<and>
    take 70 data = concat http_get \<and>
    map fst (rev (callbacks_run (m_ring r))) = [0, 1, 2, 3] \<and>
    pool_abs (m_pool r) = Map.empty"
proof -
  let ?s = "si_base socket" and ?loop = "ping_loop elapsed w (ping_callbacks w (si_base socket))"
  note st = started [OF assms(1-5)]
  obtain e0 w0 where a0: "awaiting r0 e0 w0 0" "m_work_type w0 = Type_CONNECT"
    "submitted (m_ring r0) = [e0]" "callbacks_run (m_ring r0) = []"
    "sqe_operation e0 = Prep_connect (si_fd socket) (sockaddr_in_bytes v) 16"
    using st(2) by blast
  obtain r1 e1 w1 data where a1: "moves_on w ?s r0 0 (range Ev_connect) r1 e1 w1"
    "m_work_type w1 = Type_SEND_STREAM_DATA" "sqe_operation e1 = Prep_send (get_fd ?s) data 70 0"
    "take 70 data = concat http_get"
    using connected_step [OF assms(2) st(1) a0(1,2)] by blast
  have w1: "awaiting r1 e1 w1 1" using a1(1) by (simp add: moves_on_def)
  obtain r2 e2 w2 where a2: "moves_on w ?s r1 1 (range Ev_send) r2 e2 w2"
    "m_work_type w2 = Type_RECV" "sqe_operation e2 = Prep_recv (get_fd ?s) Null_ptr 4096 0"
    using sent_step [OF assms(2) st(1) w1 a1(2)] by blast
  have w2: "awaiting r2 e2 w2 2" using a2(1) by (simp add: moves_on_def numeral_2_eq_2)
  obtain r3 e3 w3 where a3: "moves_on w ?s r2 2 (range Ev_recv) r3 e3 w3"
    "m_work_type w3 = Type_CLOSE" "sqe_operation e3 = Prep_close (get_fd ?s)"
    using received_step [OF assms(2) st(1) w2 a2(2)] by blast
  have w3: "awaiting r3 e3 w3 3" using a3(1) by (simp add: moves_on_def eval_nat_numeral)
  obtain r4 where a4: "poll_completion_queues w (ping_callbacks w ?s) r3 = Inr (Error_OK, r4)"
    "pool_abs (m_pool r4) = Map.empty" "submitted (m_ring r4) = submitted (m_ring r3)"
    "callbacks_run (m_ring r4) = (3, Ev_close \<lparr>close_status = 0\<rparr>) # callbacks_run (m_ring r3)"
    using closed_step [OF assms(2) w3 a3(2,3)] by blast
  note m = a1(1) [unfolded moves_on_def] a2(1) [unfolded moves_on_def] a3(1) [unfolded moves_on_def]
  have "\<exists>x y z. callbacks_run (m_ring r3) = [(2, z), (1, y), (0, x)] \<and>
      callbacks_run (m_ring r2) = [(1, y), (0, x)] \<and> callbacks_run (m_ring r1) = [(0, x)]"
    using m a0(4) by auto
  then obtain x y z where cb: "callbacks_run (m_ring r3) = [(2, z), (1, y), (0, x)]"
    "callbacks_run (m_ring r2) = [(1, y), (0, x)]" "callbacks_run (m_ring r1) = [(0, x)]"
    by blast
  have go: "?loop r = ?loop r'"
    if "\<not> connection_has_been_closed (m_ring r)"
      "poll_completion_queues w (ping_callbacks w ?s) r = Inr (Error_OK, r')" for r r'
    using that assms(6) by (subst ping_loop.simps) simp
  have "?loop r0 = ?loop r4"
    using go [of r0 r1] go [of r1 r2] go [of r2 r3] go [of r3 r4] m a4(1) a0(4) cb
    by (simp add: connection_has_been_closed_def)
  also have "\<dots> = Some (Inr r4)"
    using a4(4) by (subst ping_loop.simps) (simp add: connection_has_been_closed_def)
  finally have "?loop r0 = Some (Inr r4)" .
  moreover have "submitted (m_ring r4) = [e3, e2, e1, e0]" using a4(3) m a0(3) by simp
  moreover have "callbacks_run (m_ring r4) = [(3, Ev_close \<lparr>close_status = 0\<rparr>), (2, z), (1, y), (0, x)]"
    using a4(4) cb(1) by simp
  ultimately show ?thesis
    using a0(5) a1(3,4) a2(3) a3(3) a4(2)
    by (intro exI [of _ r4] exI [of _ data]) (simp add: si_fd_def)
qed

text \<open>A kernel of this kind, and a host to ask.\<close>

definition prompt_world :: world where
  "prompt_world = mapless_world\<lparr>w_peek := \<lambda>tr. (0, \<lparr>cqe_res = 0, cqe_flags = 0,
     cqe_user_data = (case submitted tr of [] \<Rightarrow> 0 | e # _ \<Rightarrow> sqe_user_data e),
     cqe_sockaddr = None, cqe_buffer = []\<rparr>)\<rparr>"

lemma prompt_world: "prompt prompt_world"
  by (auto simp: prompt_def granting_def prompt_world_def completes_def)

definition example_host :: sockaddr_in where
  "example_host = \<lparr>sin_family = 2, sin_port = bswap16 80, sin_addr = 1, sin_zero = 0\<rparr>"

lemma prompt_starts:
  assumes "m_in4 a \<noteq> None"
  shows "\<exists>socket r0. do_http_ping prompt_world example_reg a [] = Inr (socket, r0)"
proof -
  let ?w = prompt_world
  obtain v where v: "m_in4 a = Some v" using assms by blast
  have "probe_features (w_probe ?w) = Inr ()" using probe_example by (simp add: prompt_world_def)
  then obtain e0 r0 where r0: "init ?w (new_iouring example_reg DEFAULT_QUEUE_SIZE []) = Inr (e0, r0)"
    by (simp add: init_def init_ring_def new_iouring_def setup_buffer_pool_def Let_def)
      (simp add: prompt_world_def example_world_def)
  obtain socket tr where s: "new_socket ?w IPV4_TCP UNENCRYPTED_WEB_PORT UNICAST_CLIENT_SOCKET (m_ring r0) =
      Inr (socket, tr)"
    by (simp add: new_socket_def create_socket_def sys_def si_fd_def get_fd_def Let_def
        prompt_world_def example_world_def)
  have "ring_inv (r0\<lparr>m_ring := tr\<rparr>)" "m_initialized (r0\<lparr>m_ring := tr\<rparr>)"
    using init_empty [OF r0] new_socket_calls [OF s] by (simp_all add: ring_inv_def entries_ok_def)
  from connect_adds [OF this _ v, of ?w "si_base socket" "Some 0"] obtain r1 where
    "submit_connect ?w (si_base socket) a (Some 0) (r0\<lparr>m_ring := tr\<rparr>) = Inr r1"
    using prompt_world by (auto simp: prompt_def adds_def ebind_eq_Inr)
  with r0 s show ?thesis by (simp add: do_http_ping_def)
qed

section \<open>Properties\<close>

theorem ping_completes_witness:
  "\<exists>socket r0 r. do_http_ping prompt_world example_reg (ip_of_sockaddr_in example_host) [] = Inr (socket, r0) \<and>
     ping_loop (\<lambda>_. False) prompt_world (ping_callbacks prompt_world (si_base socket)) r0 = Some (Inr r) \<and>
     map fst (rev (callbacks_run (m_ring r))) = [0, 1, 2, 3]"
proof -
  have host: "m_in4 (ip_of_sockaddr_in example_host) = Some example_host" by simp
  then obtain socket r0 where
    d: "do_http_ping prompt_world example_reg (ip_of_sockaddr_in example_host) [] = Inr (socket, r0)"
    using prompt_starts by blast
  from ping_completes [OF d prompt_world host, of "\<lambda>_. False"] d show ?thesis by auto
qed



text \<open>
  C31. The command line of \<open>ping\<close> when it goes wrong. After arguments that mean nothing to it, no argument
  at all or \<open>--help\<close> ends the program with status 1 before the kernel is asked for anything; a text
  that is no IPv4 address aborts; and \<open>--ping\<close> as the last argument makes a \<open>std::string\<close> of the null
  pointer that ends \<open>argv\<close>.
\<close>

theorem ping_argument_errors:
  assumes "set argv \<inter> {''--ping'', ''--help''} = {}"
  shows "ping_main elapsed w raw stack argv = Some (Inr (1, None)) \<and>
    ping_main elapsed w raw stack (argv @ ''--help'' # rest) = Some (Inr (1, None)) \<and>
    ping_main elapsed w raw stack (argv @ [''--ping'']) =
      Some (Inl (Undefined_behaviour ''std::string of a null pointer'')) \<and>
    (inet_pton4 (strip_suffix32 t) = None \<longrightarrow>
       ping_main elapsed w raw stack (argv @ ''--ping'' # t # rest) =
         Some (Inl (Abort_call ''invalid IP address'')))"
proof -
  note skip = ping_args_skip [OF assms]
  show ?thesis
    using skip [of stack "[]"] by (simp add: ping_main_def skip string_to_ipv4_address_def)
qed

theorem ping_argument_errors_witness:
  "ping_main (\<lambda>_. False) prompt_world example_reg (\<lambda>_. example_host) ([''ping''] @ [''--ping'']) =
     Some (Inl (Undefined_behaviour ''std::string of a null pointer''))"
  by (rule ping_argument_errors [THEN conjunct2, THEN conjunct2, THEN conjunct1]) simp

end
