(* ===== verification/Buffer_Custody.thy ===== *)
theory Buffer_Custody
  imports Request_Ownership "HOL-Library.Multiset"
begin

text \<open>
  Who holds a receive buffer. The kernel holds those \<open>src/IOUring.cpp\<close> has provided until it selects
  one for a completion; then the completion holds it, until the library has run its callback and
  provides the buffer again. A history keeps the buffers the kernel holds as a multiset, the
  completions it has posted and the library has not yet polled, in order, and how many stream
  receptions completed without a buffer, whose callback the library answers by providing buffer 0.
  The kernel's side of the contract is that of provided buffers: it selects only what it holds, and
  names no buffer in a completion without \<open>IORING_CQE_F_BUFFER\<close>.

  \<^item> \<open>custody\<close>: the reachable states with that history, in which the kernel posts completions
    at any time and the library polls them in order.
\<close>

section \<open>What one completion gives back\<close>

definition buffer_ids :: "io_trace \<Rightarrow> nat list" where
  "buffer_ids tr = map (\<lambda>x. snd (snd (the x))) (provided tr)"

text \<open>The buffers a handled completion provides: one for a reception that did not fail.\<close>

definition given_back :: "work_item \<Rightarrow> completion \<Rightarrow> nat list" where
  "given_back wi c = (if m_work_type wi = Type_RECV \<and> 0 \<le> cqe_res c then [buffer_index c] else [])"

abbreviation at_its_place :: "buffer_ring \<Rightarrow> nat \<Rightarrow> provided_buffer option" where
  "at_its_place b i \<equiv> Some (get_buffer b i, 4096, i)"

lemma ring_ext_provided:
  "ring_ext A r r' \<Longrightarrow> provided (m_ring r') = provided (m_ring r) \<and> m_buffers r' = m_buffers r"
  using ring_extD(2,3) client_calls_keep(2) by blast

lemma dispatch_provided:
  assumes "ring_inv r" and "seated r a"
    and "get_work_item (cqe_user_data c) (m_pool r) = Inr (Some a)"
    and "m_id (item_at a r) = cqe_user_data c"
    and "call_callback_and_free_work_item_id w (client_run w client) c r = Inr r'"
  shows "provided (m_ring r') = provided (m_ring r) @
      map (at_its_place (m_buffers r)) (given_back (item_at a r) c) \<and> m_buffers r' = m_buffers r"
proof (cases "cqe_res c = - ENOBUFS")
  case True
  then have "r' = r" using ignored_completion [OF assms(3)] assms(5) by simp
  then show ?thesis using True by (simp add: given_back_def)
next
  case False
  have l: "a < length (wp_heap (m_pool r))" "cqe_user_data c < length (m_work_items (m_pool r))"
    "m_work_items (m_pool r) ! cqe_user_data c = Some a"
    using assms(2,4) by (auto simp: seated_def)
  consider "m_work_type (item_at a r) = Type_ACCEPT" | "m_work_type (item_at a r) = Type_RECV"
    | "m_work_type (item_at a r) = Type_UNKNOWN"
    | "m_work_type (item_at a r) \<in> {Type_CLOSE, Type_CONNECT, Type_SEND_STREAM_DATA, Type_SEND_WORKPACKET}"
    by (cases "m_work_type (item_at a r)") auto
  then show ?thesis
  proof cases
    case 1
    obtain r1 where r1: "call_accept_callback (client_run w client) a c r = Inr r1" "submit_item w a r1 = Inr r'"
      using accept_dispatch [OF assms(3) 1 False assms(5)] by blast
    obtain A where c: "cb_ext A (accept_calls (item_at a r) c) r r1"
      using accept_cb_ext [OF assms(1) r1(1)] by blast
    have "a < length (wp_heap (m_pool r1))" using cb_extD(7) [OF c] l(1) by simp
    from submit_item_ext(2) [OF cb_extD(1) [OF c] this r1(2)] show ?thesis
      using ring_ext_provided cb_extD(3,5) [OF c] 1 by (fastforce simp: given_back_def)
  next
    case 2
    obtain act r1 where r1: "call_recv_callback w (client_run w client) a c r = Inr (act, r1)"
      "case act of Action_NONE \<Rightarrow> free_item (cqe_user_data c) r1 = Inr r'
         | RE_SUBMIT \<Rightarrow> submit_item w a r1 = Inr r'"
      using recv_dispatch [OF assms(3) 2 False assms(5)] by blast
    note v = recv_result [OF assms(1) l(2,3,1) r1(1)]
    have "provided (m_ring r') = provided (m_ring r1) \<and> m_buffers r' = m_buffers r1"
    proof (cases act)
      case Action_NONE
      then show ?thesis using r1(2) free_item_ext(3,4) [OF v(1)] by simp
    next
      case RE_SUBMIT
      then show ?thesis using r1(2) ring_ext_provided [OF submit_item_ext(2) [OF v(1,4)]] by simp
    qed
    then show ?thesis using v(8,10) 2 by (simp add: given_back_def)
  next
    case 3
    then show ?thesis
      using assms(5) False by (simp add: call_callback_and_free_work_item_id_def assms(3))
  next
    case 4
    obtain A r1 where c: "cb_ext A (one_shot_calls (item_at a r) c) r r1"
      "free_item (cqe_user_data c) r1 = Inr r'"
      using one_shot_dispatch [OF assms(1,3) 4 False assms(5)] by blast
    then show ?thesis
      using cb_extD(3,5) [OF c(1)] free_item_ext(3,4) [OF cb_extD(1) [OF c(1)] c(2)] 4
      by (auto simp: given_back_def)
  qed
qed

lemma poll_provided:
  assumes "owns D {} r ps" and "q \<in> set ps" and "cqe_user_data c = sqe_user_data (fst q)"
    and "w_peek w (Peek_cqe # m_ring r) = (0, c)"
    and "poll_completion_queues w client r = Inr (e, r')"
  shows "provided (m_ring r') = provided (m_ring r) @
      map (at_its_place (m_buffers r)) (given_back (snd q) c) \<and> m_buffers r' = m_buffers r"
proof -
  let ?r0 = "r\<lparr>m_ring := Peek_cqe # m_ring r\<rparr>" and ?ps = "still_pending q c ps"
  obtain a held where a: "owns D held r ?ps" "like (item_at a r) (snd q)" "seated r a"
    "m_id (item_at a r) = cqe_user_data c" "get_work_item (cqe_user_data c) (m_pool r) = Inr (Some a)"
    "held = {a} \<or> held = {} \<and> datagram (snd q)"
    using owns_take [OF assms(1,2)] assms(3) by metis
  have o: "owns D held ?r0 ?ps" by (rule owns_new_ring [OF a(1)]) simp
  have g: "get_work_item (cqe_user_data c) (m_pool ?r0) = Inr (Some a)" "seated ?r0 a"
    "item_at a ?r0 = item_at a r"
    using a(3,5) by (simp_all add: item_at_def seated_def)
  have h: "held = {a} \<or> held = {} \<and> datagram (item_at a ?r0)" using a(6) likeD(5) [OF a(2)] g(3) by simp
  note k = kernel_stores_item [OF o g(2) h g(1)]
  obtain r1 where d: "call_callback_and_free_work_item_id w (client_run w client) c (kernel_stores c ?r0) = Inr r1"
    and r': "r' = r1\<lparr>m_ring := Cq_advance 1 # m_ring r1\<rparr>"
    using assms(4,5) by (auto simp: poll_completion_queues_def poll_with_def ebind_eq_Inr Let_def)
  have "m_work_type (item_at a (kernel_stores c ?r0)) = m_work_type (snd q)"
    using g likeD(4) [OF a(2)] a(3)
    by (auto simp: kernel_stores_def item_at_def heap_write_nth seated_def split: option.split)
  then have "given_back (item_at a (kernel_stores c ?r0)) c = given_back (snd q) c"
    by (simp add: given_back_def)
  moreover have "m_id (item_at a (kernel_stores c ?r0)) = cqe_user_data c" using k(4) g(3) a(4) by simp
  moreover have "m_buffers (kernel_stores c ?r0) = m_buffers r"
    by (auto simp: kernel_stores_def split: option.splits sum.splits)
  ultimately show ?thesis
    using dispatch_provided [OF ownsD(1) [OF k(1)] k(2,3) _ d] kernel_stores_keeps(2) [OF ownsD(1) [OF o], of c] r'
    by simp
qed

section \<open>The history\<close>

definition selects :: "(sqe \<times> work_item) \<times> completion \<Rightarrow> bool" where
  "selects p \<longleftrightarrow>
     m_work_type (snd (fst p)) = Type_RECV \<and> 0 \<le> cqe_res (snd p) \<and>
     cqe_flags (snd p) AND IORING_CQE_F_BUFFER \<noteq> 0"

definition unselected :: "(sqe \<times> work_item) \<times> completion \<Rightarrow> bool" where
  "unselected p \<longleftrightarrow>
     m_work_type (snd (fst p)) = Type_RECV \<and> 0 \<le> cqe_res (snd p) \<and>
     cqe_flags (snd p) AND IORING_CQE_F_BUFFER = 0"

definition in_flight :: "((sqe \<times> work_item) \<times> completion) list \<Rightarrow> nat multiset" where
  "in_flight posted = mset (map (\<lambda>p. buffer_index (snd p)) (filter selects posted))"

lemma in_flight_simps [simp]:
  "in_flight [] = {#}"
  "in_flight (p # posted) =
     (if selects p then add_mset (buffer_index (snd p)) (in_flight posted) else in_flight posted)"
  "in_flight (posted @ later) = in_flight posted + in_flight later"
  by (simp_all add: in_flight_def)

inductive custody ::
  "world \<Rightarrow> nat set \<Rightarrow> client \<Rightarrow> iouring \<Rightarrow> pending \<Rightarrow> nat multiset \<Rightarrow>
     ((sqe \<times> work_item) \<times> completion) list \<Rightarrow> nat \<Rightarrow> bool" for w D client where
  custody_init: "init w (new_iouring raw n tr) = Inr (e, r) \<Longrightarrow> submitted tr = [] \<Longrightarrow>
    provided tr = [] \<Longrightarrow> custody w D client r [] (mset (buffer_ids (m_ring r))) [] 0"
| custody_prog: "custody w D client r ps avail posted extra \<Longrightarrow> tidy D p {} \<Longrightarrow>
    run_prog w p r = Inr (act, r') \<Longrightarrow> submitted (m_ring r') = new @ submitted (m_ring r) \<Longrightarrow>
    custody w D client r' (with_items r' new @ ps) avail posted extra"
| custody_post: "custody w D client r ps avail posted extra \<Longrightarrow> q \<in> set ps \<Longrightarrow>
    cqe_user_data c = sqe_user_data (fst q) \<Longrightarrow>
    (if selects (q, c) then buffer_index c \<in># avail
     else unselected (q, c) \<longrightarrow> buffer_index c = 0) \<Longrightarrow>
    custody w D client r (still_pending q c ps)
      (if selects (q, c) then avail - {#buffer_index c#} else avail) (posted @ [(q, c)]) extra"
| custody_idle: "custody w D client r ps avail posted extra \<Longrightarrow>
    fst (w_peek w (Peek_cqe # m_ring r)) \<noteq> 0 \<Longrightarrow>
    poll_completion_queues w client r = Inr (e, r') \<Longrightarrow> custody w D client r' ps avail posted extra"
| custody_poll: "custody w D client r ps avail ((q, c) # posted) extra \<Longrightarrow>
    w_peek w (Peek_cqe # m_ring r) = (0, c) \<Longrightarrow>
    poll_completion_queues w client r = Inr (e, r') \<Longrightarrow>
    submitted (m_ring r') = new @ submitted (m_ring r) \<Longrightarrow>
    buffer_ids (m_ring r') = buffer_ids (m_ring r) @ given \<Longrightarrow>
    custody w D client r' (with_items r' new @ ps) (avail + mset given) posted
      (if unselected (q, c) then Suc extra else extra)"

section \<open>Conservation\<close>

lemma distinct_some:
  assumes "distinct xs" and "mset ys \<subseteq># mset xs"
  shows "distinct ys"
proof -
  obtain zs where "mset xs = mset (ys @ zs)"
    using assms(2) by (metis ex_mset mset_append subset_mset.add_diff_inverse)
  then show ?thesis using assms(1) mset_eq_imp_distinct_iff by fastforce
qed

lemma owns_some:
  assumes "owns D held r ps" and "mset ps' \<subseteq># mset ps"
  shows "owns D held r ps'"
proof -
  note o = ownsD [OF assms(1)]
  have "mset (pending_ids (singles ps')) \<subseteq># mset (pending_ids (singles ps))"
    using assms(2) by (simp add: pending_ids_def singles_def multiset_filter_mono image_mset_subseteq_mono)
  then have "distinct (pending_ids (singles ps'))"
    by (rule distinct_some [OF o(2)])
  moreover have sub: "set ps' \<subseteq> set ps" using set_mset_mono [OF assms(2)] by simp
  moreover have "set (pending_ids ps') \<subseteq> set (pending_ids ps)"
    using sub by (auto simp: pending_ids_def)
  ultimately show ?thesis using o unfolding owns_def by blast
qed

lemma owns_perm: "owns D held r ps \<Longrightarrow> mset ps' = mset ps \<Longrightarrow> owns D held r ps'"
  by (erule owns_some) simp

lemma owns_double:
  "owns D held r ps \<Longrightarrow> q \<in> set ps \<Longrightarrow> datagram (snd q) \<Longrightarrow> owns D held r (q # ps)"
  by (auto simp: owns_def pending_ids_def)

text \<open>
  The state between the steps: the entries the kernel may still complete and those of the posted
  completions have their items; the buffers add up; every provided buffer is at its place.
\<close>

definition in_custody ::
  "nat set \<Rightarrow> iouring \<Rightarrow> pending \<Rightarrow> nat multiset \<Rightarrow> ((sqe \<times> work_item) \<times> completion) list \<Rightarrow> nat \<Rightarrow> bool"
where
  "in_custody D r ps avail posted extra \<longleftrightarrow>
     owns D {} r (ps @ map fst posted) \<and>
     (\<forall>(q, c) \<in> set posted. cqe_user_data c = sqe_user_data (fst q) \<and>
        (unselected (q, c) \<longrightarrow> buffer_index c = 0)) \<and>
     (\<exists>n \<in> {0, 512}. avail + in_flight posted = mset [0..<n] + replicate_mset extra 0) \<and>
     (\<forall>x \<in> set (provided (m_ring r)). \<exists>i. x = at_its_place (m_buffers r) i)"

lemma in_custody_init:
  assumes "init w (new_iouring raw n tr) = Inr (e, r)" and "submitted tr = []" and "provided tr = []"
  shows "in_custody D r [] (mset (buffer_ids (m_ring r))) [] 0"
proof -
  obtain e1 b tr1 where s: "setup_buffer_pool w (new_buffer_ring raw) (Queue_init n # tr) = (e1, b, tr1)"
    by (metis prod_cases3)
  then have r: "r = (new_iouring raw n tr)\<lparr>m_buffers := b, m_ring := tr1, m_initialized := True\<rparr>"
    using assms(1)
    by (auto simp: init_def init_ring_def new_iouring_def ebind_eq_Inr Let_def split: if_splits)
  have p: "provided tr1 = [] \<or> provided tr1 = map (at_its_place b) [0..<512]"
    using setup_provided [OF s] assms(3) by fastforce
  then have "buffer_ids tr1 = [] \<or> buffer_ids tr1 = [0..<512]"
    by (auto simp: buffer_ids_def comp_def simp del: upt_rec_numeral)
  then have "\<exists>n \<in> {0, 512}. mset (buffer_ids tr1) = mset [0..<n]"
    by (auto simp del: upt_rec_numeral)
  moreover have "owns D {} r []" using init_inv [OF assms(1,2)] by (simp add: owns_def)
  ultimately show ?thesis using p by (auto simp: in_custody_def r simp del: upt_rec_numeral)
qed

lemma in_custody_prog:
  assumes "in_custody D r ps avail posted extra" and "tidy D p {}" and "run_prog w p r = Inr (act, r')"
    and "submitted (m_ring r') = new @ submitted (m_ring r)"
  shows "in_custody D r' (with_items r' new @ ps) avail posted extra"
proof -
  have o: "owns D ({} \<union> {}) r (ps @ map fst posted)" using assms(1) by (simp add: in_custody_def)
  from tidy_run [OF assms(3,2) this] assms(4)
  have "owns D {} r' (with_items r' new @ ps @ map fst posted)" by simp
  moreover have "provided (m_ring r') = provided (m_ring r) \<and> m_buffers r' = m_buffers r"
    using ring_ext_provided conjunct2 [OF run_prog_ext [OF ownsD(1) [OF o] assms(3)]] by blast
  ultimately show ?thesis using assms(1) by (simp add: in_custody_def)
qed

lemma in_custody_post:
  assumes "in_custody D r ps avail posted extra" and "q \<in> set ps"
    and "cqe_user_data c = sqe_user_data (fst q)"
    and "if selects (q, c) then buffer_index c \<in># avail else unselected (q, c) \<longrightarrow> buffer_index c = 0"
  shows "in_custody D r (still_pending q c ps)
    (if selects (q, c) then avail - {#buffer_index c#} else avail) (posted @ [(q, c)]) extra"
proof -
  have o: "owns D {} r (ps @ map fst posted)" using assms(1) by (simp add: in_custody_def)
  have "owns D {} r (still_pending q c ps @ map fst posted @ [q])"
  proof (cases "datagram (snd q) \<and> cqe_flags c AND IORING_CQE_F_MORE \<noteq> 0")
    case True
    then show ?thesis
      using owns_perm [OF owns_double [OF o, of q], of "ps @ map fst posted @ [q]"] assms(2)
      by (simp add: still_pending_def)
  next
    case False
    have "still_pending q c ps = remove1 q ps" by (simp only: still_pending_def if_not_P [OF False])
    then show ?thesis
      using owns_perm [OF o, of "remove1 q ps @ map fst posted @ [q]"] assms(2) by simp
  qed
  moreover have "\<not> (selects (q, c) \<and> unselected (q, c))" by (simp add: selects_def unselected_def)
  moreover have "(if selects (q, c) then avail - {#buffer_index c#} else avail) + in_flight (posted @ [(q, c)]) =
      avail + in_flight posted"
    using assms(4) by simp
  ultimately show ?thesis using assms(1,3,4) by (auto simp: in_custody_def)
qed

lemma in_custody_poll:
  assumes "in_custody D r ps avail ((q, c) # posted) extra" and "tidy_client D client"
    and "w_peek w (Peek_cqe # m_ring r) = (0, c)" and "poll_completion_queues w client r = Inr (e, r')"
    and "submitted (m_ring r') = new @ submitted (m_ring r)"
    and "buffer_ids (m_ring r') = buffer_ids (m_ring r) @ given"
  shows "in_custody D r' (with_items r' new @ ps) (avail + mset given) posted
      (if unselected (q, c) then Suc extra else extra)"
    and "given = given_back (snd q) c"
proof -
  let ?ps = "ps @ map fst ((q, c) # posted)"
  have o: "owns D {} r ?ps" and id: "cqe_user_data c = sqe_user_data (fst q)"
    and i0: "unselected (q, c) \<Longrightarrow> buffer_index c = 0"
    using assms(1) by (auto simp: in_custody_def)
  have p: "provided (m_ring r') = provided (m_ring r) @
      map (at_its_place (m_buffers r)) (given_back (snd q) c)" "m_buffers r' = m_buffers r"
    using poll_provided [OF o _ id assms(3,4)] by simp_all
  then show g: "given = given_back (snd q) c"
    using assms(6) by (simp add: buffer_ids_def given_back_def split: if_splits)
  have "owns D {} r' (with_items r' new @ still_pending q c ?ps)"
    using poll_owns [OF o assms(2,3) _ id assms(4)] assms(5) by auto
  moreover have "mset (ps @ map fst posted) \<subseteq># mset (still_pending q c ?ps)"
    by (simp add: still_pending_def)
  ultimately have "owns D {} r' (with_items r' new @ ps @ map fst posted)"
    by (elim owns_some) simp
  moreover have "mset given + in_flight posted =
      in_flight ((q, c) # posted) + (if unselected (q, c) then {#0#} else {#})"
    using g i0 by (auto simp: given_back_def selects_def unselected_def)
  ultimately show "in_custody D r' (with_items r' new @ ps) (avail + mset given) posted
      (if unselected (q, c) then Suc extra else extra)"
    using assms(1) p by (auto simp: in_custody_def add.assoc)
qed

lemma custody_in_custody:
  "custody w D client r ps avail posted extra \<Longrightarrow> tidy_client D client \<Longrightarrow>
     in_custody D r ps avail posted extra"
proof (induction rule: custody.induct)
  case (custody_init raw n tr e r)
  then show ?case by (intro in_custody_init)
next
  case (custody_prog r ps avail posted extra p act r' new)
  then show ?case by (intro in_custody_prog)
next
  case (custody_post r ps avail posted extra q c)
  then show ?case by (intro in_custody_post)
next
  case (custody_idle r ps avail posted extra e r')
  have "r' = r\<lparr>m_ring := Peek_cqe # m_ring r\<rparr>"
    using custody_idle.hyps(2,3)
    by (cases "w_peek w (Peek_cqe # m_ring r)")
      (auto simp: poll_completion_queues_def poll_with_def Let_def split: if_splits)
  then show ?case
    using custody_idle.IH [OF custody_idle.prems] owns_new_ring [of D "{}" r _ "Peek_cqe # m_ring r"]
    by (simp add: in_custody_def)
next
  case (custody_poll r ps avail q c posted extra e r' new given)
  from in_custody_poll(1) [OF custody_poll.IH [OF custody_poll.prems] custody_poll.prems
      custody_poll.hyps(2-5)]
  show ?case .
qed

section \<open>Properties\<close>

text \<open>
  C4. Receive buffers are neither lost nor doubled, except for one thing. Whatever the kernel answers, in
  whatever order clients ask and completions come, the buffers the kernel holds and those of the
  completions waiting to be polled make up exactly the 512 provided at the start (none, when the
  set-up failed), plus one buffer 0 for every reception that completed without a buffer. And every
  buffer ever provided is given with its own address and size.
\<close>

theorem receive_buffers_conserved:
  assumes "custody w D client r ps avail posted extra" and "tidy_client D client"
  shows "(\<exists>n \<in> {0, 512}. avail + in_flight posted = mset [0..<n] + replicate_mset extra 0) \<and>
    (\<forall>x \<in> set (provided (m_ring r)). \<exists>i. x = Some (get_buffer (m_buffers r) i, 4096, i))"
  using custody_in_custody [OF assms] by (simp add: in_custody_def)

text \<open>A run to a posted completion that holds buffer 7.\<close>

lemma example_init:
  "\<exists>raw r0. init (ready_world\<lparr>w_peek := pk\<rparr>) (new_iouring raw 64 []) = Inr (Error_OK, r0) \<and>
     m_pool r0 = new_pool \<and> m_initialized r0 \<and> submitted (m_ring r0) = [] \<and>
     buffer_ids (m_ring r0) = [0..<512]"
proof -
  let ?w = "ready_world\<lparr>w_peek := pk\<rparr>"
  let ?raw = "\<lparr>ring_addr = 0, ring_entries = 0, bgid = 0, reg_flags = 0\<rparr>"
  have probe: "probe_features (w_probe ?w) = Inr ()" using probe_example by simp
  have "w_mmap ?w (Mmap 4210688 # [Queue_init 64]) = Some 4096"
    "w_syscall ?w (Register_buf_ring 4096 1024 0 # Buf_ring_init # Mmap 4210688 # [Queue_init 64]) = 0"
    by (simp_all add: example_world_def)
  from setup_registered [OF this, of "new_buffer_ring ?raw"] obtain b tr where
    s: "setup_buffer_pool ?w (new_buffer_ring ?raw) [Queue_init 64] = (Error_OK, b, tr)"
      "provided tr = provided [Queue_init 64] @ map (at_its_place b) [0..<512]"
    by blast
  let ?r = "(new_iouring ?raw 64 [])\<lparr>m_buffers := b, m_ring := tr, m_initialized := True\<rparr>"
  have "w_syscall ?w [Queue_init 64] = 0" by (simp add: example_world_def)
  then have "init ?w (new_iouring ?raw 64 []) = Inr (Error_OK, ?r)"
    using s(1) probe by (simp add: init_def init_ring_def new_iouring_def Let_def)
  moreover have "buffer_ids tr = [0..<512]"
    using s(2) by (simp add: buffer_ids_def comp_def del: upt_rec_numeral)
  ultimately show ?thesis
    using setup_buffer_pool_submitted [OF s(1)]
    by (intro exI [of _ ?raw] exI [of _ ?r]) (simp add: new_iouring_def del: upt_rec_numeral)
qed

abbreviation seventh :: completion where
  "seventh \<equiv> plain_completion 2 (1 OR push_bit 16 7)"

lemma seventh_index: "buffer_index seventh = 7"
  by (simp add: buffer_index_def plain_completion_def push_bit_eq_mult)

lemma example_custody:
  "\<exists>r s wi. custody (ready_world\<lparr>w_peek := \<lambda>_. (0, seventh)\<rparr>) {} (answering Action_NONE) r []
     (mset [0..<512] - {#7#}) [((s, wi), seventh)] 0 \<and> selects ((s, wi), seventh) \<and>
     m_work_type wi = Type_RECV \<and> m_socket wi = example_socket \<and> m_callback wi = Recv_cb (Some 3) \<and>
     sqe_user_data s = 0"
proof -
  let ?w = "ready_world\<lparr>w_peek := \<lambda>_. (0, seventh)\<rparr>" and ?k = "answering Action_NONE"
  obtain raw r0 where i: "init ?w (new_iouring raw 64 []) = Inr (Error_OK, r0)"
    "m_pool r0 = new_pool" "m_initialized r0" "submitted (m_ring r0) = []"
    "buffer_ids (m_ring r0) = [0..<512]"
    using example_init by blast
  have "w_get_sqe ?w tr" for tr by simp
  from recv_on_fresh_ring [OF i(2,3) this, of example_socket] obtain r s where
    r: "run_prog ?w (Submit_recv example_socket (Some 3) (Return RE_SUBMIT)) r0 = Inr (RE_SUBMIT, r)"
      "submitted (m_ring r) = [s] @ submitted (m_ring r0)" "sqe_user_data s = 0"
      "m_work_type (the (pool_abs (m_pool r) 0)) = Type_RECV"
      "m_socket (the (pool_abs (m_pool r) 0)) = example_socket"
      "m_callback (the (pool_abs (m_pool r) 0)) = Recv_cb (Some 3)"
    by auto
  let ?wi = "the (pool_abs (m_pool r) 0)"
  have "custody ?w {} ?k r0 [] (mset [0..<512]) [] 0"
    using custody_init [OF i(1)] i(5) by (simp del: upt_rec_numeral)
  from custody_prog [OF this _ r(1,2)] have
    c: "custody ?w {} ?k r [(s, ?wi)] (mset [0..<512]) [] 0"
    using r(3) example_clients(3) by (simp del: upt_rec_numeral)
  have sel: "selects ((s, ?wi), seventh)" using r(4) by (simp add: selects_def plain_completion_def)
  have "\<not> datagram ?wi" using r(5) example_clients(3) by (simp add: datagram_def wi_is_stream_def)
  then have "still_pending (s, ?wi) seventh [(s, ?wi)] = []" by (simp add: still_pending_def)
  with custody_post [OF c, of "(s, ?wi)" seventh] sel r(3) seventh_index have
    "custody ?w {} ?k r [] (mset [0..<512] - {#7#}) [((s, ?wi), seventh)] 0"
    by (simp del: upt_rec_numeral)
  with sel r show ?thesis by blast
qed

theorem receive_buffers_conserved_witness:
  "\<exists>r q. custody (ready_world\<lparr>w_peek := \<lambda>_. (0, seventh)\<rparr>) {} (answering Action_NONE) r []
      (mset [0..<512] - {#7#}) [(q, seventh)] 0 \<and> in_flight [(q, seventh)] = {#7#} \<and>
     (\<exists>n \<in> {0, 512}. mset [0..<512] - {#7#} + in_flight [(q, seventh)] = mset [0..<n])"
proof -
  obtain r s wi where c: "custody (ready_world\<lparr>w_peek := \<lambda>_. (0, seventh)\<rparr>) {} (answering Action_NONE) r []
     (mset [0..<512] - {#7#}) [((s, wi), seventh)] 0" "selects ((s, wi), seventh)"
    using example_custody by blast
  have "in_flight [((s, wi), seventh)] = {#7#}" using c(2) seventh_index by simp
  with receive_buffers_conserved [OF c(1) example_clients(1)] c(1) show ?thesis
    by (intro exI [of _ r] exI [of _ "(s, wi)"]) (simp del: upt_rec_numeral)
qed



end
