(* ===== verification/Host_Resolver.thy ===== *)
theory Host_Resolver
  imports Io_World
begin

text \<open>
  Name resolution in \<open>src/IOUring.cpp\<close> and \<open>src/IOUring.hpp\<close>: \<open>RequestInfo\<close>, \<open>resolve_hostname\<close>,
  \<open>convert_addresses\<close> and \<open>trigger_hostname_resolve_callbacks\<close>. A \<open>gaicb\<close> is the number of its
  allocation; what \<open>getaddrinfo_a\<close> leaves in \<open>ar_result\<close> when it notifies is an argument of the
  notification. The notification runs on a thread of its own in the program; the model is one
  sequence of calls. The handlers called are a log, newest first; what they do then is the subject
  of the theory \<open>Application\<close>.

  \<^item> \<open>dns_op\<close>, \<open>run_dns\<close>: an application's requests and the notifications, in some order.
\<close>

section \<open>State\<close>

type_synonym addr_info = "u16 \<times> bytes"
type_synonym resolve_result = "error_code + ip_address list"

record request_info =
  ri_hostname :: string
  ri_request :: "nat option"
  ri_handlers :: "nat list"

record resolver =
  s_self :: bool
  m_hostname_DNS_requests :: "request_info list"
  gaicb_count :: nat
  lookups :: "(nat \<times> string) list"
  answers :: "(nat \<times> resolve_result) list"

definition new_resolver :: resolver where
  "new_resolver =
     \<lparr>s_self = False, m_hostname_DNS_requests = [], gaicb_count = 0, lookups = [], answers = []\<rparr>"

text \<open>The constructor of \<open>RequestInfo\<close>: a \<open>gaicb\<close> of its own and no handlers.\<close>

definition new_request_info :: "string \<Rightarrow> nat \<Rightarrow> request_info" where
  "new_request_info hostname ptr =
     \<lparr>ri_hostname = hostname, ri_request = Some ptr, ri_handlers = []\<rparr>"

section \<open>Operations\<close>

primrec convert_addresses :: "addr_info list \<Rightarrow> ip_address list" where
  "convert_addresses [] = []"
| "convert_addresses (rp # rest) =
     (if fst rp = AF_INET
      then ip_of_sockaddr_in (sockaddr_in_of_bytes (snd rp)) # convert_addresses rest
      else if fst rp = AF_INET6
      then ip_of_sockaddr_in6 (sockaddr_in6_of_bytes (snd rp)) # convert_addresses rest
      else convert_addresses rest)"

text \<open>The search for the hostname: the first entry with it gets the handler.\<close>

primrec add_handler :: "string \<Rightarrow> nat \<Rightarrow> request_info list \<Rightarrow> request_info list option" where
  "add_handler hostname h [] = None"
| "add_handler hostname h (req # rest) =
     (if ri_hostname req = hostname
      then Some (req\<lparr>ri_handlers := ri_handlers req @ [h]\<rparr> # rest)
      else (case add_handler hostname h rest of None \<Rightarrow> None | Some rest' \<Rightarrow> Some (req # rest')))"

definition resolve_hostname ::
  "sockaddr_in \<Rightarrow> sockaddr_in6 \<Rightarrow> pton6_fun \<Rightarrow> string \<Rightarrow> nat \<Rightarrow> resolver \<Rightarrow> resolver" where
  "resolve_hostname raw4 raw6 pton6 hostname h st =
     (case ip_parse raw4 raw6 pton6 hostname of
        Inr addr \<Rightarrow> st\<lparr>answers := (h, Inr [addr]) # answers st\<rparr>
      | Inl e \<Rightarrow>
         let st = st\<lparr>s_self := True\<rparr> in
         (case add_handler hostname h (m_hostname_DNS_requests st) of
            Some reqs \<Rightarrow> st\<lparr>m_hostname_DNS_requests := reqs\<rparr>
          | None \<Rightarrow>
              let ptr = gaicb_count st in
              st\<lparr>m_hostname_DNS_requests :=
                   m_hostname_DNS_requests st @ [new_request_info hostname ptr],
                 gaicb_count := Suc ptr,
                 lookups := (ptr, c_str hostname) # lookups st\<rparr>))"

text \<open>One round of the loop of \<open>trigger_hostname_resolve_callbacks\<close>: the entry and the calls.\<close>

definition trigger_entry ::
  "nat \<Rightarrow> addr_info list option \<Rightarrow> request_info \<Rightarrow> request_info \<times> (nat \<times> resolve_result) list" where
  "trigger_entry ptr ar_result it =
     (case ri_request it of
        None \<Rightarrow> (it, [])
      | Some request \<Rightarrow>
          if request \<noteq> ptr then (it, [])
          else
            (case ar_result of
               None \<Rightarrow>
                 (it, map (\<lambda>h. (h, Inl Error_HOSTNAME_RESOLVE_FAILED)) (ri_handlers it))
             | Some res \<Rightarrow>
                 (it\<lparr>ri_request := None\<rparr>,
                  map (\<lambda>h. (h, Inr (convert_addresses res))) (ri_handlers it))))"

primrec trigger_entries ::
  "nat \<Rightarrow> addr_info list option \<Rightarrow> request_info list \<Rightarrow> request_info list \<times> (nat \<times> resolve_result) list"
where
  "trigger_entries ptr ar_result [] = ([], [])"
| "trigger_entries ptr ar_result (it # rest) =
     (let (it', calls) = trigger_entry ptr ar_result it;
          (rest', calls') = trigger_entries ptr ar_result rest
      in (it' # rest', calls @ calls'))"

definition trigger_hostname_resolve_callbacks ::
  "nat \<Rightarrow> addr_info list option \<Rightarrow> resolver \<Rightarrow> resolver" where
  "trigger_hostname_resolve_callbacks ptr ar_result st =
     (let (reqs, calls) = trigger_entries ptr ar_result (m_hostname_DNS_requests st)
      in st\<lparr>m_hostname_DNS_requests := reqs, answers := rev calls @ answers st\<rparr>)"

text \<open>The function \<open>getaddrinfo_a\<close> notifies: it finds the ring through the global \<open>s_self\<close>.\<close>

definition sig_notifier_hostname_resolve ::
  "nat \<Rightarrow> addr_info list option \<Rightarrow> resolver \<Rightarrow> resolver outcome" where
  "sig_notifier_hostname_resolve ptr ar_result st =
     ebind (assert_that ''s_self != nullptr'' (s_self st)) (\<lambda>_.
     Inr (trigger_hostname_resolve_callbacks ptr ar_result st))"

section \<open>Runs\<close>

datatype dns_op =
    Resolve string nat
  | Notify nat "addr_info list option"

definition dns_step ::
  "sockaddr_in \<Rightarrow> sockaddr_in6 \<Rightarrow> pton6_fun \<Rightarrow> dns_op \<Rightarrow> resolver \<Rightarrow> resolver outcome" where
  "dns_step raw4 raw6 pton6 oper st =
     (case oper of
        Resolve hostname h \<Rightarrow> Inr (resolve_hostname raw4 raw6 pton6 hostname h st)
      | Notify ptr ar_result \<Rightarrow> sig_notifier_hostname_resolve ptr ar_result st)"

primrec run_dns ::
  "sockaddr_in \<Rightarrow> sockaddr_in6 \<Rightarrow> pton6_fun \<Rightarrow> dns_op list \<Rightarrow> resolver \<Rightarrow> resolver outcome" where
  "run_dns raw4 raw6 pton6 [] st = Inr st"
| "run_dns raw4 raw6 pton6 (oper # ops) st =
     ebind (dns_step raw4 raw6 pton6 oper st) (run_dns raw4 raw6 pton6 ops)"

section \<open>Lemmas\<close>

text \<open>The handlers waiting in a list of entries, and the pointers still pending.\<close>

definition waiting :: "request_info list \<Rightarrow> nat set" where
  "waiting reqs = (\<Union>r \<in> set reqs. set (ri_handlers r))"

lemma waiting_simps [simp]:
  "waiting [] = {}" "waiting (r # rs) = set (ri_handlers r) \<union> waiting rs"
  "waiting (xs @ ys) = waiting xs \<union> waiting ys"
  by (auto simp: waiting_def)

lemma add_handler_None: "add_handler n h reqs = None \<longleftrightarrow> n \<notin> ri_hostname ` set reqs"
  by (induction reqs) (auto split: option.splits)

lemma add_handler_Some:
  "add_handler n h reqs = Some reqs' \<Longrightarrow>
     map ri_hostname reqs' = map ri_hostname reqs \<and> map ri_request reqs' = map ri_request reqs \<and>
     waiting reqs' = insert h (waiting reqs)"
proof (induction reqs arbitrary: reqs')
  case Nil
  then show ?case by simp
next
  case (Cons r rs)
  show ?case
  proof (cases "ri_hostname r = n")
    case True
    then have "reqs' = r\<lparr>ri_handlers := ri_handlers r @ [h]\<rparr> # rs" using Cons.prems by simp
    then show ?thesis by simp
  next
    case False
    then obtain rs' where "add_handler n h rs = Some rs'" "reqs' = r # rs'"
      using Cons.prems by (auto split: option.splits)
    then show ?thesis using Cons.IH by simp
  qed
qed

lemma trigger_entry_keeps:
  assumes "trigger_entry p res it = (it', calls)"
  shows "ri_hostname it' = ri_hostname it" and "ri_handlers it' = ri_handlers it"
    and "fst ` set calls \<subseteq> set (ri_handlers it)"
    and "ri_request it' = (if ri_request it = Some p \<and> res \<noteq> None then None else ri_request it)"
    and "ri_request it \<noteq> Some p \<Longrightarrow> calls = []"
  using assms by (auto simp: trigger_entry_def split: option.splits if_splits)

lemma trigger_entries_keeps:
  "trigger_entries p res reqs = (reqs', calls) \<Longrightarrow>
     map ri_hostname reqs' = map ri_hostname reqs \<and> waiting reqs' = waiting reqs \<and>
     fst ` set calls \<subseteq> waiting reqs"
proof (induction reqs arbitrary: reqs' calls)
  case Nil
  then show ?case by simp
next
  case (Cons it rest)
  obtain it' c1 rest' c2 where
    t: "trigger_entry p res it = (it', c1)" "trigger_entries p res rest = (rest', c2)"
    by fastforce
  then have "reqs' = it' # rest'" "calls = c1 @ c2" using Cons.prems by simp_all
  then show ?case
    using trigger_entry_keeps [OF t(1)] Cons.IH [OF t(2)] by auto
qed

text \<open>An entry whose request is gone stays as it is and is never answered.\<close>

lemma trigger_entries_nth:
  "trigger_entries p res reqs = (reqs', calls) \<Longrightarrow> k < length reqs \<Longrightarrow>
     length reqs' = length reqs \<and> reqs' ! k = fst (trigger_entry p res (reqs ! k))"
proof (induction reqs arbitrary: reqs' calls k)
  case Nil
  then show ?case by simp
next
  case (Cons it rest)
  obtain it' c1 rest' c2 where
    t: "trigger_entry p res it = (it', c1)" "trigger_entries p res rest = (rest', c2)"
    by fastforce
  then have r: "reqs' = it' # rest'" using Cons.prems(1) by simp
  show ?case
  proof (cases k)
    case 0
    have "length rest' = length rest"
      using Cons.IH [OF t(2)] t(2) by (cases rest) auto
    then show ?thesis using t r 0 by simp
  next
    case (Suc j)
    then show ?thesis using Cons.IH [OF t(2), of j] Cons.prems(2) r by simp
  qed
qed

lemma trigger_only:
  "distinct (List.map_filter ri_request reqs) \<Longrightarrow> k < length reqs \<Longrightarrow>
     ri_request (reqs ! k) = Some p \<Longrightarrow>
     snd (trigger_entries p res reqs) = snd (trigger_entry p res (reqs ! k))"
proof (induction reqs arbitrary: k)
  case Nil
  then show ?case by simp
next
  case (Cons it rest)
  have none: "snd (trigger_entries p res xs) = []" if "p \<notin> set (List.map_filter ri_request xs)" for xs
    using that
    by (induction xs) (auto simp: List.map_filter_simps trigger_entry_def split: option.splits
        prod.splits if_splits)
  show ?case
  proof (cases k)
    case 0
    then have "p \<notin> set (List.map_filter ri_request rest)"
      using Cons.prems(1,3) by (simp add: List.map_filter_simps)
    then show ?thesis
      using none [of rest] 0
      by (cases "trigger_entries p res rest"; cases "trigger_entry p res it") simp
  next
    case (Suc j)
    then have "p \<in> set (List.map_filter ri_request rest)"
      using Cons.prems(2,3) by (force simp: List.map_filter_def)
    then have "ri_request it \<noteq> Some p"
      using Cons.prems(1) by (auto simp: List.map_filter_simps)
    then have "snd (trigger_entry p res it) = []"
      by (auto simp: trigger_entry_def split: option.splits)
    moreover have "distinct (List.map_filter ri_request rest)"
      using Cons.prems(1) by (auto simp: List.map_filter_simps split: option.splits)
    ultimately show ?thesis
      using Cons.IH [of j] Cons.prems(2,3) Suc
      by (cases "trigger_entries p res rest"; cases "trigger_entry p res it") simp
  qed
qed

lemma pending_unique:
  "distinct (List.map_filter f xs) \<Longrightarrow> i < length xs \<Longrightarrow> k < length xs \<Longrightarrow>
     f (xs ! i) = Some p \<Longrightarrow> f (xs ! k) = Some p \<Longrightarrow> i = k"
proof (induction xs arbitrary: i k)
  case Nil
  then show ?case by simp
next
  case (Cons x xs)
  have later: "p \<in> set (List.map_filter f xs)" if "j < length xs" "f (xs ! j) = Some p" for j
    using that by (force simp: List.map_filter_def)
  have d: "distinct (List.map_filter f xs)" and "f x = Some p \<Longrightarrow> p \<notin> set (List.map_filter f xs)"
    using Cons.prems(1) by (auto simp: List.map_filter_simps split: option.splits)
  then show ?case
    using Cons.prems(2-5) Cons.IH [OF d] later by (cases i; cases k) auto
qed

section \<open>Requests that are never answered\<close>

text \<open>
  A handler is stuck when it has not been called and waits, if at all, only in entries whose
  request is gone. No later operation calls it.
\<close>

definition stuck :: "nat \<Rightarrow> resolver \<Rightarrow> bool" where
  "stuck h st \<longleftrightarrow>
     h \<notin> fst ` set (answers st) \<and>
     (\<forall>r \<in> set (m_hostname_DNS_requests st). h \<in> set (ri_handlers r) \<longrightarrow> ri_request r = None)"

lemma add_handler_stuck:
  "add_handler n g reqs = Some reqs' \<Longrightarrow> g \<noteq> h \<Longrightarrow>
     \<forall>r \<in> set reqs. h \<in> set (ri_handlers r) \<longrightarrow> ri_request r = None \<Longrightarrow>
     \<forall>r \<in> set reqs'. h \<in> set (ri_handlers r) \<longrightarrow> ri_request r = None"
proof (induction reqs arbitrary: reqs')
  case Nil
  then show ?case by simp
next
  case (Cons r rs)
  show ?case
  proof (cases "ri_hostname r = n")
    case True
    then have "reqs' = r\<lparr>ri_handlers := ri_handlers r @ [g]\<rparr> # rs" using Cons.prems by simp
    then show ?thesis using Cons.prems(2,3) by simp
  next
    case False
    then obtain rs' where "add_handler n g rs = Some rs'" "reqs' = r # rs'"
      using Cons.prems(1) by (auto split: option.splits)
    then show ?thesis using Cons.IH Cons.prems(2,3) by simp
  qed
qed

text \<open>A handler added to an entry whose request is gone waits for nothing.\<close>

lemma add_handler_gone:
  "add_handler n h reqs = Some reqs' \<Longrightarrow> h \<notin> waiting reqs \<Longrightarrow>
     \<forall>r \<in> set reqs. ri_hostname r = n \<longrightarrow> ri_request r = None \<Longrightarrow>
     \<forall>r \<in> set reqs'. h \<in> set (ri_handlers r) \<longrightarrow> ri_request r = None"
proof (induction reqs arbitrary: reqs')
  case Nil
  then show ?case by simp
next
  case (Cons r rs)
  show ?case
  proof (cases "ri_hostname r = n")
    case True
    then have "reqs' = r\<lparr>ri_handlers := ri_handlers r @ [h]\<rparr> # rs" using Cons.prems by simp
    then show ?thesis using Cons.prems(2,3) True by (auto simp: waiting_def)
  next
    case False
    then obtain rs' where "add_handler n h rs = Some rs'" "reqs' = r # rs'"
      using Cons.prems(1) by (auto split: option.splits)
    then show ?thesis using Cons.IH Cons.prems(2,3) by simp
  qed
qed

lemma trigger_entries_stuck:
  "trigger_entries p res reqs = (reqs', calls) \<Longrightarrow>
     \<forall>r \<in> set reqs. h \<in> set (ri_handlers r) \<longrightarrow> ri_request r = None \<Longrightarrow>
     (\<forall>r \<in> set reqs'. h \<in> set (ri_handlers r) \<longrightarrow> ri_request r = None) \<and> h \<notin> fst ` set calls"
proof (induction reqs arbitrary: reqs' calls)
  case Nil
  then show ?case by simp
next
  case (Cons it rest)
  obtain it' c1 rest' c2 where
    t: "trigger_entry p res it = (it', c1)" "trigger_entries p res rest = (rest', c2)"
    by fastforce
  then have r: "reqs' = it' # rest'" "calls = c1 @ c2" using Cons.prems(1) by simp_all
  have "h \<in> set (ri_handlers it) \<Longrightarrow> ri_request it = None" using Cons.prems(2) by simp
  then have one: "(h \<in> set (ri_handlers it') \<longrightarrow> ri_request it' = None) \<and> h \<notin> fst ` set c1"
    using t(1) by (cases "ri_request it") (auto simp: trigger_entry_def split: if_splits option.splits)
  have "\<forall>r \<in> set rest. h \<in> set (ri_handlers r) \<longrightarrow> ri_request r = None"
    using Cons.prems(2) by simp
  note more = Cons.IH [OF t(2) this]
  then show ?case using one by (simp add: r image_Un)
qed

lemma dns_step_stuck:
  assumes "stuck h st" and "\<forall>n. oper \<noteq> Resolve n h" and "dns_step raw4 raw6 pton6 oper st = Inr st'"
  shows "stuck h st'"
proof (cases oper)
  case (Resolve n g)
  then have g: "g \<noteq> h" and st': "st' = resolve_hostname raw4 raw6 pton6 n g st"
    using assms(2,3) by (auto simp: dns_step_def)
  show ?thesis
  proof (cases "ip_parse raw4 raw6 pton6 n")
    case (Inr addr)
    then show ?thesis using assms(1) g st' by (simp add: resolve_hostname_def stuck_def)
  next
    case (Inl e)
    show ?thesis
    proof (cases "add_handler n g (m_hostname_DNS_requests st)")
      case None
      then show ?thesis
        using assms(1) st' Inl by (auto simp: resolve_hostname_def stuck_def Let_def new_request_info_def)
    next
      case (Some reqs')
      then show ?thesis
        using assms(1) st' Inl add_handler_stuck [OF Some g]
        by (simp add: resolve_hostname_def stuck_def Let_def)
    qed
  qed
next
  case (Notify p res)
  obtain reqs' calls where t: "trigger_entries p res (m_hostname_DNS_requests st) = (reqs', calls)"
    by fastforce
  have st': "st' = st\<lparr>m_hostname_DNS_requests := reqs', answers := rev calls @ answers st\<rparr>"
    using assms(3) Notify t
    by (simp add: dns_step_def sig_notifier_hostname_resolve_def
        trigger_hostname_resolve_callbacks_def outcome_simps split: if_splits)
  have "\<forall>r \<in> set (m_hostname_DNS_requests st). h \<in> set (ri_handlers r) \<longrightarrow> ri_request r = None"
    "h \<notin> fst ` set (answers st)"
    using assms(1) by (simp_all add: stuck_def)
  then show ?thesis
    using trigger_entries_stuck [OF t, of h] by (simp add: stuck_def st' image_Un)
qed

lemma run_dns_stuck:
  "stuck h st \<Longrightarrow> \<forall>n. Resolve n h \<notin> set ops \<Longrightarrow> run_dns raw4 raw6 pton6 ops st = Inr st' \<Longrightarrow>
     stuck h st'"
proof (induction ops arbitrary: st)
  case Nil
  then show ?case by simp
next
  case (Cons oper rest)
  obtain st1 where run: "dns_step raw4 raw6 pton6 oper st = Inr st1"
    "run_dns raw4 raw6 pton6 rest st1 = Inr st'"
    using Cons.prems(3) by (auto simp: ebind_eq_Inr)
  moreover have "stuck h st1"
    by (rule dns_step_stuck [OF Cons.prems(1) _ run(1)]) (use Cons.prems(2) in auto)
  ultimately show ?case using Cons.IH Cons.prems(2) by simp
qed

section \<open>Well-formed tables\<close>

text \<open>
  Names are entered once; a pending request is one that was given to \<open>getaddrinfo_a\<close> for the name
  of its entry; and once there was a look-up, the global that notifications go through is set.
\<close>

definition resolver_inv :: "resolver \<Rightarrow> bool" where
  "resolver_inv st \<longleftrightarrow>
     distinct (map ri_hostname (m_hostname_DNS_requests st)) \<and>
     distinct (List.map_filter ri_request (m_hostname_DNS_requests st)) \<and>
     (\<forall>req \<in> set (m_hostname_DNS_requests st). \<forall>p. ri_request req = Some p \<longrightarrow>
        (p, c_str (ri_hostname req)) \<in> set (lookups st)) \<and>
     (\<forall>p \<in> fst ` set (lookups st). p < gaicb_count st) \<and> (lookups st \<noteq> [] \<longrightarrow> s_self st)"

lemma new_resolver_inv [simp]: "resolver_inv new_resolver"
  by (simp add: resolver_inv_def new_resolver_def List.map_filter_simps)

lemma add_handler_members:
  "add_handler n h reqs = Some reqs' \<Longrightarrow>
     (\<lambda>r. (ri_hostname r, ri_request r)) ` set reqs' = (\<lambda>r. (ri_hostname r, ri_request r)) ` set reqs"
proof (induction reqs arbitrary: reqs')
  case Nil
  then show ?case by simp
next
  case (Cons r rs)
  then show ?case
  proof (cases "ri_hostname r = n")
    case True
    then show ?thesis using Cons.prems by auto
  next
    case False
    then obtain rs' where "add_handler n h rs = Some rs'" "reqs' = r # rs'"
      using Cons.prems by (auto split: option.splits)
    then show ?thesis using Cons.IH by simp
  qed
qed

lemma map_filter_pending: "List.map_filter f xs = map the (filter (\<lambda>y. y \<noteq> None) (map f xs))"
  by (induction xs) (auto simp: List.map_filter_simps split: option.split)

lemma resolve_inv:
  assumes "resolver_inv st"
  shows "resolver_inv (resolve_hostname raw4 raw6 pton6 n h st)"
proof (cases "ip_parse raw4 raw6 pton6 n")
  case (Inr addr)
  then show ?thesis using assms by (simp add: resolve_hostname_def resolver_inv_def)
next
  case (Inl e)
  let ?reqs = "m_hostname_DNS_requests st"
  show ?thesis
  proof (cases "add_handler n h ?reqs")
    case None
    have "p \<noteq> gaicb_count st" if "p \<in> set (List.map_filter ri_request ?reqs)" for p
      using that assms by (force simp: resolver_inv_def List.map_filter_def)
    then have "distinct (List.map_filter ri_request (?reqs @ [new_request_info n (gaicb_count st)]))"
      using assms by (auto simp: resolver_inv_def map_filter_pending new_request_info_def)
    moreover have "n \<notin> ri_hostname ` set ?reqs" using None by (simp add: add_handler_None)
    ultimately show ?thesis
      using assms Inl None
      by (auto simp: resolve_hostname_def Let_def resolver_inv_def new_request_info_def)
  next
    case (Some reqs')
    note keep = add_handler_Some [OF Some] and mem = add_handler_members [OF Some]
    have "List.map_filter ri_request reqs' = List.map_filter ri_request ?reqs"
      using keep by (simp add: map_filter_pending)
    moreover have "\<exists>r \<in> set ?reqs. ri_hostname r = ri_hostname req \<and> ri_request r = ri_request req"
      if "req \<in> set reqs'" for req
      using that mem by (metis (mono_tags, lifting) Pair_inject imageE image_eqI)
    ultimately show ?thesis
      using assms Inl Some keep
      by (fastforce simp: resolve_hostname_def Let_def resolver_inv_def)
  qed
qed

lemma trigger_entries_members:
  "trigger_entries p res reqs = (reqs', calls) \<Longrightarrow>
     set (List.map_filter ri_request reqs') \<subseteq> set (List.map_filter ri_request reqs) \<and>
     (distinct (List.map_filter ri_request reqs) \<longrightarrow> distinct (List.map_filter ri_request reqs')) \<and>
     (\<forall>req \<in> set reqs'. \<exists>r \<in> set reqs. ri_hostname r = ri_hostname req \<and>
        (ri_request req = None \<or> ri_request r = ri_request req))"
proof (induction reqs arbitrary: reqs' calls)
  case Nil
  then show ?case by simp
next
  case (Cons it rest)
  obtain it' c1 rest' c2 where
    t: "trigger_entry p res it = (it', c1)" "trigger_entries p res rest = (rest', c2)"
    by fastforce
  then have r: "reqs' = it' # rest'" using Cons.prems by simp
  note one = trigger_entry_keeps [OF t(1)] and more = Cons.IH [OF t(2)]
  show ?case
    using more one(1,4) unfolding r
    by (auto simp: List.map_filter_simps split: option.splits if_splits)
qed

lemma trigger_inv:
  assumes "resolver_inv st"
  shows "resolver_inv (trigger_hostname_resolve_callbacks p res st)"
proof -
  obtain reqs' calls where t: "trigger_entries p res (m_hostname_DNS_requests st) = (reqs', calls)"
    by fastforce
  note m = trigger_entries_members [OF t]
  have "map ri_hostname reqs' = map ri_hostname (m_hostname_DNS_requests st)"
    using trigger_entries_keeps [OF t] by simp
  moreover have "(q, c_str (ri_hostname req)) \<in> set (lookups st)"
    if "req \<in> set reqs'" "ri_request req = Some q" for req q
    using m that assms by (fastforce simp: resolver_inv_def)
  ultimately show ?thesis
    using assms t m by (simp add: resolver_inv_def trigger_hostname_resolve_callbacks_def)
qed

text \<open>A notification comes for a look-up that was started before.\<close>

primrec notified :: "sockaddr_in \<Rightarrow> sockaddr_in6 \<Rightarrow> pton6_fun \<Rightarrow> dns_op list \<Rightarrow> resolver \<Rightarrow> bool" where
  "notified raw4 raw6 pton6 [] st \<longleftrightarrow> True"
| "notified raw4 raw6 pton6 (oper # ops) st \<longleftrightarrow>
     (case oper of Notify p res \<Rightarrow> p \<in> fst ` set (lookups st) | Resolve n h \<Rightarrow> True) \<and>
     (case dns_step raw4 raw6 pton6 oper st of
        Inl e \<Rightarrow> True
      | Inr st' \<Rightarrow> notified raw4 raw6 pton6 ops st')"

lemma run_dns_inv:
  assumes "resolver_inv st" and "notified raw4 raw6 pton6 ops st"
  shows "\<exists>st'. run_dns raw4 raw6 pton6 ops st = Inr st' \<and> resolver_inv st'"
  using assms
proof (induction ops arbitrary: st)
  case Nil
  then show ?case by simp
next
  case (Cons oper ops)
  obtain st' where "dns_step raw4 raw6 pton6 oper st = Inr st'" and "resolver_inv st'"
  proof (cases oper)
    case (Resolve n h)
    then show ?thesis using that resolve_inv [OF Cons.prems(1)] by (simp add: dns_step_def)
  next
    case (Notify p res)
    then have "s_self st" using Cons.prems by (auto simp: resolver_inv_def)
    then show ?thesis
      using that trigger_inv [OF Cons.prems(1)] Notify
      by (simp add: dns_step_def sig_notifier_hostname_resolve_def)
  qed
  then show ?case using Cons.IH [of st'] Cons.prems(2) by simp
qed

section \<open>Typed answers\<close>

text \<open>What \<open>getaddrinfo_a\<close> documents of an entry: its address is one of its family.\<close>

definition addrinfo_ok :: "addr_info \<Rightarrow> bool" where
  "addrinfo_ok rp \<longleftrightarrow>
     (fst rp = AF_INET \<longrightarrow> sin_family (sockaddr_in_of_bytes (snd rp)) = AF_INET) \<and>
     (fst rp = AF_INET6 \<longrightarrow> sin6_family (sockaddr_in6_of_bytes (snd rp)) = AF_INET6)"

primrec well_answered :: "dns_op \<Rightarrow> bool" where
  "well_answered (Resolve n h) \<longleftrightarrow> True"
| "well_answered (Notify p res) \<longleftrightarrow> (\<forall>infos. res = Some infos \<longrightarrow> list_all addrinfo_ok infos)"

definition typed_answers :: "(nat \<times> resolve_result) list \<Rightarrow> bool" where
  "typed_answers calls \<longleftrightarrow> (\<forall>(h, res) \<in> set calls. \<forall>addrs. res = Inr addrs \<longrightarrow> list_all ip_typed addrs)"

lemma typed_answers_simps [simp]:
  "typed_answers []"
  "typed_answers ((h, res) # calls) \<longleftrightarrow> (\<forall>addrs. res = Inr addrs \<longrightarrow> list_all ip_typed addrs) \<and> typed_answers calls"
  "typed_answers (xs @ ys) \<longleftrightarrow> typed_answers xs \<and> typed_answers ys"
  "typed_answers (rev xs) = typed_answers xs"
  by (auto simp: typed_answers_def)

lemma convert_addresses_typed: "list_all addrinfo_ok infos \<Longrightarrow> list_all ip_typed (convert_addresses infos)"
  by (induction infos) (auto simp: addrinfo_ok_def)

lemma trigger_entry_typed:
  "well_answered (Notify p res) \<Longrightarrow> typed_answers (snd (trigger_entry p res it))"
  by (auto simp: trigger_entry_def typed_answers_def convert_addresses_typed split: option.split)

lemma trigger_entries_typed:
  "well_answered (Notify p res) \<Longrightarrow> typed_answers (snd (trigger_entries p res reqs))"
proof (induction reqs)
  case Nil
  then show ?case by simp
next
  case (Cons it rest)
  obtain it' c1 rest' c2 where t: "trigger_entry p res it = (it', c1)" "trigger_entries p res rest = (rest', c2)"
    by fastforce
  then show ?case using Cons trigger_entry_typed [OF Cons.prems, of it] by simp
qed

lemma dns_step_typed:
  assumes "dns_step raw4 raw6 pton6 oper st = Inr st'" and "well_answered oper" and "typed_answers (answers st)"
  shows "typed_answers (answers st')"
proof (cases oper)
  case (Resolve n h)
  then have st': "st' = resolve_hostname raw4 raw6 pton6 n h st" using assms(1) by (simp add: dns_step_def)
  show ?thesis
    using assms(3) ip_parse_typed [of raw4 raw6 pton6 n] unfolding st'
    by (auto simp: resolve_hostname_def Let_def split: sum.split option.split)
next
  case (Notify p res)
  obtain reqs' calls where t: "trigger_entries p res (m_hostname_DNS_requests st) = (reqs', calls)"
    by fastforce
  have "typed_answers calls"
    using trigger_entries_typed [of p res "m_hostname_DNS_requests st"] assms(2) t Notify by simp
  moreover have "answers st' = rev calls @ answers st"
    using assms(1) Notify t
    by (auto simp: dns_step_def sig_notifier_hostname_resolve_def trigger_hostname_resolve_callbacks_def
        outcome_simps)
  ultimately show ?thesis using assms(3) by simp
qed

lemma run_dns_typed:
  "run_dns raw4 raw6 pton6 ops st = Inr st' \<Longrightarrow> list_all well_answered ops \<Longrightarrow>
     typed_answers (answers st) \<Longrightarrow> typed_answers (answers st')"
  by (induction ops arbitrary: st) (auto simp: ebind_eq_Inr dest: dns_step_typed)

section \<open>Examples\<close>

definition example_in4 :: sockaddr_in where
  "example_in4 = \<lparr>sin_family = 0, sin_port = 0, sin_addr = 0, sin_zero = 0\<rparr>"

definition example_in6 :: sockaddr_in6 where
  "example_in6 =
     \<lparr>sin6_family = 0, sin6_port = 0, sin6_flowinfo = 0, sin6_addr = (0, 0, 0, 0), sin6_scope_id = 0\<rparr>"

lemma example_name:
  "ip_parse example_in4 example_in6 (\<lambda>_. None) ''host'' = Inl Error_HOSTNAME_RESOLVE_FAILED"
  by code_simp

lemma example_resolved:
  "run_dns example_in4 example_in6 (\<lambda>_. None)
     [Resolve ''host'' 3, Notify 0 (Some [(2, replicate 16 1)])] new_resolver =
   Inr \<lparr>s_self = True,
     m_hostname_DNS_requests = [\<lparr>ri_hostname = ''host'', ri_request = None, ri_handlers = []\<rparr>],
     gaicb_count = 1, lookups = [(0, c_str ''host'')], answers = []\<rparr>"
  by (simp add: dns_step_def resolve_hostname_def example_name new_resolver_def new_request_info_def
      sig_notifier_hostname_resolve_def trigger_hostname_resolve_callbacks_def trigger_entry_def Let_def)

lemma example_queued:
  "run_dns example_in4 example_in6 (\<lambda>_. None)
     [Resolve ''host'' 3, Resolve ''host'' 4, Resolve ''host'' 5] new_resolver =
     Inr \<lparr>s_self = True, m_hostname_DNS_requests = [\<lparr>ri_hostname = ''host'', ri_request = Some 0, ri_handlers = [4, 5]\<rparr>],
      gaicb_count = 1, lookups = [(0, c_str ''host'')], answers = []\<rparr>"
  by (simp add: dns_step_def resolve_hostname_def example_name new_resolver_def
      new_request_info_def Let_def)

section \<open>Properties\<close>

text \<open>
  The first requester of a host name is never answered: \<open>resolve_hostname\<close> starts the look-up but
  does not keep the handler, so whatever requests and notifications follow, a handler passed only
  in that call is never called, neither with addresses nor with an error.
\<close>

theorem first_requester_never_answered:
  assumes "ip_parse raw4 raw6 pton6 name = Inl e"
    and "name \<notin> ri_hostname ` set (m_hostname_DNS_requests st)"
    and "h \<notin> fst ` set (answers st)" and "h \<notin> waiting (m_hostname_DNS_requests st)"
    and "\<forall>n. Resolve n h \<notin> set ops"
    and "run_dns raw4 raw6 pton6 (Resolve name h # ops) st = Inr st'"
  shows "h \<notin> fst ` set (answers st')"
proof -
  have "add_handler name h (m_hostname_DNS_requests st) = None"
    using assms(2) by (simp add: add_handler_None)
  then have "stuck h (resolve_hostname raw4 raw6 pton6 name h st)"
    using assms(1,3,4)
    by (auto simp: resolve_hostname_def stuck_def Let_def new_request_info_def waiting_def)
  from run_dns_stuck [OF this assms(5)] assms(6) show ?thesis by (simp add: dns_step_def stuck_def)
qed

theorem first_requester_never_answered_witness:
  "\<exists>st. run_dns example_in4 example_in6 (\<lambda>_. None)
     [Resolve ''host'' 3, Resolve ''host'' 4, Notify 0 (Some [])] new_resolver = Inr st \<and>
     fst ` set (answers st) = {4} \<and> 3 \<notin> fst ` set (answers st)"
proof -
  let ?ops = "[Resolve ''host'' 4, Notify 0 (Some [])]"
  obtain st where r: "run_dns example_in4 example_in6 (\<lambda>_. None) (Resolve ''host'' 3 # ?ops) new_resolver =
      Inr st" and four: "fst ` set (answers st) = {4}"
    by (simp add: dns_step_def resolve_hostname_def example_name new_resolver_def new_request_info_def
        sig_notifier_hostname_resolve_def trigger_hostname_resolve_callbacks_def trigger_entry_def Let_def)
  have "3 \<notin> fst ` set (answers st)"
    by (rule first_requester_never_answered [OF example_name _ _ _ _ r]) (simp_all add: new_resolver_def)
  then show ?thesis using r four by blast
qed

text \<open>
  Nor is anyone who asks for a name after it was resolved: its entry stays in the table with its
  request gone, later handlers are appended to it, and no notification ever reaches them.
\<close>

theorem resolved_name_never_answers:
  assumes "ip_parse raw4 raw6 pton6 name = Inl e"
    and "name \<in> ri_hostname ` set (m_hostname_DNS_requests st)"
    and "\<forall>r \<in> set (m_hostname_DNS_requests st). ri_hostname r = name \<longrightarrow> ri_request r = None"
    and "h \<notin> fst ` set (answers st)" and "h \<notin> waiting (m_hostname_DNS_requests st)"
    and "\<forall>n. Resolve n h \<notin> set ops"
    and "run_dns raw4 raw6 pton6 (Resolve name h # ops) st = Inr st'"
  shows "h \<notin> fst ` set (answers st')"
proof -
  obtain reqs' where r: "add_handler name h (m_hostname_DNS_requests st) = Some reqs'"
    using assms(2) add_handler_None [of name h "m_hostname_DNS_requests st"] by auto
  then have "stuck h (resolve_hostname raw4 raw6 pton6 name h st)"
    using assms(1,4) add_handler_gone [OF r assms(5,3)]
    by (auto simp: resolve_hostname_def stuck_def Let_def)
  from run_dns_stuck [OF this assms(6)] assms(7) show ?thesis by (simp add: dns_step_def stuck_def)
qed

theorem resolved_name_never_answers_witness:
  "\<exists>st st'. run_dns example_in4 example_in6 (\<lambda>_. None)
       [Resolve ''host'' 3, Notify 0 (Some [(2, replicate 16 1)])] new_resolver = Inr st \<and>
     run_dns example_in4 example_in6 (\<lambda>_. None)
       [Resolve ''host'' 4, Notify 0 (Some [(2, replicate 16 1)])] st = Inr st' \<and>
     4 \<notin> fst ` set (answers st')"
proof -
  let ?ops = "[Notify 0 (Some [(2, replicate 16 1)])]"
  obtain st where st: "run_dns example_in4 example_in6 (\<lambda>_. None)
       [Resolve ''host'' 3, Notify 0 (Some [(2, replicate 16 1)])] new_resolver = Inr st"
    and f: "m_hostname_DNS_requests st = [\<lparr>ri_hostname = ''host'', ri_request = None, ri_handlers = []\<rparr>]"
      "answers st = []"
    using example_resolved by simp
  obtain st' where r: "run_dns example_in4 example_in6 (\<lambda>_. None) (Resolve ''host'' 4 # ?ops) st = Inr st'"
    using f by (simp add: dns_step_def resolve_hostname_def example_name sig_notifier_hostname_resolve_def
        Let_def)
  have "4 \<notin> fst ` set (answers st')"
    by (rule resolved_name_never_answers [OF example_name _ _ _ _ _ r]) (simp_all add: f)
  then show ?thesis using st r by blast
qed

text \<open>
  C33. The requesters that were queued behind a pending look-up are answered: its notification calls
  each of their handlers once, in the order of the requests, with the IPv4 and IPv6 addresses of
  the result in their order, and closes the entry; a failed look-up calls them with the error and
  leaves the entry pending. No other entry is touched.
\<close>

theorem queued_requesters_answered:
  assumes "distinct (List.map_filter ri_request (m_hostname_DNS_requests st))"
    and "k < length (m_hostname_DNS_requests st)"
    and "ri_request (m_hostname_DNS_requests st ! k) = Some p"
  shows "(let st' = trigger_hostname_resolve_callbacks p ar_result st;
              res = (case ar_result of None \<Rightarrow> Inl Error_HOSTNAME_RESOLVE_FAILED
                     | Some infos \<Rightarrow> Inr (convert_addresses infos));
              req = m_hostname_DNS_requests st ! k
          in answers st' = rev (map (\<lambda>h. (h, res)) (ri_handlers req)) @ answers st \<and>
             m_hostname_DNS_requests st' =
               (m_hostname_DNS_requests st)
                 [k := req\<lparr>ri_request := (if ar_result = None then Some p else None)\<rparr>])"
proof -
  let ?reqs = "m_hostname_DNS_requests st"
  obtain reqs' calls where t: "trigger_entries p ar_result ?reqs = (reqs', calls)" by fastforce
  have calls: "calls = snd (trigger_entry p ar_result (?reqs ! k))"
    using trigger_only [OF assms, of ar_result] t by simp
  note nth = trigger_entries_nth [OF t]
  have "reqs' = ?reqs[k := fst (trigger_entry p ar_result (?reqs ! k))]"
  proof (rule nth_equalityI)
    show "length reqs' = length (?reqs[k := fst (trigger_entry p ar_result (?reqs ! k))])"
      using nth [OF assms(2)] by simp
    fix j assume j: "j < length reqs'"
    then have j': "j < length ?reqs" using nth [OF assms(2)] by simp
    show "reqs' ! j = ?reqs[k := fst (trigger_entry p ar_result (?reqs ! k))] ! j"
    proof (cases "j = k")
      case True
      then show ?thesis using nth [OF j'] j' by simp
    next
      case False
      then have "ri_request (?reqs ! j) \<noteq> Some p"
        using pending_unique [OF assms(1) j' assms(2), of p] assms(3) by blast
      then have "fst (trigger_entry p ar_result (?reqs ! j)) = ?reqs ! j"
        by (auto simp: trigger_entry_def split: option.splits)
      then show ?thesis using nth [OF j'] j' False by simp
    qed
  qed
  moreover have "?reqs[k := (?reqs ! k)\<lparr>ri_request := Some p\<rparr>] = ?reqs"
  proof -
    have "(?reqs ! k)\<lparr>ri_request := Some p\<rparr> = ?reqs ! k"
      using assms(3) by (cases "?reqs ! k") simp
    then show ?thesis by (metis list_update_id)
  qed
  ultimately show ?thesis
    using t calls assms(3)
    by (auto simp: trigger_hostname_resolve_callbacks_def trigger_entry_def Let_def
        rev_map split: option.splits)
qed

theorem queued_requesters_answered_witness:
  "\<exists>st. run_dns example_in4 example_in6 (\<lambda>_. None)
       [Resolve ''host'' 3, Resolve ''host'' 4, Resolve ''host'' 5] new_resolver = Inr st \<and>
   answers (trigger_hostname_resolve_callbacks 0 None st) =
     [(5, Inl Error_HOSTNAME_RESOLVE_FAILED), (4, Inl Error_HOSTNAME_RESOLVE_FAILED)]"
proof -
  obtain st where st: "run_dns example_in4 example_in6 (\<lambda>_. None)
       [Resolve ''host'' 3, Resolve ''host'' 4, Resolve ''host'' 5] new_resolver = Inr st"
    and f: "m_hostname_DNS_requests st = [\<lparr>ri_hostname = ''host'', ri_request = Some 0, ri_handlers = [4, 5]\<rparr>]"
      "answers st = []"
    using example_queued by simp
  show ?thesis
    using queued_requesters_answered [of st 0 0 None] st f
    by (simp add: Let_def List.map_filter_simps)
qed

text \<open>
  What a requester is answered with can be connected to. As long as \<open>getaddrinfo_a\<close> stores addresses
  of the families it reports, every address any handler is called with, parsed from the name itself
  or converted from a result, holds one family and names it, so that its data and size can be
  taken without aborting, agree, and fit the memory a connect request copies them to.
\<close>

theorem answers_well_typed:
  assumes "run_dns raw4 raw6 pton6 ops new_resolver = Inr st" and "list_all well_answered ops"
    and "(h, Inr addrs) \<in> set (answers st)" and "a \<in> set addrs"
  shows "ip_typed a \<and> (\<exists>sa len. data_sockaddr a = Inr sa \<and> size_sockaddr a = Inr len \<and>
    unat len = length sa \<and> length sa \<le> sizeof_sockaddr_storage)"
proof -
  have "typed_answers (answers st)"
    using run_dns_typed [OF assms(1,2)] by (simp add: new_resolver_def)
  then have t: "ip_typed a" using assms(3,4) by (fastforce simp: typed_answers_def list_all_iff)
  then show ?thesis by (meson ip_typed_sockaddr_bytes)
qed

theorem answers_well_typed_witness:
  "\<exists>st a. run_dns example_in4 example_in6 (\<lambda>_. None)
     [Resolve ''host'' 3, Resolve ''host'' 4, Notify 0 (Some [(2, [2, 0, 1, 187, 9, 8, 7, 6] @ replicate 8 0)])]
     new_resolver = Inr st \<and> (4, Inr [a]) \<in> set (answers st) \<and> ip_typed a"
proof -
  let ?sa = "[2, 0, 1, 187, 9, 8, 7, 6] @ replicate 8 0"
  let ?ops = "[Resolve ''host'' 3, Resolve ''host'' 4, Notify 0 (Some [(2, ?sa)])]"
  let ?a = "ip_of_sockaddr_in (sockaddr_in_of_bytes ?sa)"
  have "\<exists>st. run_dns example_in4 example_in6 (\<lambda>_. None) ?ops new_resolver = Inr st \<and>
      (4, Inr [?a]) \<in> set (answers st)"
    by (simp add: dns_step_def resolve_hostname_def example_name new_resolver_def new_request_info_def
        sig_notifier_hostname_resolve_def trigger_hostname_resolve_callbacks_def trigger_entry_def Let_def)
  then obtain st where st: "run_dns example_in4 example_in6 (\<lambda>_. None) ?ops new_resolver = Inr st"
    "(4, Inr [?a]) \<in> set (answers st)" by blast
  have "addrinfo_ok (2, ?sa)" by code_simp
  then have "list_all well_answered ?ops" by simp
  from answers_well_typed [OF st(1) this st(2), of ?a] have "ip_typed ?a" by simp
  then show ?thesis using st by blast
qed

text \<open>
  C35. The resolver never trips over its own state. Whatever names are asked for in whatever order, and
  whenever the look-ups that were started are notified, no notification fails the assertion on
  \<open>s_self\<close>; the table never has two entries of one name or two pending look-ups with one pointer;
  and a pending entry's pointer is one \<open>getaddrinfo_a\<close> was given for the name of that very entry, so
  its answer goes to the requesters of that name.
\<close>

theorem resolver_stays_well_formed:
  assumes "notified raw4 raw6 pton6 ops new_resolver"
  shows "\<exists>st. run_dns raw4 raw6 pton6 ops new_resolver = Inr st \<and>
    distinct (map ri_hostname (m_hostname_DNS_requests st)) \<and>
    distinct (List.map_filter ri_request (m_hostname_DNS_requests st)) \<and>
    (\<forall>req \<in> set (m_hostname_DNS_requests st). \<forall>p. ri_request req = Some p \<longrightarrow>
       (p, c_str (ri_hostname req)) \<in> set (lookups st))"
  using run_dns_inv [OF new_resolver_inv assms] by (auto simp: resolver_inv_def)

theorem resolver_stays_well_formed_witness:
  "\<exists>st. run_dns example_in4 example_in6 (\<lambda>_. None)
     [Resolve ''host'' 3, Notify 0 (Some [(2, replicate 16 1)])] new_resolver = Inr st \<and>
     distinct (map ri_hostname (m_hostname_DNS_requests st))"
proof -
  have "notified example_in4 example_in6 (\<lambda>_. None)
      [Resolve ''host'' 3, Notify 0 (Some [(2, replicate 16 1)])] new_resolver"
    by (simp add: dns_step_def resolve_hostname_def example_name new_resolver_def new_request_info_def
        Let_def split: sum.split)
  from resolver_stays_well_formed [OF this] show ?thesis by blast
qed

end
