(* ===== verification/Connect_By_Name.thy ===== *)
theory Connect_By_Name
  imports Ring_Progress Host_Resolver
begin

text \<open>
  Name resolution, addresses and the ring together: an application that is answered with addresses
  sets the port it wants, since \<open>getaddrinfo_a\<close> is called without a service, and connects. The
  parts are the models of the other theories; nothing is added to them here.
\<close>

lemma connect_ipv6_fails:
  assumes "ring_inv r" and "m_initialized r" and "granting w" and "a = ip_of_sockaddr_in6 v"
  shows "submit_connect w s a cb r = Inl (Assert_fail ''item.m_connect_sock_len == sizeof(*sa)'')"
proof -
  obtain b q where "internal_alloc_work_item (w_raw w (m_ring r)) s ''connect-job'' (m_pool r) = Inr (b, q)"
    and "wp_heap q ! b = new_work_item (w_raw w (m_ring r)) (next_id (m_pool r)) ''connect-job'' s"
    by (rule alloc_live [OF assms(1)])
  moreover have "size_sockaddr a = Inr 28" and "data_sockaddr a = Inr (sockaddr_in6_bytes v)"
    using assms(4) by (simp_all add: size_sockaddr_def data_sockaddr_def)
  ultimately show ?thesis
    using assms(2)
    by (simp add: submit_connect_def alloc_connect_work_item_def on_item_def wi_submit_connect_def
        submit_granted [OF assms(3)] prep_request_def prep_connect_eq)
qed

lemma sockaddr_in_port_bytes:
  "sin_family v = AF_INET \<Longrightarrow>
     sockaddr_in_bytes (v\<lparr>sin_port := bswap16 p\<rparr>) =
       [2, 0] @ rev (le_bytes 2 p) @ le_bytes 4 (sin_addr v) @ le_bytes 8 (sin_zero v)"
  by (simp add: sockaddr_in_bytes_def le_bytes_bswap16) (simp add: le_bytes_16)

section \<open>Properties\<close>

text \<open>
  C38. Connecting by name. Every address a requester is answered with takes the port; if it is an IPv4
  address, connecting to it leaves exactly one more request in the ring, whose bytes are the
  family, the port in network order and the address that was resolved, under a fresh id whose
  item holds the caller's callback. If it is an IPv6 address, the connect request ends the
  program on an assertion: a name that resolves to IPv6 addresses only cannot be connected to.
\<close>

theorem resolved_address_connects:
  assumes "run_dns raw4 raw6 pton6 ops new_resolver = Inr st" and "list_all well_answered ops"
    and "(h, Inr addrs) \<in> set (answers st)" and "a \<in> set addrs"
    and "ring_inv r" and "m_initialized r" and "granting w"
  shows "\<exists>b. ip_set_port p a = Inr b \<and>
    (case get_ipv4 a of
       Some v \<Rightarrow> \<exists>r' e wi. submit_connect w s b cb r = Inr r' \<and>
         submitted (m_ring r') = e # submitted (m_ring r) \<and>
         sqe_operation e = Prep_connect (get_fd s)
           ([2, 0] @ rev (le_bytes 2 p) @ le_bytes 4 (sin_addr v) @ le_bytes 8 (sin_zero v)) 16 \<and>
         pool_abs (m_pool r) (sqe_user_data e) = None \<and>
         pool_abs (m_pool r') = (pool_abs (m_pool r))(sqe_user_data e \<mapsto> wi) \<and>
         m_callback wi = Connect_cb cb
     | None \<Rightarrow> submit_connect w s b cb r =
         Inl (Assert_fail ''item.m_connect_sock_len == sizeof(*sa)''))"
proof -
  have "typed_answers (answers st)"
    using run_dns_typed [OF assms(1,2)] by (simp add: new_resolver_def)
  then have "ip_typed a" using assms(3,4) by (fastforce simp: typed_answers_def list_all_iff)
  then show ?thesis
  proof (cases rule: ip_typed_cases)
    case (1 v)
    let ?v = "v\<lparr>sin_port := bswap16 p\<rparr>"
    have b: "ip_set_port p a = Inr (ip_of_sockaddr_in ?v)"
      using 1 by (simp add: ip_set_port_def ip_of_sockaddr_in_def ip_default_def)
    have v: "m_in4 (ip_of_sockaddr_in ?v) = Some ?v" by simp
    show ?thesis
      using connect_adds [OF assms(5-7) v, of s cb] 1 b sockaddr_in_port_bytes [OF 1(2), of p]
      by (auto simp: adds_def ebind_eq_Inr)
  next
    case (2 v)
    let ?b = "ip_of_sockaddr_in6 (v\<lparr>sin6_port := bswap16 p\<rparr>)"
    have "ip_set_port p a = Inr ?b"
      using 2 by (simp add: ip_set_port_def ip_of_sockaddr_in6_def ip_default_def)
    then show ?thesis using connect_ipv6_fails [OF assms(5-7) refl] 2 by simp
  qed
qed

theorem resolved_address_connects_witness:
  "\<exists>r' e. submit_connect (example_world\<lparr>w_get_sqe := \<lambda>_. True\<rparr>) example_socket
      (ip_of_sockaddr_in \<lparr>sin_family = 2, sin_port = bswap16 443, sin_addr = 0x04030201, sin_zero = 0\<rparr>)
      (Some 7) ((new_iouring \<lparr>ring_addr = 0, ring_entries = 0, bgid = 0, reg_flags = 0\<rparr> 64 [])
        \<lparr>m_initialized := True\<rparr>) = Inr r' \<and> submitted (m_ring r') = [e] \<and>
     sqe_operation e = Prep_connect 42 ([2, 0] @ [1, 187] @ [1, 2, 3, 4] @ replicate 8 0) 16"
proof -
  let ?sa = "[2, 0, 0, 0, 1, 2, 3, 4] @ replicate 8 0"
  let ?ops = "[Resolve ''host'' 3, Resolve ''host'' 4, Notify 0 (Some [(2, ?sa)])]"
  let ?v = "sockaddr_in_of_bytes ?sa"
  let ?r = "(new_iouring \<lparr>ring_addr = 0, ring_entries = 0, bgid = 0, reg_flags = 0\<rparr> 64 [])\<lparr>m_initialized := True\<rparr>"
  let ?w = "example_world\<lparr>w_get_sqe := \<lambda>_. True\<rparr>"
  have "\<exists>st. run_dns example_in4 example_in6 (\<lambda>_. None) ?ops new_resolver = Inr st \<and>
      (4, Inr [ip_of_sockaddr_in ?v]) \<in> set (answers st)"
    by (simp add: dns_step_def resolve_hostname_def example_name new_resolver_def new_request_info_def
        sig_notifier_hostname_resolve_def trigger_hostname_resolve_callbacks_def trigger_entry_def Let_def)
  then obtain st where st: "run_dns example_in4 example_in6 (\<lambda>_. None) ?ops new_resolver = Inr st"
    "(4, Inr [ip_of_sockaddr_in ?v]) \<in> set (answers st)" by blast
  have "addrinfo_ok (2, ?sa)" by code_simp
  then have ok: "list_all well_answered ?ops" by simp
  have r: "ring_inv ?r" "m_initialized ?r"
    by (simp_all add: ring_inv_def entries_ok_def new_iouring_def)
  have v: "?v = \<lparr>sin_family = 2, sin_port = 0, sin_addr = 0x04030201, sin_zero = 0\<rparr>" by code_simp
  have bytes: "[2, 0] @ rev (le_bytes 2 (443 :: u16)) @ le_bytes 4 (0x04030201 :: u32) @ le_bytes 8 (0 :: u64) =
      [2, 0] @ [1, 187] @ [1, 2, 3, 4] @ replicate 8 0" by code_simp
  have "granting ?w" by (simp add: granting_def)
  from resolved_address_connects [OF st(1) ok st(2) _ r this, of "ip_of_sockaddr_in ?v" 443 example_socket "Some 7"]
  show ?thesis
    using bytes unfolding v
    by (auto simp: ip_set_port_def ip_of_sockaddr_in_def ip_default_def example_socket_def get_fd_def
        new_iouring_def)
qed

end
