(* ===== verification/Application.thy ===== *)
theory Application
  imports Connect_By_Name
begin

text \<open>
  An application with both sides of \<open>IOUring\<close>: its requests and its name resolution. The state is
  the ring and the table of look-ups, members of one object in \<open>src/IOUring.hpp\<close>. A handler given to
  \<open>resolve_hostname\<close> is a program like any other callback: it runs inside \<open>resolve_hostname\<close> when the
  name is an address, and inside \<open>trigger_hostname_resolve_callbacks\<close> otherwise, in the order in which
  the handlers are called. Handlers do not resolve again, and the notification, which has a thread
  of its own in the program, comes between two other operations here.

  \<^item> \<open>app_run\<close>: calls of the application, polls, resolutions and notifications in any order.
  \<^item> the properties carry the invariants of both sides to such runs, and follow a handler that
    is never called to its consequence for the ring.
\<close>

section \<open>State and operations\<close>

record application =
  app_ring :: iouring
  app_dns :: resolver

type_synonym dns_client = "nat \<Rightarrow> resolve_result \<Rightarrow> io_trace \<Rightarrow> prog"

datatype app_op =
    App_call prog
  | App_poll
  | App_dns dns_op

primrec run_handlers ::
  "world \<Rightarrow> dns_client \<Rightarrow> (nat \<times> resolve_result) list \<Rightarrow> iouring \<Rightarrow> iouring outcome" where
  "run_handlers w handler [] r = Inr r"
| "run_handlers w handler (call # calls) r =
     ebind (run_prog w (handler (fst call) (snd call) (m_ring r)) r)
       (\<lambda>(_, r). run_handlers w handler calls r)"

text \<open>The calls an operation of the resolver adds to its log, oldest first.\<close>

definition new_answers :: "resolver \<Rightarrow> resolver \<Rightarrow> (nat \<times> resolve_result) list" where
  "new_answers st st' = rev (take (length (answers st') - length (answers st)) (answers st'))"

definition app_step ::
  "world \<Rightarrow> client \<Rightarrow> dns_client \<Rightarrow> sockaddr_in \<Rightarrow> sockaddr_in6 \<Rightarrow> app_op \<Rightarrow> application \<Rightarrow>
     application outcome" where
  "app_step w client handler raw4 raw6 oper app =
     (case oper of
        App_call p \<Rightarrow> ebind (run_prog w p (app_ring app)) (\<lambda>(_, r). Inr (app\<lparr>app_ring := r\<rparr>))
      | App_poll \<Rightarrow>
          ebind (poll_completion_queues w client (app_ring app)) (\<lambda>(_, r). Inr (app\<lparr>app_ring := r\<rparr>))
      | App_dns d \<Rightarrow>
          ebind (dns_step raw4 raw6 (w_pton6 w) d (app_dns app)) (\<lambda>st.
          ebind (run_handlers w handler (new_answers (app_dns app) st) (app_ring app)) (\<lambda>r.
          Inr \<lparr>app_ring = r, app_dns = st\<rparr>)))"

primrec app_run ::
  "world \<Rightarrow> client \<Rightarrow> dns_client \<Rightarrow> sockaddr_in \<Rightarrow> sockaddr_in6 \<Rightarrow> app_op list \<Rightarrow> application \<Rightarrow>
     application outcome" where
  "app_run w client handler raw4 raw6 [] app = Inr app"
| "app_run w client handler raw4 raw6 (oper # ops) app =
     ebind (app_step w client handler raw4 raw6 oper app) (app_run w client handler raw4 raw6 ops)"

section \<open>Answers\<close>

lemma dns_step_answers:
  assumes "dns_step raw4 raw6 pton6 d st = Inr st'"
  obtains calls where "answers st' = rev calls @ answers st" and "new_answers st st' = calls"
proof -
  have "\<exists>calls. answers st' = rev calls @ answers st"
  proof (cases d)
    case (Resolve n h)
    have "answers st' = rev [] @ answers st \<or> (\<exists>c. answers st' = rev [c] @ answers st)"
      using assms Resolve by (auto simp: dns_step_def resolve_hostname_def Let_def split: sum.splits option.splits)
    then show ?thesis by metis
  next
    case (Notify p res)
    then show ?thesis
      using assms
      by (auto simp: dns_step_def sig_notifier_hostname_resolve_def
          trigger_hostname_resolve_callbacks_def outcome_simps split: prod.splits)
  qed
  then obtain calls where "answers st' = rev calls @ answers st" ..
  then show thesis using that by (simp add: new_answers_def)
qed

section \<open>Both sides keep their invariants\<close>

lemma run_handlers_governed:
  "governed T w client r \<Longrightarrow> (\<And>h res tr. allows T (handler h res tr)) \<Longrightarrow>
     run_handlers w handler calls r = Inr r' \<Longrightarrow> governed T w client r'"
proof (induction calls arbitrary: r)
  case Nil
  then show ?case by simp
next
  case (Cons call calls)
  obtain act r1 where run: "run_prog w (handler (fst call) (snd call) (m_ring r)) r = Inr (act, r1)"
    "run_handlers w handler calls r1 = Inr r'"
    using Cons.prems(3) by (auto simp: ebind_eq_Inr)
  from governed_prog [OF Cons.prems(1,2) run(1)] show ?case by (rule Cons.IH [OF _ Cons.prems(2) run(2)])
qed

fun op_allowed :: "policy \<Rightarrow> app_op \<Rightarrow> bool" where
  "op_allowed T (App_call p) \<longleftrightarrow> allows T p"
| "op_allowed T App_poll \<longleftrightarrow> True"
| "op_allowed T (App_dns d) \<longleftrightarrow> True"

lemma dns_step_inv:
  "resolver_inv st \<Longrightarrow> dns_step raw4 raw6 pton6 d st = Inr st' \<Longrightarrow> resolver_inv st'"
  by (auto simp: dns_step_def sig_notifier_hostname_resolve_def outcome_simps resolve_inv trigger_inv
      split: dns_op.splits)

lemma app_step_keeps:
  assumes "governed T w client (app_ring app)" and "resolver_inv (app_dns app)"
    and "\<And>h res tr. allows T (handler h res tr)" and "op_allowed T oper"
    and "app_step w client handler raw4 raw6 oper app = Inr app'"
  shows "governed T w client (app_ring app')" and "resolver_inv (app_dns app')"
proof -
  show "governed T w client (app_ring app')"
  proof (cases oper)
    case (App_call p)
    then show ?thesis
      using assms(1,4,5) by (auto simp: app_step_def ebind_eq_Inr intro: governed_prog)
  next
    case App_poll
    then show ?thesis using assms(1,5) by (auto simp: app_step_def ebind_eq_Inr intro: governed_poll)
  next
    case (App_dns d)
    then show ?thesis
      using assms(5) run_handlers_governed [OF assms(1,3)] by (auto simp: app_step_def ebind_eq_Inr)
  qed
  show "resolver_inv (app_dns app')"
    using assms(2,5)
    by (auto simp: app_step_def ebind_eq_Inr dest: dns_step_inv split: app_op.splits)
qed

lemma app_run_keeps:
  assumes "\<And>h res tr. allows T (handler h res tr)" and "list_all (op_allowed T) ops"
    and "governed T w client (app_ring app)" and "resolver_inv (app_dns app)"
    and "app_run w client handler raw4 raw6 ops app = Inr app'"
  shows "governed T w client (app_ring app') \<and> resolver_inv (app_dns app')"
  using assms(2-5)
proof (induction ops arbitrary: app)
  case Nil
  then show ?case by simp
next
  case (Cons oper ops)
  obtain app1 where s: "app_step w client handler raw4 raw6 oper app = Inr app1"
    "app_run w client handler raw4 raw6 ops app1 = Inr app'"
    using Cons.prems(4) by (auto simp: ebind_eq_Inr)
  note k = app_step_keeps [OF Cons.prems(2,3) assms(1) _ s(1)]
  show ?case using Cons.IH [OF _ k s(2)] Cons.prems(1) by simp
qed

section \<open>A handler that is never called\<close>

lemma run_handlers_agree:
  "h \<notin> fst ` set calls \<Longrightarrow> (\<And>g. g \<noteq> h \<Longrightarrow> handler g = handler' g) \<Longrightarrow>
     run_handlers w handler calls r = run_handlers w handler' calls r"
proof (induction calls arbitrary: r)
  case Nil
  then show ?case by simp
next
  case (Cons call calls)
  have "handler (fst call) = handler' (fst call)" using Cons.prems by force
  moreover have "run_handlers w handler calls = run_handlers w handler' calls"
    using Cons.IH Cons.prems by (auto simp: fun_eq_iff)
  ultimately show ?case by simp
qed

lemma app_step_agree:
  assumes "\<And>st. dns_step raw4 raw6 (w_pton6 w) d (app_dns app) = Inr st \<Longrightarrow> h \<notin> fst ` set (answers st)"
    and "\<And>g. g \<noteq> h \<Longrightarrow> handler g = handler' g"
  shows "app_step w client handler raw4 raw6 (App_dns d) app = app_step w client handler' raw4 raw6 (App_dns d) app"
proof (cases "dns_step raw4 raw6 (w_pton6 w) d (app_dns app)")
  case (Inl e)
  then show ?thesis by (simp add: app_step_def)
next
  case (Inr st)
  obtain calls where "answers st = rev calls @ answers (app_dns app)"
    "new_answers (app_dns app) st = calls"
    by (rule dns_step_answers [OF Inr])
  then have "h \<notin> fst ` set (new_answers (app_dns app) st)" using assms(1) [OF Inr] by auto
  from run_handlers_agree [OF this assms(2)] Inr show ?thesis by (simp add: app_step_def)
qed

lemma stuck_run_agree:
  "stuck h (app_dns app) \<Longrightarrow> (\<And>g. g \<noteq> h \<Longrightarrow> handler g = handler' g) \<Longrightarrow>
     \<forall>n. App_dns (Resolve n h) \<notin> set ops \<Longrightarrow>
     app_run w client handler raw4 raw6 ops app = app_run w client handler' raw4 raw6 ops app"
proof (induction ops arbitrary: app)
  case Nil
  then show ?case by simp
next
  case (Cons oper ops)
  have st: "stuck h st" if "oper = App_dns d" "dns_step raw4 raw6 (w_pton6 w) d (app_dns app) = Inr st" for d st
    using dns_step_stuck [OF Cons.prems(1) _ that(2)] Cons.prems(3) that(1) by auto
  have same: "app_step w client handler raw4 raw6 oper app = app_step w client handler' raw4 raw6 oper app"
  proof (cases oper)
    case (App_dns d)
    show ?thesis
      unfolding App_dns by (rule app_step_agree [OF _ Cons.prems(2)]) (use st App_dns in \<open>auto simp: stuck_def\<close>)
  qed (simp_all add: app_step_def)
  show ?case
  proof (cases "app_step w client handler' raw4 raw6 oper app")
    case (Inr app1)
    have "stuck h (app_dns app1)"
      using Inr Cons.prems(1) st
      by (cases oper) (auto simp: app_step_def ebind_eq_Inr)
    then show ?thesis using Cons.IH [of app1] Cons.prems(2,3) same Inr by simp
  qed (simp add: same)
qed

text \<open>A name that is an address is answered at once: its handler runs before \<open>resolve_hostname\<close> returns.\<close>

lemma literal_handler_runs:
  assumes "ip_parse raw4 raw6 (w_pton6 w) name = Inr addr"
  shows "app_step w client handler raw4 raw6 (App_dns (Resolve name h)) app =
    ebind (run_prog w (handler h (Inr [addr]) (m_ring (app_ring app))) (app_ring app)) (\<lambda>(_, r).
    Inr \<lparr>app_ring = r, app_dns = (app_dns app)\<lparr>answers := (h, Inr [addr]) # answers (app_dns app)\<rparr>\<rparr>)"
  using assms
  by (simp add: app_step_def dns_step_def resolve_hostname_def new_answers_def ebind_assoc split_def)

section \<open>Properties\<close>

text \<open>
  C13. The two sides of the library do not disturb each other. In every run of an application, whatever it
  asks for, polls, resolves and is notified of in whatever order, with handlers that make requests
  of their own, every entry handed to the kernel is a request the policy of the application allows
  and carries the id of a slot of the pool, the pool is well formed, the table of look-ups has no name
  and no pending pointer twice, and a pending entry is the look-up of its own name.
\<close>

theorem application_keeps_both_sides:
  assumes "governed T w client r" and "allows_client T client"
    and "\<And>h res tr. allows T (handler h res tr)" and "list_all (op_allowed T) ops"
    and "app_run w client handler raw4 raw6 ops \<lparr>app_ring = r, app_dns = new_resolver\<rparr> = Inr app"
  shows "(\<forall>s \<in> set (submitted (m_ring (app_ring app))).
       sqe_user_data s < length (m_work_items (m_pool (app_ring app))) \<and>
       (\<exists>sock f. T sock (fst (op_view (sqe_operation s))) f \<and> get_fd sock = snd (op_view (sqe_operation s)))) \<and>
    pool_inv (m_pool (app_ring app)) \<and>
    distinct (map ri_hostname (m_hostname_DNS_requests (app_dns app))) \<and>
    distinct (List.map_filter ri_request (m_hostname_DNS_requests (app_dns app))) \<and>
    (\<forall>req \<in> set (m_hostname_DNS_requests (app_dns app)). \<forall>p. ri_request req = Some p \<longrightarrow>
       (p, c_str (ri_hostname req)) \<in> set (lookups (app_dns app)))"
proof -
  have k: "governed T w client (app_ring app)" "resolver_inv (app_dns app)"
    using app_run_keeps [OF assms(3,4) _ _ assms(5)] assms(1) by simp_all
  note p = policedD [OF governed_policed [OF k(1) assms(2)]]
  show ?thesis
    using p(1,3) k(2) by (auto simp: ring_inv_def entries_ok_def entry_ok_def resolver_inv_def)
qed

definition connecting :: "isocket \<Rightarrow> dns_client" where
  "connecting s h res tr =
     (case res of
        Inr (a # _) \<Rightarrow> Submit_connect s a (Some 7) (Return Action_NONE)
      | _ \<Rightarrow> Return Action_NONE)"

definition only_connect :: policy where
  "only_connect s t f \<longleftrightarrow> t = Type_CONNECT \<and> f = Some 7"

theorem application_keeps_both_sides_witness:
  "\<exists>r app. governed only_connect mapless_world (answering Action_NONE) r \<and>
     app_run mapless_world (answering Action_NONE) (connecting example_socket) example_in4 example_in6
       [App_dns (Resolve ''host'' 3), App_poll, App_dns (Resolve ''host'' 4)]
       \<lparr>app_ring = r, app_dns = new_resolver\<rparr> = Inr app \<and>
     map ri_hostname (m_hostname_DNS_requests (app_dns app)) = [''host''] \<and>
     pool_inv (m_pool (app_ring app))"
proof -
  let ?k = "answering Action_NONE"
  let ?ops = "[App_dns (Resolve ''host'' 3), App_poll, App_dns (Resolve ''host'' 4)]"
  obtain e raw r where r: "init mapless_world (new_iouring raw 64 []) = Inr (e, r)"
    using example_recv_run [of "w_peek mapless_world" example_socket] by auto
  have g: "governed only_connect mapless_world ?k r" by (rule governed_init [OF r]) simp_all
  have pton: "w_pton6 mapless_world = (\<lambda>_. None)" by (simp add: example_world_def)
  have poll: "poll_completion_queues mapless_world ?k r = Inr (Error_OK, r\<lparr>m_ring := Peek_cqe # m_ring r\<rparr>)"
    by (simp add: poll_completion_queues_def poll_with_def example_world_def Let_def)
  obtain app where app: "app_run mapless_world ?k (connecting example_socket) example_in4 example_in6 ?ops
      \<lparr>app_ring = r, app_dns = new_resolver\<rparr> = Inr app"
    and names: "map ri_hostname (m_hostname_DNS_requests (app_dns app)) = [''host'']"
    using poll by (simp add: app_step_def dns_step_def resolve_hostname_def pton example_name new_resolver_def
        new_answers_def new_request_info_def Let_def)
  have "allows_client only_connect ?k" by (simp add: allows_client_def answering_def)
  moreover have "allows only_connect (connecting example_socket h res tr)" for h res tr
    by (simp add: connecting_def only_connect_def split: sum.split list.split)
  ultimately have "pool_inv (m_pool (app_ring app))"
    using application_keeps_both_sides [OF g _ _ _ app] by simp
  with g app names show ?thesis by (intro exI [of _ r] exI [of _ app] conjI)
qed

text \<open>
  C34. What becomes of an application that does its work in the handler of a look-up. If a name is no
  address and nobody asked for it before, then whatever the handler would do makes no difference
  to anything: the run is the same, call for call, fault for fault, as with any other program in its
  place, whatever follows. So a client that connects once its name is resolved never connects,
  although with the text of an address in place of the name it does at once.
\<close>

theorem lookup_handler_has_no_effect:
  assumes "ip_parse raw4 raw6 (w_pton6 w) name = Inl e"
    and "name \<notin> ri_hostname ` set (m_hostname_DNS_requests (app_dns app))"
    and "h \<notin> fst ` set (answers (app_dns app))" and "h \<notin> waiting (m_hostname_DNS_requests (app_dns app))"
    and "\<forall>n. App_dns (Resolve n h) \<notin> set ops" and "\<And>g. g \<noteq> h \<Longrightarrow> handler g = handler' g"
  shows "app_run w client handler raw4 raw6 (App_dns (Resolve name h) # ops) app =
    app_run w client handler' raw4 raw6 (App_dns (Resolve name h) # ops) app"
proof -
  let ?st = "resolve_hostname raw4 raw6 (w_pton6 w) name h (app_dns app)"
  have new: "add_handler name h (m_hostname_DNS_requests (app_dns app)) = None"
    using assms(2) by (simp add: add_handler_None)
  have "stuck h ?st"
    using assms(1,3,4) new
    by (auto simp: resolve_hostname_def stuck_def Let_def new_request_info_def waiting_def)
  moreover have "new_answers (app_dns app) ?st = []"
    using assms(1) new by (simp add: resolve_hostname_def new_answers_def Let_def)
  ultimately show ?thesis
    using stuck_run_agree [where handler = handler and handler' = handler', OF _ assms(6,5)]
    by (simp add: app_step_def dns_step_def)
qed

theorem lookup_handler_has_no_effect_witness:
  "\<forall>client r. \<exists>app'. app_run example_world client (connecting example_socket) example_in4 example_in6
      [App_dns (Resolve ''host'' 3), App_dns (Notify 0 (Some [(2, replicate 16 1)]))]
      \<lparr>app_ring = r, app_dns = new_resolver\<rparr> = Inr app' \<and> app_ring app' = r"
proof (intro allI)
  fix client r
  let ?ops = "[App_dns (Notify 0 (Some [(2, replicate 16 1)]))]"
  let ?idle = "\<lambda>h. if h = 3 then (\<lambda>_ _. Return Action_NONE) else connecting example_socket h"
  let ?run = "\<lambda>k. app_run example_world client k example_in4 example_in6 (App_dns (Resolve ''host'' 3) # ?ops)
      \<lparr>app_ring = r, app_dns = new_resolver\<rparr>"
  have pton: "w_pton6 example_world = (\<lambda>_. None)" by (simp add: example_world_def)
  have "?run (connecting example_socket) = ?run ?idle"
    by (rule lookup_handler_has_no_effect) (simp_all add: pton example_name new_resolver_def)
  moreover have "\<exists>app'. ?run ?idle = Inr app' \<and> app_ring app' = r"
    by (simp add: app_step_def dns_step_def resolve_hostname_def pton example_name new_resolver_def
        new_answers_def new_request_info_def sig_notifier_hostname_resolve_def
        trigger_hostname_resolve_callbacks_def trigger_entry_def Let_def)
  ultimately show "\<exists>app'. ?run (connecting example_socket) = Inr app' \<and> app_ring app' = r" by simp
qed

end
