(* ===== verification/Resolver_Reentry.thy ===== *)
theory Resolver_Reentry
  imports Host_Resolver
begin

text \<open>
  Handlers that resolve again. In \<open>src/IOUring.cpp\<close> a handler runs inside \<open>resolve_hostname\<close>, when
  the name is an address, or inside the two range-based loops of
  \<open>trigger_hostname_resolve_callbacks\<close>. What a handler resolves from there is a list \<open>asks\<close> that
  may depend on its result. Two things follow that the log of the theory \<open>Host_Resolver\<close> cannot show.
  A handler of an address that resolves addresses is called from inside itself, so a call may never
  return (\<open>None\<close>). And a range-based loop keeps the past-the-end iterator of its vector, which
  \<open>push_back\<close> and \<open>emplace_back\<close> invalidate: a new entry breaks the loop over the table, a new
  handler of the entry that is being answered breaks the loop over its handlers. Both loops compare
  with that iterator after the handler returns; this is the undefined behaviour here.

  \<^item> \<open>run_asks\<close>: what is still to be resolved, the innermost call first, with a flag that says
    whether a vector that is being iterated has grown.
  \<^item> \<open>notify_reentrant\<close>: the two loops. Without asks they are those of \<open>Host_Resolver\<close>.
\<close>

section \<open>Resolving from inside\<close>

type_synonym asks = "nat \<Rightarrow> resolve_result \<Rightarrow> (string \<times> nat) list"

primrec entry_index :: "string \<Rightarrow> request_info list \<Rightarrow> nat option" where
  "entry_index hostname [] = None"
| "entry_index hostname (req # rest) =
     (if ri_hostname req = hostname then Some 0 else map_option Suc (entry_index hostname rest))"

text \<open>Whether a look-up of the name grows a vector that is iterated, if entry \<open>k\<close> is being answered.\<close>

definition grows_iterated :: "nat option \<Rightarrow> string \<Rightarrow> resolver \<Rightarrow> bool" where
  "grows_iterated answering hostname st =
     (case answering of
        None \<Rightarrow> False
      | Some k \<Rightarrow>
          (case entry_index hostname (m_hostname_DNS_requests st) of
             None \<Rightarrow> True
           | Some j \<Rightarrow> j = k))"

partial_function (option) run_asks ::
  "sockaddr_in \<Rightarrow> sockaddr_in6 \<Rightarrow> pton6_fun \<Rightarrow> asks \<Rightarrow> nat option \<Rightarrow> (string \<times> nat) list \<Rightarrow>
     resolver \<times> bool \<Rightarrow> (resolver \<times> bool) option" where
  "run_asks raw4 raw6 pton6 asks answering todo s =
     (case todo of
        [] \<Rightarrow> Some s
      | (hostname, h) # rest \<Rightarrow>
          (case ip_parse raw4 raw6 pton6 hostname of
             Inr addr \<Rightarrow>
               run_asks raw4 raw6 pton6 asks answering (asks h (Inr [addr]) @ rest)
                 (resolve_hostname raw4 raw6 pton6 hostname h (fst s), snd s)
           | Inl e \<Rightarrow>
               run_asks raw4 raw6 pton6 asks answering rest
                 (resolve_hostname raw4 raw6 pton6 hostname h (fst s),
                  snd s \<or> grows_iterated answering hostname (fst s))))"

definition resolve_reentrant ::
  "sockaddr_in \<Rightarrow> sockaddr_in6 \<Rightarrow> pton6_fun \<Rightarrow> asks \<Rightarrow> string \<Rightarrow> nat \<Rightarrow> resolver \<Rightarrow> resolver option" where
  "resolve_reentrant raw4 raw6 pton6 asks hostname h st =
     map_option fst (run_asks raw4 raw6 pton6 asks None [(hostname, h)] (st, False))"

section \<open>The loops of a notification\<close>

abbreviation grown :: fault where
  "grown \<equiv> Undefined_behaviour ''past-the-end iterator of a vector that has grown''"

primrec call_handlers ::
  "sockaddr_in \<Rightarrow> sockaddr_in6 \<Rightarrow> pton6_fun \<Rightarrow> asks \<Rightarrow> nat \<Rightarrow> resolve_result \<Rightarrow> nat list \<Rightarrow> resolver \<Rightarrow>
     resolver outcome option" where
  "call_handlers raw4 raw6 pton6 asks k result [] st = Some (Inr st)"
| "call_handlers raw4 raw6 pton6 asks k result (h # handlers) st =
     (case run_asks raw4 raw6 pton6 asks (Some k) (asks h result)
             (st\<lparr>answers := (h, result) # answers st\<rparr>, False) of
        None \<Rightarrow> None
      | Some (st, broken) \<Rightarrow>
          if broken then Some (Inl grown)
          else call_handlers raw4 raw6 pton6 asks k result handlers st)"

text \<open>Entry \<open>k\<close>, in its place in the table; then the rest of the loop over the table.\<close>

definition answer_entry ::
  "sockaddr_in \<Rightarrow> sockaddr_in6 \<Rightarrow> pton6_fun \<Rightarrow> asks \<Rightarrow> nat \<Rightarrow> addr_info list option \<Rightarrow> nat \<Rightarrow> resolver \<Rightarrow>
     resolver outcome option" where
  "answer_entry raw4 raw6 pton6 asks ptr ar_result k st =
     (let it = m_hostname_DNS_requests st ! k in
      case ri_request it of
        None \<Rightarrow> Some (Inr st)
      | Some request \<Rightarrow>
          if request \<noteq> ptr then Some (Inr st)
          else
            (case ar_result of
               None \<Rightarrow>
                 call_handlers raw4 raw6 pton6 asks k (Inl Error_HOSTNAME_RESOLVE_FAILED) (ri_handlers it) st
             | Some res \<Rightarrow>
                 call_handlers raw4 raw6 pton6 asks k (Inr (convert_addresses res)) (ri_handlers it)
                   (st\<lparr>m_hostname_DNS_requests :=
                        (m_hostname_DNS_requests st)[k := it\<lparr>ri_request := None\<rparr>]\<rparr>)))"

primrec answer_entries ::
  "sockaddr_in \<Rightarrow> sockaddr_in6 \<Rightarrow> pton6_fun \<Rightarrow> asks \<Rightarrow> nat \<Rightarrow> addr_info list option \<Rightarrow> nat list \<Rightarrow>
     resolver \<Rightarrow> resolver outcome option" where
  "answer_entries raw4 raw6 pton6 asks ptr ar_result [] st = Some (Inr st)"
| "answer_entries raw4 raw6 pton6 asks ptr ar_result (k # ks) st =
     (case answer_entry raw4 raw6 pton6 asks ptr ar_result k st of
        None \<Rightarrow> None
      | Some (Inl e) \<Rightarrow> Some (Inl e)
      | Some (Inr st) \<Rightarrow> answer_entries raw4 raw6 pton6 asks ptr ar_result ks st)"

definition notify_reentrant ::
  "sockaddr_in \<Rightarrow> sockaddr_in6 \<Rightarrow> pton6_fun \<Rightarrow> asks \<Rightarrow> nat \<Rightarrow> addr_info list option \<Rightarrow> resolver \<Rightarrow>
     resolver outcome option" where
  "notify_reentrant raw4 raw6 pton6 asks ptr ar_result st =
     (if s_self st
      then answer_entries raw4 raw6 pton6 asks ptr ar_result [0..<length (m_hostname_DNS_requests st)] st
      else Some (Inl (Assert_fail ''s_self != nullptr'')))"

section \<open>Without asks\<close>

lemma run_asks_Nil [simp]: "run_asks raw4 raw6 pton6 asks k [] s = Some s"
  by (simp add: run_asks.simps)

definition silent :: asks where
  "silent h res = []"

lemma call_handlers_silent:
  "call_handlers raw4 raw6 pton6 silent k result handlers st =
     Some (Inr (st\<lparr>answers := rev (map (\<lambda>h. (h, result)) handlers) @ answers st\<rparr>))"
  by (induction handlers arbitrary: st) (simp_all add: silent_def)

lemma answer_entry_silent:
  assumes "m_hostname_DNS_requests st ! k = it" and "trigger_entry p res it = (it', calls)"
  shows "answer_entry raw4 raw6 pton6 silent p res k st =
    Some (Inr (st\<lparr>m_hostname_DNS_requests := (m_hostname_DNS_requests st)[k := it'],
                  answers := rev calls @ answers st\<rparr>))"
  using assms
  by (auto simp: answer_entry_def trigger_entry_def call_handlers_silent rev_map Let_def
      split: option.splits if_splits)

lemma answer_entries_silent:
  "m_hostname_DNS_requests st = done @ rest \<Longrightarrow> trigger_entries p res rest = (rest', calls) \<Longrightarrow>
     answer_entries raw4 raw6 pton6 silent p res [length done..<length (done @ rest)] st =
       Some (Inr (st\<lparr>m_hostname_DNS_requests := done @ rest', answers := rev calls @ answers st\<rparr>))"
proof (induction rest arbitrary: st "done" rest' calls)
  case Nil
  then show ?case by simp
next
  case (Cons it rest)
  obtain it' c1 rest2 c2 where
    t: "trigger_entry p res it = (it', c1)" "trigger_entries p res rest = (rest2, c2)"
    by fastforce
  then have r: "rest' = it' # rest2" "calls = c1 @ c2" using Cons.prems(2) by simp_all
  let ?st = "st\<lparr>m_hostname_DNS_requests := (done @ [it']) @ rest, answers := rev c1 @ answers st\<rparr>"
  have one: "answer_entry raw4 raw6 pton6 silent p res (length done) st = Some (Inr ?st)"
    using answer_entry_silent [OF _ t(1), of st "length done"] Cons.prems(1) by simp
  have "[length done..<length (done @ it # rest)] =
      length done # [length (done @ [it'])..<length ((done @ [it']) @ rest)]"
    using upt_conv_Cons [of "length done" "length (done @ it # rest)"] by simp
  then show ?case
    using Cons.IH [of ?st "done @ [it']", OF _ t(2)] one by (simp add: r)
qed

section \<open>Handlers that ask for names\<close>

lemma entry_index_None: "entry_index n reqs = None \<longleftrightarrow> n \<notin> ri_hostname ` set reqs"
  by (induction reqs) auto

lemma entry_index_eq:
  "distinct (map ri_hostname reqs) \<Longrightarrow> k < length reqs \<Longrightarrow>
     entry_index n reqs = Some k \<longleftrightarrow> n = ri_hostname (reqs ! k)"
proof (induction reqs arbitrary: k)
  case Nil
  then show ?case by simp
next
  case (Cons r rs)
  then show ?case by (cases k) (auto simp: nth_mem image_iff)
qed

text \<open>The look-ups that leave both iterated vectors alone: of another name that has its entry.\<close>

definition only_queues :: "resolver \<Rightarrow> nat \<Rightarrow> string \<times> nat \<Rightarrow> bool" where
  "only_queues st k ask \<longleftrightarrow>
     fst ask \<in> ri_hostname ` set (m_hostname_DNS_requests st) \<and>
     fst ask \<noteq> ri_hostname (m_hostname_DNS_requests st ! k)"

lemma grows_iterated_iff:
  assumes "distinct (map ri_hostname (m_hostname_DNS_requests st))"
    and "k < length (m_hostname_DNS_requests st)"
  shows "grows_iterated (Some k) (fst ask) st \<longleftrightarrow> \<not> only_queues st k ask"
  using entry_index_eq [OF assms, of "fst ask"] entry_index_None [of "fst ask" "m_hostname_DNS_requests st"]
  by (cases "entry_index (fst ask) (m_hostname_DNS_requests st)")
    (auto simp: grows_iterated_def only_queues_def)

text \<open>What an answer may not change: the names, the requests and the entry being answered.\<close>

definition same_entries :: "nat \<Rightarrow> resolver \<Rightarrow> resolver \<Rightarrow> bool" where
  "same_entries k st st' \<longleftrightarrow>
     map ri_hostname (m_hostname_DNS_requests st') = map ri_hostname (m_hostname_DNS_requests st) \<and>
     map ri_request (m_hostname_DNS_requests st') = map ri_request (m_hostname_DNS_requests st) \<and>
     m_hostname_DNS_requests st' ! k = m_hostname_DNS_requests st ! k"

lemma same_entries_refl [simp]: "same_entries k st st"
  by (simp add: same_entries_def)

lemma same_entries_trans: "same_entries k s t \<Longrightarrow> same_entries k t u \<Longrightarrow> same_entries k s u"
  by (simp add: same_entries_def)

lemma same_entries_length:
  "same_entries k s t \<Longrightarrow> length (m_hostname_DNS_requests t) = length (m_hostname_DNS_requests s)"
  unfolding same_entries_def by (metis length_map)

lemma only_queues_same: "same_entries k s t \<Longrightarrow> only_queues t k = only_queues s k"
  unfolding same_entries_def only_queues_def by (metis list.set_map)

lemma add_handler_other:
  "add_handler n h reqs = Some reqs' \<Longrightarrow> k < length reqs \<Longrightarrow> ri_hostname (reqs ! k) \<noteq> n \<Longrightarrow>
     reqs' ! k = reqs ! k"
proof (induction reqs arbitrary: reqs' k)
  case Nil
  then show ?case by simp
next
  case (Cons r rs)
  then show ?case by (cases k) (auto split: if_splits option.splits)
qed

lemma resolve_only_queues:
  assumes "ip_parse raw4 raw6 pton6 n = Inl e" and "only_queues st k (n, h)"
    and "k < length (m_hostname_DNS_requests st)"
  shows "same_entries k st (resolve_hostname raw4 raw6 pton6 n h st) \<and>
    answers (resolve_hostname raw4 raw6 pton6 n h st) = answers st"
proof -
  let ?reqs = "m_hostname_DNS_requests st"
  obtain reqs' where r: "add_handler n h ?reqs = Some reqs'"
    using assms(2) add_handler_None [of n h ?reqs] by (auto simp: only_queues_def)
  then show ?thesis
    using assms add_handler_Some [OF r] add_handler_other [OF r assms(3)]
    by (auto simp: resolve_hostname_def Let_def same_entries_def only_queues_def)
qed

text \<open>An ask for a name, not for an address in text form: its handler is not called at once.\<close>

abbreviation is_name :: "sockaddr_in \<Rightarrow> sockaddr_in6 \<Rightarrow> pton6_fun \<Rightarrow> string \<times> nat \<Rightarrow> bool" where
  "is_name raw4 raw6 pton6 ask \<equiv> isl (ip_parse raw4 raw6 pton6 (fst ask))"

lemma run_asks_name:
  "is_name raw4 raw6 pton6 ask \<Longrightarrow>
     run_asks raw4 raw6 pton6 asks k (ask # rest) (st, b) =
       run_asks raw4 raw6 pton6 asks k rest
         (resolve_hostname raw4 raw6 pton6 (fst ask) (snd ask) st, b \<or> grows_iterated k (fst ask) st)"
  by (subst run_asks.simps) (auto simp: isl_def split: prod.split)

text \<open>Once a vector has grown, it has; as long as none has, the entries are what they were.\<close>

lemma run_asks_broken:
  "list_all (is_name raw4 raw6 pton6) todo \<Longrightarrow>
     \<exists>st'. run_asks raw4 raw6 pton6 asks k todo (st, True) = Some (st', True)"
  by (induction todo arbitrary: st) (auto simp: run_asks_name)

lemma run_asks_only_queues:
  "list_all (is_name raw4 raw6 pton6) todo \<Longrightarrow> list_all (only_queues st k) todo \<Longrightarrow>
     resolver_inv st \<Longrightarrow> k < length (m_hostname_DNS_requests st) \<Longrightarrow>
     \<exists>st'. run_asks raw4 raw6 pton6 asks (Some k) todo (st, False) = Some (st', False) \<and>
       same_entries k st st' \<and> answers st' = answers st \<and> resolver_inv st'"
proof (induction todo arbitrary: st)
  case Nil
  then show ?case by simp
next
  case (Cons ask todo)
  let ?st = "resolve_hostname raw4 raw6 pton6 (fst ask) (snd ask) st"
  have n: "is_name raw4 raw6 pton6 ask" and q: "only_queues st k ask" using Cons.prems by simp_all
  have g: "\<not> grows_iterated (Some k) (fst ask) st"
    using grows_iterated_iff Cons.prems(3,4) q by (auto simp: resolver_inv_def)
  have s: "same_entries k st ?st" "answers ?st = answers st"
    using resolve_only_queues [of raw4 raw6 pton6 "fst ask" _ st k "snd ask"] n q Cons.prems(4)
    by (auto simp: isl_def)
  have "\<exists>st'. run_asks raw4 raw6 pton6 asks (Some k) todo (?st, False) = Some (st', False) \<and>
       same_entries k ?st st' \<and> answers st' = answers ?st \<and> resolver_inv st'"
    using Cons.prems only_queues_same [OF s(1)] same_entries_length [OF s(1)]
    by (intro Cons.IH) (simp_all add: resolve_inv)
  then show ?case using same_entries_trans [OF s(1)] s(2) by (auto simp: run_asks_name [OF n] g)
qed

lemma run_asks_grows:
  "list_all (is_name raw4 raw6 pton6) todo \<Longrightarrow> \<not> list_all (only_queues st k) todo \<Longrightarrow>
     resolver_inv st \<Longrightarrow> k < length (m_hostname_DNS_requests st) \<Longrightarrow>
     \<exists>st'. run_asks raw4 raw6 pton6 asks (Some k) todo (st, False) = Some (st', True)"
proof (induction todo arbitrary: st)
  case Nil
  then show ?case by simp
next
  case (Cons ask todo)
  let ?st = "resolve_hostname raw4 raw6 pton6 (fst ask) (snd ask) st"
  have n: "is_name raw4 raw6 pton6 ask" using Cons.prems by simp
  have g: "grows_iterated (Some k) (fst ask) st \<longleftrightarrow> \<not> only_queues st k ask"
    using grows_iterated_iff Cons.prems(3,4) by (simp add: resolver_inv_def)
  show ?case
  proof (cases "only_queues st k ask")
    case True
    then have s: "same_entries k st ?st"
      using resolve_only_queues [of raw4 raw6 pton6 "fst ask" _ st k "snd ask"] n Cons.prems(4)
      by (auto simp: isl_def)
    show ?thesis
      using Cons.prems only_queues_same [OF s] same_entries_length [OF s] Cons.IH [of ?st] True
      by (simp add: run_asks_name [OF n] g resolve_inv)
  next
    case False
    then show ?thesis using Cons.prems(1) by (simp add: run_asks_name [OF n] g run_asks_broken)
  qed
qed

text \<open>All handlers of an entry, told the same result.\<close>

lemma call_handlers_only_queues:
  "\<forall>h \<in> set hs. list_all (is_name raw4 raw6 pton6) (asks h result) \<and> list_all (only_queues st k) (asks h result) \<Longrightarrow>
     resolver_inv st \<Longrightarrow> k < length (m_hostname_DNS_requests st) \<Longrightarrow>
     \<exists>st'. call_handlers raw4 raw6 pton6 asks k result hs st = Some (Inr st') \<and>
       same_entries k st st' \<and> answers st' = rev (map (\<lambda>h. (h, result)) hs) @ answers st"
proof (induction hs arbitrary: st)
  case Nil
  then show ?case by simp
next
  case (Cons h hs)
  let ?st = "st\<lparr>answers := (h, result) # answers st\<rparr>"
  have same: "same_entries k st ?st" and inv: "resolver_inv ?st"
    using Cons.prems(2) by (simp_all add: same_entries_def resolver_inv_def)
  obtain st1 where one: "run_asks raw4 raw6 pton6 asks (Some k) (asks h result) (?st, False) = Some (st1, False)"
    "same_entries k ?st st1" "answers st1 = answers ?st" "resolver_inv st1"
    using run_asks_only_queues [of raw4 raw6 pton6 "asks h result" ?st k asks] Cons.prems inv
      only_queues_same [OF same] by auto
  note s1 = same_entries_trans [OF same one(2)]
  obtain st2 where "call_handlers raw4 raw6 pton6 asks k result hs st1 = Some (Inr st2)"
    "same_entries k st1 st2" "answers st2 = rev (map (\<lambda>h. (h, result)) hs) @ answers st1"
    using Cons.IH [of st1] Cons.prems one(4) only_queues_same [OF s1] same_entries_length [OF s1] by auto
  then show ?case using one same_entries_trans [OF s1] by simp
qed

lemma call_handlers_grows:
  "\<forall>h \<in> set hs. list_all (is_name raw4 raw6 pton6) (asks h result) \<Longrightarrow>
     \<exists>h \<in> set hs. \<not> list_all (only_queues st k) (asks h result) \<Longrightarrow>
     resolver_inv st \<Longrightarrow> k < length (m_hostname_DNS_requests st) \<Longrightarrow>
     call_handlers raw4 raw6 pton6 asks k result hs st = Some (Inl grown)"
proof (induction hs arbitrary: st)
  case Nil
  then show ?case by simp
next
  case (Cons h hs)
  let ?st = "st\<lparr>answers := (h, result) # answers st\<rparr>"
  have same: "same_entries k st ?st" and inv: "resolver_inv ?st"
    using Cons.prems(3) by (simp_all add: same_entries_def resolver_inv_def)
  show ?case
  proof (cases "list_all (only_queues st k) (asks h result)")
    case True
    then obtain st1 where one:
      "run_asks raw4 raw6 pton6 asks (Some k) (asks h result) (?st, False) = Some (st1, False)"
      "same_entries k ?st st1" "resolver_inv st1"
      using run_asks_only_queues [of raw4 raw6 pton6 "asks h result" ?st k asks] Cons.prems inv
        only_queues_same [OF same] by auto
    note s1 = same_entries_trans [OF same one(2)]
    show ?thesis
      using Cons.IH [of st1] Cons.prems one True only_queues_same [OF s1] same_entries_length [OF s1] by simp
  next
    case False
    then show ?thesis
      using run_asks_grows [of raw4 raw6 pton6 "asks h result" ?st k asks] Cons.prems inv
        only_queues_same [OF same] by auto
  qed
qed

text \<open>The loop over the table passes the entries with another request.\<close>

lemma answer_entries_pass:
  "\<forall>j \<in> set ks. ri_request (m_hostname_DNS_requests st ! j) \<noteq> Some p \<Longrightarrow>
     answer_entries raw4 raw6 pton6 asks p res ks st = Some (Inr st)"
  by (induction ks) (auto simp: answer_entry_def Let_def split: option.split)

lemma answer_entries_append:
  "answer_entries raw4 raw6 pton6 asks p res ks st = Some (Inr st') \<Longrightarrow>
     answer_entries raw4 raw6 pton6 asks p res (ks @ ks') st =
       answer_entries raw4 raw6 pton6 asks p res ks' st'"
  by (induction ks arbitrary: st) (auto split: option.splits sum.splits)

lemma notify_at_entry:
  assumes "resolver_inv st" and "s_self st" and "k < length (m_hostname_DNS_requests st)"
    and "ri_request (m_hostname_DNS_requests st ! k) = Some p"
  shows "notify_reentrant raw4 raw6 pton6 asks p res st =
    (case answer_entry raw4 raw6 pton6 asks p res k st of
       None \<Rightarrow> None
     | Some (Inl e) \<Rightarrow> Some (Inl e)
     | Some (Inr st') \<Rightarrow>
         answer_entries raw4 raw6 pton6 asks p res [Suc k..<length (m_hostname_DNS_requests st)] st')"
proof -
  let ?n = "length (m_hostname_DNS_requests st)"
  have d: "distinct (List.map_filter ri_request (m_hostname_DNS_requests st))"
    using assms(1) by (simp add: resolver_inv_def)
  have "[0..<?n] = [0..<k] @ [k..<?n]"
    using assms(3) upt_add_eq_append [of 0 k "?n - k"] by simp
  also have "[k..<?n] = k # [Suc k..<?n]" by (rule upt_conv_Cons [OF assms(3)])
  finally have split: "[0..<?n] = [0..<k] @ k # [Suc k..<?n]" .
  have "\<forall>j \<in> set [0..<k]. ri_request (m_hostname_DNS_requests st ! j) \<noteq> Some p"
    using pending_unique [OF d _ assms(3) _ assms(4)] assms(3)
    by (metis atLeastLessThan_iff less_irrefl less_trans set_upt)
  from answer_entries_append [OF answer_entries_pass [OF this]] show ?thesis
    by (simp only: notify_reentrant_def assms(2) split) simp
qed

text \<open>What an entry's handlers are called with, and the state they are called in.\<close>

definition told :: "addr_info list option \<Rightarrow> resolve_result" where
  "told ar_result = (case ar_result of
     None \<Rightarrow> Inl Error_HOSTNAME_RESOLVE_FAILED
   | Some res \<Rightarrow> Inr (convert_addresses res))"

definition closed_entry :: "addr_info list option \<Rightarrow> nat \<Rightarrow> resolver \<Rightarrow> resolver" where
  "closed_entry ar_result k st = (if ar_result = None then st else
     st\<lparr>m_hostname_DNS_requests := (m_hostname_DNS_requests st)
          [k := (m_hostname_DNS_requests st ! k)\<lparr>ri_request := None\<rparr>]\<rparr>)"

lemma answer_entry_told:
  "ri_request (m_hostname_DNS_requests st ! k) = Some p \<Longrightarrow>
     answer_entry raw4 raw6 pton6 asks p res k st =
       call_handlers raw4 raw6 pton6 asks k (told res) (ri_handlers (m_hostname_DNS_requests st ! k))
         (closed_entry res k st)"
  by (simp add: answer_entry_def told_def closed_entry_def Let_def split: option.split)

lemma closed_entry_names:
  assumes "k < length (m_hostname_DNS_requests st)"
  shows "map ri_hostname (m_hostname_DNS_requests (closed_entry res k st)) =
      map ri_hostname (m_hostname_DNS_requests st)"
    and "length (m_hostname_DNS_requests (closed_entry res k st)) = length (m_hostname_DNS_requests st)"
    and "only_queues (closed_entry res k st) k = only_queues st k"
    and "answers (closed_entry res k st) = answers st"
    and "j \<noteq> k \<Longrightarrow> m_hostname_DNS_requests (closed_entry res k st) ! j = m_hostname_DNS_requests st ! j"
proof -
  show names: "map ri_hostname (m_hostname_DNS_requests (closed_entry res k st)) =
      map ri_hostname (m_hostname_DNS_requests st)"
    using assms list_update_id [of "map ri_hostname (m_hostname_DNS_requests st)" k]
    by (simp add: closed_entry_def map_update)
  have "ri_hostname (m_hostname_DNS_requests (closed_entry res k st) ! k) =
      ri_hostname (m_hostname_DNS_requests st ! k)"
    using assms by (simp add: closed_entry_def)
  then show "only_queues (closed_entry res k st) k = only_queues st k"
    using arg_cong [OF names, of set] by (simp add: only_queues_def fun_eq_iff)
qed (use assms in \<open>auto simp: closed_entry_def\<close>)

lemma closed_entry_requests:
  "k < length (m_hostname_DNS_requests st) \<Longrightarrow> ri_request (m_hostname_DNS_requests st ! k) = Some p \<Longrightarrow>
     map ri_request (m_hostname_DNS_requests (closed_entry res k st)) =
       (map ri_request (m_hostname_DNS_requests st)) [k := (if res = None then Some p else None)]"
  using list_update_id [of "map ri_request (m_hostname_DNS_requests st)" k]
  by (simp add: closed_entry_def map_update)

lemma map_filter_close:
  "f y = None \<Longrightarrow> set (List.map_filter f (xs[k := y])) \<subseteq> set (List.map_filter f xs) \<and>
     (distinct (List.map_filter f xs) \<longrightarrow> distinct (List.map_filter f (xs[k := y])))"
proof (induction xs arbitrary: k)
  case Nil
  then show ?case by simp
next
  case (Cons x xs)
  show ?case
  proof (cases k)
    case 0
    then show ?thesis using Cons.prems by (auto simp: List.map_filter_simps split: option.split)
  next
    case (Suc j)
    then show ?thesis
      using Cons.IH [OF Cons.prems, of j] by (auto simp: List.map_filter_simps split: option.split)
  qed
qed

lemma closed_entry_inv:
  assumes "resolver_inv st" and "k < length (m_hostname_DNS_requests st)"
  shows "resolver_inv (closed_entry res k st)"
proof (cases res)
  case None
  then show ?thesis using assms(1) by (simp add: closed_entry_def)
next
  case (Some infos)
  let ?reqs = "m_hostname_DNS_requests st" and ?reqs' = "m_hostname_DNS_requests (closed_entry res k st)"
  have reqs': "?reqs' = ?reqs[k := (?reqs ! k)\<lparr>ri_request := None\<rparr>]"
    using Some by (simp add: closed_entry_def)
  have "distinct (List.map_filter ri_request ?reqs')"
    using assms(1) map_filter_close [of ri_request "(?reqs ! k)\<lparr>ri_request := None\<rparr>" ?reqs k]
    by (simp add: reqs' resolver_inv_def)
  moreover have "(q, c_str (ri_hostname req)) \<in> set (lookups st)"
    if "req \<in> set ?reqs'" "ri_request req = Some q" for req q
    using that assms(1) set_update_subset_insert [of ?reqs k] reqs' by (fastforce simp: resolver_inv_def)
  ultimately show ?thesis
    using assms(1) closed_entry_names(1) [OF assms(2), of res] by (simp add: resolver_inv_def Some closed_entry_def)
qed

section \<open>Handlers that ask for addresses\<close>

lemma run_asks_literal:
  "ip_parse raw4 raw6 pton6 n = Inr addr \<Longrightarrow>
     run_asks raw4 raw6 pton6 asks k ((n, h) # rest) (st, b) =
       run_asks raw4 raw6 pton6 asks k (asks h (Inr [addr]) @ rest)
         (resolve_hostname raw4 raw6 pton6 n h st, b)"
  by (subst run_asks.simps) simp

text \<open>
  The asks of an address are for handlers of a lower rank: then everything that is to be resolved is,
  and what was to be resolved after it comes next.
\<close>

definition descending ::
  "sockaddr_in \<Rightarrow> sockaddr_in6 \<Rightarrow> pton6_fun \<Rightarrow> asks \<Rightarrow> (nat \<Rightarrow> nat) \<Rightarrow> bool" where
  "descending raw4 raw6 pton6 asks rank \<longleftrightarrow>
     (\<forall>h addr. \<forall>(m, g) \<in> set (asks h (Inr [addr])).
        is_name raw4 raw6 pton6 (m, g) \<or> rank g < rank h)"

lemma run_asks_descending:
  "descending raw4 raw6 pton6 asks rank \<Longrightarrow>
     \<forall>(m, g) \<in> set todo. is_name raw4 raw6 pton6 (m, g) \<or> rank g < bound \<Longrightarrow>
     \<exists>s'. \<forall>rest. run_asks raw4 raw6 pton6 asks k (todo @ rest) (st, b) =
       run_asks raw4 raw6 pton6 asks k rest s'"
proof (induction bound arbitrary: todo st b)
  case 0
  then show ?case
  proof (induction todo arbitrary: st b)
    case Nil
    show ?case by (intro exI [of _ "(st, b)"]) simp
  next
    case (Cons ask todo)
    then have n: "is_name raw4 raw6 pton6 ask" by (cases ask) auto
    from Cons show ?case by (simp add: run_asks_name [OF n])
  qed
next
  case (Suc bound)
  note outer = Suc.IH [OF Suc.prems(1)]
  from Suc.prems show ?case
  proof (induction todo arbitrary: st b)
    case Nil
    show ?case by (intro exI [of _ "(st, b)"]) simp
  next
    case (Cons ask todo)
    obtain n h where ask: "ask = (n, h)" by fastforce
    have rest: "\<forall>(m, g) \<in> set todo. is_name raw4 raw6 pton6 (m, g) \<or> rank g < Suc bound"
      using Cons.prems(2) by simp
    show ?case
    proof (cases "ip_parse raw4 raw6 pton6 n")
      case (Inl e)
      then have n: "is_name raw4 raw6 pton6 ask" by (simp add: ask)
      show ?thesis using Cons.IH [OF Cons.prems(1) rest] by (simp add: run_asks_name [OF n])
    next
      case (Inr addr)
      have "\<forall>(m, g) \<in> set (asks h (Inr [addr])). is_name raw4 raw6 pton6 (m, g) \<or> rank g < bound"
        using Cons.prems Inr unfolding descending_def ask by fastforce
      from outer [OF this] obtain st1 b1 where inner: "\<forall>rest.
          run_asks raw4 raw6 pton6 asks k (asks h (Inr [addr]) @ rest)
            (resolve_hostname raw4 raw6 pton6 n h st, b) = run_asks raw4 raw6 pton6 asks k rest (st1, b1)"
        by fastforce
      show ?thesis
        using Cons.IH [OF Cons.prems(1) rest, of st1 b1] inner by (simp add: ask run_asks_literal [OF Inr])
    qed
  qed
qed

text \<open>A handler that resolves its own address text once more.\<close>

lemma run_asks_never:
  "run_asks raw4 raw6 pton6 asks k todo s = Some s' \<Longrightarrow>
     \<forall>n h rest addr others. todo = (n, h) # rest \<longrightarrow> ip_parse raw4 raw6 pton6 n = Inr addr \<longrightarrow>
       asks h (Inr [addr]) \<noteq> (n, h) # others"
proof (induction raw4 raw6 pton6 asks k todo s s' rule: run_asks.raw_induct [rotated, consumes 1])
  case (1 f raw4 raw6 pton6 asks k todo s s')
  show ?case
  proof (intro allI impI notI)
    fix n h rest addr others
    assume a: "todo = (n, h) # rest" "ip_parse raw4 raw6 pton6 n = Inr addr"
      "asks h (Inr [addr]) = (n, h) # others"
    with 1(2) have "f raw4 raw6 pton6 asks k ((n, h) # others @ rest)
        (resolve_hostname raw4 raw6 pton6 n h (fst s), snd s) = Some s'" by simp
    from 1(1) [OF this] a(2,3) show False by blast
  qed
qed

lemma run_asks_inv:
  "run_asks raw4 raw6 pton6 asks k todo s = Some s' \<Longrightarrow> resolver_inv (fst s) \<longrightarrow> resolver_inv (fst s')"
proof (induction raw4 raw6 pton6 asks k todo s s' rule: run_asks.raw_induct [rotated, consumes 1])
  case (1 f raw4 raw6 pton6 asks k todo s s')
  show ?case
  proof (cases todo)
    case Nil
    then show ?thesis using 1(2) by simp
  next
    case (Cons ask rest)
    obtain n h where ask: "ask = (n, h)" by fastforce
    let ?st = "resolve_hostname raw4 raw6 pton6 n h (fst s)"
    obtain todo' b where "f raw4 raw6 pton6 asks k todo' (?st, b) = Some s'"
      using 1(2) by (cases "ip_parse raw4 raw6 pton6 n") (auto simp: Cons ask)
    from 1(1) [OF this] show ?thesis using resolve_inv by simp
  qed
qed

section \<open>Properties\<close>

text \<open>
  A notification whose handlers resolve nothing is the notification of the log: the loops that keep
  their place in the vectors, and stop as soon as one of them has grown, do what
  \<open>trigger_hostname_resolve_callbacks\<close> does to the table and to the log.
\<close>

theorem notify_without_asks:
  assumes "s_self st"
  shows "notify_reentrant raw4 raw6 pton6 silent p res st =
    Some (Inr (trigger_hostname_resolve_callbacks p res st))"
  using assms answer_entries_silent [of st "[]" "m_hostname_DNS_requests st" p res]
  by (cases "trigger_entries p res (m_hostname_DNS_requests st)")
    (simp add: notify_reentrant_def trigger_hostname_resolve_callbacks_def)

theorem notify_without_asks_witness:
  "notify_reentrant example_in4 example_in6 (\<lambda>_. None) silent 0 None (new_resolver\<lparr>s_self := True\<rparr>) =
     Some (Inr (new_resolver\<lparr>s_self := True\<rparr>))"
  by (subst notify_without_asks) (simp_all add: new_resolver_def trigger_hostname_resolve_callbacks_def)

text \<open>
  C36. What a handler may resolve while it is called with the answer to a look-up. If every name the
  handlers of the entry ask for is another one that has its entry already, the notification ends
  with every handler called once, in their order, and the names and requests of the table are
  those of the entry being closed. If only one of them asks for a name that is not in the table, or
  for the very name that is being answered, as a retry after a failed look-up does, the vector the
  notification iterates has grown under it: undefined behaviour.
\<close>

theorem handlers_may_only_queue:
  assumes "resolver_inv st" and "k < length (m_hostname_DNS_requests st)"
    and "ri_request (m_hostname_DNS_requests st ! k) = Some p"
    and "\<forall>h \<in> set (ri_handlers (m_hostname_DNS_requests st ! k)).
      list_all (is_name raw4 raw6 pton6) (asks h (told res))"
  shows "if \<forall>h \<in> set (ri_handlers (m_hostname_DNS_requests st ! k)).
      \<forall>(name, g) \<in> set (asks h (told res)).
        name \<in> ri_hostname ` set (m_hostname_DNS_requests st) \<and>
        name \<noteq> ri_hostname (m_hostname_DNS_requests st ! k)
    then \<exists>st'. notify_reentrant raw4 raw6 pton6 asks p res st = Some (Inr st') \<and>
      answers st' = rev (map (\<lambda>h. (h, told res)) (ri_handlers (m_hostname_DNS_requests st ! k))) @ answers st \<and>
      map ri_hostname (m_hostname_DNS_requests st') = map ri_hostname (m_hostname_DNS_requests st) \<and>
      map ri_request (m_hostname_DNS_requests st') =
        (map ri_request (m_hostname_DNS_requests st)) [k := (if res = None then Some p else None)]
    else notify_reentrant raw4 raw6 pton6 asks p res st = Some (Inl grown)"
proof -
  let ?reqs = "m_hostname_DNS_requests st" and ?st = "closed_entry res k st"
  let ?hs = "ri_handlers (?reqs ! k)" and ?queue = "\<lambda>h. list_all (only_queues st k) (asks h (told res))"
  note closed = closed_entry_names [OF assms(2), where res = res] and inv = closed_entry_inv [OF assms(1,2), of res]
  have "s_self st" using assms(1-3) nth_mem [OF assms(2)] by (fastforce simp: resolver_inv_def)
  note at = notify_at_entry [OF assms(1) this assms(2,3), where res = res, unfolded answer_entry_told [OF assms(3)]]
  note requests = closed_entry_requests [OF assms(2,3), of res]
  have queue: "(\<forall>h \<in> set ?hs. \<forall>(name, g) \<in> set (asks h (told res)).
      name \<in> ri_hostname ` set ?reqs \<and> name \<noteq> ri_hostname (?reqs ! k)) \<longleftrightarrow> (\<forall>h \<in> set ?hs. ?queue h)"
    by (simp add: only_queues_def list_all_iff case_prod_beta)
  show ?thesis
  proof (cases "\<forall>h \<in> set ?hs. ?queue h")
    case True
    then obtain st' where st': "call_handlers raw4 raw6 pton6 asks k (told res) ?hs ?st = Some (Inr st')"
      "same_entries k ?st st'" "answers st' = rev (map (\<lambda>h. (h, told res)) ?hs) @ answers st"
      using call_handlers_only_queues [of ?hs raw4 raw6 pton6 asks "told res" ?st k] assms(2,4) inv closed
      by auto
    have "ri_request (m_hostname_DNS_requests st' ! j) \<noteq> Some p" if "j \<in> set [Suc k..<length ?reqs]" for j
    proof -
      have j: "j < length ?reqs" "j \<noteq> k" using that by auto
      then have "ri_request (m_hostname_DNS_requests st' ! j) = ri_request (?reqs ! j)"
        using st'(2) closed(2,5) same_entries_length [OF st'(2)] unfolding same_entries_def
        by (metis nth_map)
      then show ?thesis
        using pending_unique [of ri_request ?reqs j k p] assms(1-3) j by (auto simp: resolver_inv_def)
    qed
    then have "notify_reentrant raw4 raw6 pton6 asks p res st = Some (Inr st')"
      using at st'(1) by (simp add: answer_entries_pass)
    then show ?thesis
      using True st' closed(1) requests unfolding queue same_entries_def by auto
  next
    case False
    then have "notify_reentrant raw4 raw6 pton6 asks p res st = Some (Inl grown)"
      using at call_handlers_grows [of ?hs raw4 raw6 pton6 asks "told res" ?st k] assms(2,4) inv closed
      by simp
    then show ?thesis using False unfolding queue by simp
  qed
qed

text \<open>A second request queues behind the first; its handler retries the name when it is told.\<close>

theorem handlers_may_only_queue_witness:
  "\<exists>st. run_dns example_in4 example_in6 (\<lambda>_. None) [Resolve ''host'' 3, Resolve ''host'' 4] new_resolver = Inr st \<and>
     notify_reentrant example_in4 example_in6 (\<lambda>_. None) (\<lambda>h res. [(''host'', h)]) 0 None st = Some (Inl grown) \<and>
     (\<exists>st'. notify_reentrant example_in4 example_in6 (\<lambda>_. None) (\<lambda>h res. []) 0 None st = Some (Inr st') \<and>
        answers st' = [(4, Inl Error_HOSTNAME_RESOLVE_FAILED)])"
proof -
  let ?st = "\<lparr>s_self = True, m_hostname_DNS_requests = [\<lparr>ri_hostname = ''host'', ri_request = Some 0, ri_handlers = [4]\<rparr>],
      gaicb_count = 1, lookups = [(0, c_str ''host'')], answers = []\<rparr>"
  have run: "run_dns example_in4 example_in6 (\<lambda>_. None) [Resolve ''host'' 3, Resolve ''host'' 4] new_resolver = Inr ?st"
    by (simp add: dns_step_def resolve_hostname_def example_name new_resolver_def new_request_info_def Let_def)
  have inv: "resolver_inv ?st" by (simp add: resolver_inv_def List.map_filter_simps)
  have retry: "notify_reentrant example_in4 example_in6 (\<lambda>_. None) (\<lambda>h res. [(''host'', h)]) 0 None ?st = Some (Inl grown)"
    using handlers_may_only_queue [OF inv, of 0 0 example_in4 example_in6 "\<lambda>_. None" "\<lambda>h res. [(''host'', h)]" None]
    by (simp add: example_name)
  have "\<exists>st'. notify_reentrant example_in4 example_in6 (\<lambda>_. None) (\<lambda>h res. []) 0 None ?st = Some (Inr st') \<and>
      answers st' = [(4, Inl Error_HOSTNAME_RESOLVE_FAILED)]"
    using handlers_may_only_queue [OF inv, of 0 0 example_in4 example_in6 "\<lambda>_. None" "\<lambda>h res. []" None]
    by (auto simp: told_def)
  then show ?thesis using run retry by blast
qed

text \<open>
  C37. Resolving from a handler returns. If what each handler resolves when it is called with an address
  is either a name or for a handler of a lower rank, every call of \<open>resolve_hostname\<close>, with all those
  made from inside it, returns and keeps the table well-formed. A handler of an address that
  resolves the same address again for itself is called again and again: the call never returns.
\<close>

theorem resolving_returns:
  "(descending raw4 raw6 pton6 asks rank \<longrightarrow>
      (\<exists>st'. resolve_reentrant raw4 raw6 pton6 asks n h st = Some st' \<and>
        (resolver_inv st \<longrightarrow> resolver_inv st'))) \<and>
   (\<forall>addr others. ip_parse raw4 raw6 pton6 n = Inr addr \<and> asks h (Inr [addr]) = (n, h) # others \<longrightarrow>
      resolve_reentrant raw4 raw6 pton6 asks n h st = None)"
proof (intro conjI impI allI)
  assume "descending raw4 raw6 pton6 asks rank"
  then obtain s' where "\<forall>rest. run_asks raw4 raw6 pton6 asks None ([(n, h)] @ rest) (st, False) =
      run_asks raw4 raw6 pton6 asks None rest s'"
    using run_asks_descending [of raw4 raw6 pton6 asks rank "[(n, h)]" "Suc (rank h)" None st False] by auto
  from spec [OF this, of "[]"]
  have "run_asks raw4 raw6 pton6 asks None [(n, h)] (st, False) = Some s'" by simp
  then show "\<exists>st'. resolve_reentrant raw4 raw6 pton6 asks n h st = Some st' \<and>
      (resolver_inv st \<longrightarrow> resolver_inv st')"
    using run_asks_inv [of raw4 raw6 pton6 asks None "[(n, h)]" "(st, False)" s']
    by (simp add: resolve_reentrant_def)
next
  fix addr others
  assume "ip_parse raw4 raw6 pton6 n = Inr addr \<and> asks h (Inr [addr]) = (n, h) # others"
  then show "resolve_reentrant raw4 raw6 pton6 asks n h st = None"
    using run_asks_never [of raw4 raw6 pton6 asks None "[(n, h)]" "(st, False)"]
    by (cases "run_asks raw4 raw6 pton6 asks None [(n, h)] (st, False)") (auto simp: resolve_reentrant_def)
qed

lemma example_literal: "\<exists>addr. ip_parse example_in4 example_in6 (\<lambda>_. None) ''10.0.0.1'' = Inr addr"
proof -
  have "case ip_parse example_in4 example_in6 (\<lambda>_. None) ''10.0.0.1'' of Inl e \<Rightarrow> False | Inr addr \<Rightarrow> True"
    by code_simp
  then show ?thesis by (cases "ip_parse example_in4 example_in6 (\<lambda>_. None) ''10.0.0.1''") simp_all
qed

theorem resolving_returns_witness:
  "(\<exists>st'. resolve_reentrant example_in4 example_in6 (\<lambda>_. None)
      (\<lambda>h res. if h = 1 then [(''10.0.0.1'', 0)] else []) ''10.0.0.1'' 1 new_resolver = Some st') \<and>
   resolve_reentrant example_in4 example_in6 (\<lambda>_. None) (\<lambda>h res. [(''10.0.0.1'', h)]) ''10.0.0.1'' 1
     new_resolver = None"
proof
  let ?asks = "\<lambda>h res. if h = 1 then [(''10.0.0.1'', 0)] else []"
  have "descending example_in4 example_in6 (\<lambda>_. None) ?asks id" by (simp add: descending_def)
  with resolving_returns [of example_in4 example_in6 "\<lambda>_. None" ?asks id "''10.0.0.1''" 1 new_resolver]
  show "\<exists>st'. resolve_reentrant example_in4 example_in6 (\<lambda>_. None) ?asks ''10.0.0.1'' 1 new_resolver = Some st'"
    by blast
next
  obtain addr where "ip_parse example_in4 example_in6 (\<lambda>_. None) ''10.0.0.1'' = Inr addr"
    using example_literal by blast
  with resolving_returns [of example_in4 example_in6 "\<lambda>_. None" "\<lambda>h res. [(''10.0.0.1'', h)]" id
      "''10.0.0.1''" 1 new_resolver]
  show "resolve_reentrant example_in4 example_in6 (\<lambda>_. None) (\<lambda>h res. [(''10.0.0.1'', h)]) ''10.0.0.1'' 1
      new_resolver = None" by blast
qed

end
