(* ===== verification/Poll_Reentry.thy ===== *)
theory Poll_Reentry
  imports Ring_Progress
begin

text \<open>
  Callbacks that poll. \<open>poll_completion_queues\<close> in \<open>src/IOUring.cpp\<close> advances the completion queue after
  the callback has returned, so a poll from inside the callback finds the completion that is being
  handled once more. A callback is a \<open>script\<close> here, programs with polls in between; the calls it
  makes itself go through the same dispatch (\<open>poll_with\<close>), with the stack frames that are left.

  \<^item> \<open>nested_run\<close>, \<open>poll_nested\<close>: a poll whose callbacks may poll, at most \<open>depth\<close> of them at a time.
  \<^item> \<open>at_head\<close>: \<open>io_uring_peek_cqe\<close> does not consume what it shows.
\<close>

section \<open>Scripts\<close>

datatype script =
    Done prog
  | Poll_after prog "io_trace \<Rightarrow> script"

type_synonym script_client = "nat \<Rightarrow> cb_event \<Rightarrow> io_trace \<Rightarrow> script"

primrec run_script ::
  "world \<Rightarrow> (iouring \<Rightarrow> (error_code \<times> iouring) outcome) \<Rightarrow> script \<Rightarrow> iouring \<Rightarrow>
     (receive_post_action \<times> iouring) outcome" where
  "run_script w poll (Done p) r = run_prog w p r"
| "run_script w poll (Poll_after p k) r =
     ebind (run_prog w p r) (\<lambda>(_, r).
     ebind (poll r) (\<lambda>(_, r). run_script w poll (k (m_ring r)) r))"

primrec nested_run :: "world \<Rightarrow> script_client \<Rightarrow> nat \<Rightarrow> runner" where
  "nested_run w client 0 = (\<lambda>f e r. Inl (Undefined_behaviour ''the call stack is exhausted''))"
| "nested_run w client (Suc depth) = (\<lambda>f e r.
     run_script w (poll_with w (nested_run w client depth)) (client f e (m_ring r))
       (r\<lparr>m_ring := Callback f e # m_ring r\<rparr>))"

definition poll_nested ::
  "world \<Rightarrow> script_client \<Rightarrow> nat \<Rightarrow> iouring \<Rightarrow> (error_code \<times> iouring) outcome" where
  "poll_nested w client depth = poll_with w (nested_run w client depth)"

text \<open>Callbacks that do not poll need one frame and are those of the other theories.\<close>

lemma nested_run_flat: "nested_run w (\<lambda>f e tr. Done (client f e tr)) (Suc depth) = client_run w client"
  by (simp add: fun_eq_iff client_run_def)

lemma poll_nested_flat:
  "poll_nested w (\<lambda>f e tr. Done (client f e tr)) (Suc depth) = poll_completion_queues w client"
  unfolding poll_nested_def poll_completion_queues_def nested_run_flat ..

section \<open>The completion being handled\<close>

definition at_head :: "world \<Rightarrow> completion \<Rightarrow> io_trace \<Rightarrow> bool" where
  "at_head w c tr \<longleftrightarrow>
     (\<forall>new. (\<forall>n. Cq_advance n \<notin> set new) \<longrightarrow> w_peek w (Peek_cqe # new @ tr) = (0, c))"

lemma at_headD: "at_head w c tr \<Longrightarrow> w_peek w (Peek_cqe # tr) = (0, c)"
  unfolding at_head_def by (metis append_Nil empty_iff list.set(1))

lemma at_head_append:
  assumes "at_head w c tr" and "\<forall>n. Cq_advance n \<notin> set new"
  shows "at_head w c (new @ tr)"
  unfolding at_head_def
proof (intro allI impI)
  fix xs assume "\<forall>n. Cq_advance n \<notin> set xs"
  then have "\<forall>n. Cq_advance n \<notin> set (xs @ new)" using assms(2) by simp
  then show "w_peek w (Peek_cqe # xs @ new @ tr) = (0, c)"
    using assms(1) unfolding at_head_def by (metis append.assoc)
qed

lemma at_head_client_calls: "at_head w c tr \<Longrightarrow> client_calls tr tr' \<Longrightarrow> at_head w c tr'"
  by (auto simp: client_calls_def client_call_def list_all_iff intro!: at_head_append)

lemma client_calls_advance:
  "client_calls tr tr' \<Longrightarrow> filter ((=) (Cq_advance n)) tr' = filter ((=) (Cq_advance n)) tr"
  by (force simp: client_calls_def client_call_def list_all_iff filter_empty_conv)

text \<open>The request a completion is for: a one-shot request in its slot, with its function.\<close>

abbreviation one_shot_types :: "work_type set" where
  "one_shot_types \<equiv> {Type_CLOSE, Type_CONNECT, Type_SEND_STREAM_DATA, Type_SEND_WORKPACKET}"

definition awaits :: "completion \<Rightarrow> nat \<Rightarrow> work_item \<Rightarrow> iouring \<Rightarrow> bool" where
  "awaits c a wi r \<longleftrightarrow>
     ring_inv r \<and> cqe_user_data c < length (m_work_items (m_pool r)) \<and>
     m_work_items (m_pool r) ! cqe_user_data c = Some a \<and> a < length (wp_heap (m_pool r)) \<and>
     wp_heap (m_pool r) ! a = wi \<and> m_state wi = IN_USE"

definition answerable :: "completion \<Rightarrow> work_item \<Rightarrow> bool" where
  "answerable c wi \<longleftrightarrow>
     m_work_type wi \<in> one_shot_types \<and> cqe_sockaddr c = None \<and> cqe_res c \<noteq> - ENOBUFS \<and>
     (hushed c \<longrightarrow> m_work_type wi = Type_CLOSE)"

lemma awaits_ext:
  assumes "awaits c a wi r" and "ring_inv r'" and "ring_ext A r r'" and "a \<notin> A"
  shows "awaits c a wi r'"
  using assms ring_extD [OF assms(3)] by (auto simp: awaits_def)

lemma awaits_ring: "awaits c a wi r \<Longrightarrow> submitted tr = submitted (m_ring r) \<Longrightarrow> awaits c a wi (r\<lparr>m_ring := tr\<rparr>)"
  by (simp add: awaits_def ring_inv_def entries_ok_def)

lemma awaits_found: "awaits c a wi r \<Longrightarrow> get_work_item (cqe_user_data c) (m_pool r) = Inr (Some a)"
  by (simp add: awaits_def get_work_item_def is_free_def outcome_simps)

text \<open>Handling it: its function is called, and what is left in its slot is released.\<close>

lemma run_callback_Inr: "run_callback run call r = Inr x \<longleftrightarrow> (\<exists>f e. call = Inr (f, e) \<and> run f e r = Inr x)"
  by (auto simp: run_callback_def ebind_eq_Inr)

lemma called_back:
  "call_close_callback run a c r = Inr r' \<Longrightarrow> \<exists>f act. callback_of (item_at a r) = Some f \<and>
     run f (Ev_close \<lparr>close_status = cqe_res c\<rparr>) r = Inr (act, r')"
  "call_connect_callback run a c r = Inr r' \<Longrightarrow> \<not> hushed c \<Longrightarrow>
     \<exists>f act. callback_of (item_at a r) = Some f \<and>
     run f (Ev_connect \<lparr>connect_status = cqe_res c,
       connect_address = stored_address (m_buffer_for_uring (item_at a r))\<rparr>) r = Inr (act, r')"
  using wi_calls(2) [of "cqe_res c" "item_at a r"]
    wi_calls(3) [of "\<lparr>connect_status = cqe_res c,
       connect_address = stored_address (m_buffer_for_uring (item_at a r))\<rparr>" "item_at a r"]
  by (force simp: call_close_callback_def call_connect_callback_def hushed_def ebind_eq_Inr
      run_callback_Inr Let_def split: if_splits)+

lemma call_item_slots:
  "call_item g a r = Inr r' \<Longrightarrow> m_work_items (m_pool r') = m_work_items (m_pool r)"
  by (auto simp: call_item_def on_item_def ebind_eq_Inr split: if_splits)

lemma called_back_send:
  assumes "call_send_callback run a c r = Inr r'" and "\<not> hushed c"
  shows "\<exists>f act r1. callback_of (item_at a r) = Some f \<and> run f (Ev_send \<lparr>send_status = cqe_res c\<rparr>) r = Inr (act, r1) \<and>
    m_work_items (m_pool r') = m_work_items (m_pool r1)"
proof -
  obtain f e act r1 where call: "wi_call_send_callback (cqe_res c) (item_at a r) = Inr (f, e)"
    "run f e r = Inr (act, r1)" "call_item (\<lambda>wi tr. Inr (clean_send_packet wi, tr)) a r1 = Inr r'"
    using assms by (auto simp: call_send_callback_def hushed_def ebind_eq_Inr run_callback_Inr split: if_splits)
  then show ?thesis using wi_calls(1) [OF call(1)] call_item_slots [OF call(3)] by auto
qed

lemma dispatch_one_shot:
  assumes "awaits c a wi r" and "answerable c wi"
    and "call_callback_and_free_work_item_id w run c r = Inr r'"
  shows "\<exists>f act r1 r2. callback_of wi = Some f \<and> run f (one_shot_event wi c) r = Inr (act, r1) \<and>
    free_item (cqe_user_data c) r2 = Inr r' \<and> m_work_items (m_pool r2) = m_work_items (m_pool r1)"
proof -
  have found: "get_work_item (cqe_user_data c) (m_pool r) = Inr (Some a)" "item_at a r = wi"
    using assms(1) awaits_found by (auto simp: awaits_def item_at_def)
  note disp = call_callback_and_free_work_item_id_def found ebind_eq_Inr
  have plain: "cqe_res c \<noteq> - ENOBUFS" "m_work_type wi \<noteq> Type_CLOSE \<Longrightarrow> \<not> hushed c"
    using assms(2) by (auto simp: answerable_def)
  have sent: ?thesis if s: "m_work_type wi \<in> {Type_SEND_STREAM_DATA, Type_SEND_WORKPACKET}"
  proof -
    obtain r2 where r2: "call_send_callback run a c r = Inr r2" "free_item (cqe_user_data c) r2 = Inr r'"
      using assms(3) plain(1) s by (auto simp: disp)
    moreover have "one_shot_event wi c = Ev_send \<lparr>send_status = cqe_res c\<rparr>" "\<not> hushed c"
      using s plain(2) by (auto simp: one_shot_event_def)
    ultimately show ?thesis using called_back_send [of run a c r r2] unfolding found(2) by metis
  qed
  show ?thesis
  proof (cases "m_work_type wi")
    case Type_CLOSE
    then obtain r1 where "call_close_callback run a c r = Inr r1" "free_item (cqe_user_data c) r1 = Inr r'"
      using assms(3) plain(1) by (auto simp: disp)
    then show ?thesis
      using called_back(1) [of run a c r r1] Type_CLOSE unfolding found(2) one_shot_event_def by fastforce
  next
    case Type_CONNECT
    then obtain r1 where "call_connect_callback run a c r = Inr r1" "free_item (cqe_user_data c) r1 = Inr r'"
      using assms(3) plain(1) by (auto simp: disp)
    then show ?thesis
      using called_back(2) [of run a c r r1] Type_CONNECT plain(2) unfolding found(2) one_shot_event_def
      by fastforce
  qed (use assms(2) sent in \<open>simp_all add: answerable_def\<close>)
qed

lemma free_item_slot:
  "free_item i r = Inr r' \<Longrightarrow> i < length (m_work_items (m_pool r)) \<and> m_work_items (m_pool r) ! i \<noteq> None \<and>
     m_work_items (m_pool r') = (m_work_items (m_pool r))[i := None]"
  by (auto simp: free_item_def free_work_item_def ebind_eq_Inr heap_write_def outcome_simps
      split: if_splits option.splits)

section \<open>Polling from a callback\<close>

text \<open>A script that leaves the item of its own request alone and requests nothing after a poll.\<close>

definition waits :: "nat \<Rightarrow> script \<Rightarrow> bool" where
  "waits a s \<longleftrightarrow>
     (case s of
        Done p \<Rightarrow> keeps_off a p
      | Poll_after p k \<Rightarrow> keeps_off a p \<and> (\<forall>tr. \<exists>act. k tr = Done (Return act)))"

lemma called_state:
  assumes "awaits c a wi r" and "at_head w c (m_ring r)" and "keeps_off a p"
    and "run_prog w p (r\<lparr>m_ring := Callback f e # Peek_cqe # m_ring r\<rparr>) = Inr (act, r1)"
  shows "awaits c a wi r1" and "at_head w c (m_ring r1)"
proof -
  let ?r = "r\<lparr>m_ring := Callback f e # Peek_cqe # m_ring r\<rparr>"
  have start: "awaits c a wi ?r" by (rule awaits_ring [OF assms(1)]) simp
  then have "ring_inv ?r" by (simp add: awaits_def)
  note x = run_prog_ext [OF this assms(4)]
  show "awaits c a wi r1"
    using awaits_ext [OF start conjunct1 [OF x] conjunct2 [OF x]] assms(3) by simp
  have "at_head w c ([Callback f e, Peek_cqe] @ m_ring r)" by (rule at_head_append [OF assms(2)]) simp
  then show "at_head w c (m_ring r1)"
    using ring_extD(3) [OF conjunct2 [OF x]] at_head_client_calls by simp
qed

lemma poll_at_head:
  assumes "at_head w c (m_ring r)" and "cqe_sockaddr c = None" and "poll_with w run r = Inr (e, r')"
  shows "\<exists>r1. call_callback_and_free_work_item_id w run c (r\<lparr>m_ring := Peek_cqe # m_ring r\<rparr>) = Inr r1 \<and>
    r' = r1\<lparr>m_ring := Cq_advance 1 # m_ring r1\<rparr>"
  using assms at_headD [OF assms(1)] by (auto simp: poll_with_def kernel_stores_def ebind_eq_Inr Let_def)

lemma nested_poll_returns:
  "awaits c a wi r \<Longrightarrow> answerable c wi \<Longrightarrow> at_head w c (m_ring r) \<Longrightarrow>
     \<forall>f e tr. waits a (client f e tr) \<Longrightarrow> poll_nested w client depth r = Inr (err, r') \<Longrightarrow>
     (\<exists>f p. callback_of wi = Some f \<and> client f (one_shot_event wi c) (Peek_cqe # m_ring r) = Done p) \<and>
     cqe_user_data c < length (m_work_items (m_pool r')) \<and> m_work_items (m_pool r') ! cqe_user_data c = None"
proof (induction depth arbitrary: r r' err)
  case (0 r r' err)
  have "awaits c a wi (r\<lparr>m_ring := Peek_cqe # m_ring r\<rparr>)" by (rule awaits_ring [OF 0(1)]) simp
  from dispatch_one_shot [OF this 0(2)] show ?case
    using poll_at_head [OF 0(3) _ 0(5) [unfolded poll_nested_def]] 0(2)
    by (fastforce simp: answerable_def)
next
  case (Suc depth r r' err)
  let ?i = "cqe_user_data c" and ?r0 = "r\<lparr>m_ring := Peek_cqe # m_ring r\<rparr>" and ?e = "one_shot_event wi c"
  have "awaits c a wi ?r0" by (rule awaits_ring [OF Suc.prems(1)]) simp
  note dispatched = dispatch_one_shot [OF this Suc.prems(2)]
  obtain f act r1 r2 r3 where f: "callback_of wi = Some f"
    and run: "nested_run w client (Suc depth) f ?e ?r0 = Inr (act, r1)"
    and freed: "free_item ?i r2 = Inr r3" and r': "r' = r3\<lparr>m_ring := Cq_advance 1 # m_ring r3\<rparr>"
    and slots: "m_work_items (m_pool r2) = m_work_items (m_pool r1)"
    using poll_at_head [OF Suc.prems(3) _ Suc.prems(5) [unfolded poll_nested_def]] Suc.prems(2) dispatched
    by (fastforce simp: answerable_def simp del: nested_run.simps)
  have w: "waits a (client f ?e (Peek_cqe # m_ring r))" using Suc.prems(4) by blast
  show ?case
  proof (cases "client f ?e (Peek_cqe # m_ring r)")
    case (Done p)
    then show ?thesis using f freed r' free_item_slot [OF freed] by simp
  next
    case (Poll_after p k)
    obtain act1 s where p: "run_prog w p (r\<lparr>m_ring := Callback f ?e # Peek_cqe # m_ring r\<rparr>) = Inr (act1, s)"
      using run by (auto simp: Poll_after ebind_eq_Inr)
    then obtain err2 s2 where "poll_nested w client depth s = Inr (err2, s2)"
      and rest: "run_script w (poll_nested w client depth) (k (m_ring s2)) s2 = Inr (act, r1)"
      using run by (auto simp: Poll_after ebind_eq_Inr poll_nested_def)
    moreover have "keeps_off a p" using w by (simp add: waits_def Poll_after)
    ultimately have "m_work_items (m_pool s2) ! ?i = None"
      using Suc.IH [OF called_state(1) [OF Suc.prems(1,3) _ p] Suc.prems(2)
          called_state(2) [OF Suc.prems(1,3) _ p] Suc.prems(4)] by blast
    moreover obtain act2 where "k (m_ring s2) = Done (Return act2)" using w by (auto simp: waits_def Poll_after)
    then have "s2 = r1" using rest by simp
    ultimately show ?thesis using free_item_slot [OF freed] slots by simp
  qed
qed

section \<open>What the callback requests after its poll\<close>

text \<open>The call, in the other direction: if the function returns, what is left is to release the slot.\<close>

lemma dispatch_forward:
  assumes "awaits c a wi r" and "answerable c wi" and "alternative (m_work_type wi) (m_callback wi)"
    and "callback_of wi = Some f" and "run f (one_shot_event wi c) r = Inr (act, r1)"
    and "ring_inv r1" and "a < length (wp_heap (m_pool r1))"
  shows "\<exists>r2. call_callback_and_free_work_item_id w run c r = free_item (cqe_user_data c) r2 \<and>
    ring_inv r2 \<and> m_work_items (m_pool r2) = m_work_items (m_pool r1) \<and> m_ring r2 = m_ring r1 \<and>
    m_initialized r2 = m_initialized r1 \<and> length (wp_heap (m_pool r2)) = length (wp_heap (m_pool r1))"
proof -
  have found: "get_work_item (cqe_user_data c) (m_pool r) = Inr (Some a)" "item_at a r = wi"
    using assms(1) awaits_found by (auto simp: awaits_def item_at_def)
  have plain: "cqe_res c \<noteq> - ENOBUFS" "m_work_type wi \<noteq> Type_CLOSE \<Longrightarrow> \<not> hushed c"
    using assms(2) by (auto simp: answerable_def)
  note disp = call_callback_and_free_work_item_id_def found plain(1) run_callback_def invoke_def
    one_shot_event_def
  let ?clean = "\<lambda>wi tr. Inr (clean_send_packet wi, tr)"
  let ?r2 = "put_pool r1 (heap_write a (clean_send_packet (item_at a r1)) (m_pool r1), m_ring r1)"
  have clean: "call_item ?clean a r1 = Inr ?r2"
    using assms(7) by (simp add: call_item_def on_item_def item_at_def)
  have "ring_inv ?r2" using call_item_ext [OF ring_member_packet(3) assms(6) clean] by simp
  then have sent: ?thesis
    if "call_callback_and_free_work_item_id w run c r = free_item (cqe_user_data c) ?r2"
    using that by (intro exI [of _ ?r2]) (simp add: heap_write_def)
  have kept: ?thesis if "call_callback_and_free_work_item_id w run c r = free_item (cqe_user_data c) r1"
    using that assms(6) by (intro exI [of _ r1]) simp
  show ?thesis
  proof (cases "m_work_type wi")
    case Type_CLOSE
    then have "m_callback wi = Close_cb (Some f)"
      using assms(3,4) by (cases "m_callback wi") (auto simp: callback_of_def)
    then show ?thesis
      using assms(5) Type_CLOSE
      by (intro kept) (simp add: disp call_close_callback_def wi_call_close_callback_def)
  next
    case Type_CONNECT
    then have "m_callback wi = Connect_cb (Some f)"
      using assms(3,4) by (cases "m_callback wi") (auto simp: callback_of_def)
    then show ?thesis
      using assms(5) Type_CONNECT plain(2)
      by (intro kept) (simp add: disp call_connect_callback_def wi_call_connect_callback_def hushed_def)
  next
    case Type_SEND_STREAM_DATA
    then have "m_callback wi = Send_cb (Some f)"
      using assms(3,4) by (cases "m_callback wi") (auto simp: callback_of_def)
    then show ?thesis
      using assms(5) Type_SEND_STREAM_DATA plain(2) clean
      by (intro sent) (simp add: disp call_send_callback_def wi_call_send_callback_def hushed_def)
  next
    case Type_SEND_WORKPACKET
    then have "m_callback wi = Send_cb (Some f)"
      using assms(3,4) by (cases "m_callback wi") (auto simp: callback_of_def)
    then show ?thesis
      using assms(5) Type_SEND_WORKPACKET plain(2) clean
      by (intro sent) (simp add: disp call_send_callback_def wi_call_send_callback_def hushed_def)
  qed (use assms(2) in \<open>simp_all add: answerable_def\<close>)
qed

text \<open>A poll whose callback returns at once.\<close>

lemma free_occupied:
  assumes "ring_inv r" and "i < length (m_work_items (m_pool r))" and "m_work_items (m_pool r) ! i \<noteq> None"
  shows "\<exists>r'. free_item i r = Inr r' \<and> ring_inv r' \<and> next_id (m_pool r') = i \<and> m_ring r' = m_ring r \<and>
    m_initialized r' = m_initialized r \<and> length (wp_heap (m_pool r')) = length (wp_heap (m_pool r)) \<and>
    m_work_items (m_pool r') = (m_work_items (m_pool r))[i := None]"
proof -
  obtain wi where "pool_abs (m_pool r) i = Some wi" using assms(2,3) by (auto simp: pool_abs_Some)
  from free_progress [OF assms(1) this] obtain r' where r': "free_item i r = Inr r'" "ring_inv r'"
    "m_ring r' = m_ring r" "m_initialized r' = m_initialized r" by blast
  moreover have "length (wp_heap (m_pool r')) = length (wp_heap (m_pool r))"
    using r'(1) by (auto simp: free_item_def free_work_item_def ebind_eq_Inr heap_write_def split: if_splits option.splits)
  ultimately show ?thesis
    using free_item_slot [OF r'(1)] free_item_ext(5) [OF assms(1) r'(1)] by (simp add: next_id_def)
qed

lemma poll_serves:
  assumes "awaits c a wi r" and "answerable c wi" and "alternative (m_work_type wi) (m_callback wi)"
    and "callback_of wi = Some f" and "at_head w c (m_ring r)"
    and "run f (one_shot_event wi c) (r\<lparr>m_ring := Peek_cqe # m_ring r\<rparr>) = Inr (act, r1)"
    and "ring_inv r1" and "a < length (wp_heap (m_pool r1))"
    and "cqe_user_data c < length (m_work_items (m_pool r1))"
    and "m_work_items (m_pool r1) ! cqe_user_data c \<noteq> None"
  shows "\<exists>r'. poll_with w run r = Inr (Error_OK, r') \<and> ring_inv r' \<and> next_id (m_pool r') = cqe_user_data c \<and>
    m_ring r' = Cq_advance 1 # m_ring r1 \<and> m_initialized r' = m_initialized r1 \<and>
    length (wp_heap (m_pool r')) = length (wp_heap (m_pool r1)) \<and>
    m_work_items (m_pool r') = (m_work_items (m_pool r1))[cqe_user_data c := None]"
proof -
  have "awaits c a wi (r\<lparr>m_ring := Peek_cqe # m_ring r\<rparr>)" by (rule awaits_ring [OF assms(1)]) simp
  from dispatch_forward [where run = run and w = w, OF this assms(2-4,6-8)] obtain r2 where
    d: "call_callback_and_free_work_item_id w run c (r\<lparr>m_ring := Peek_cqe # m_ring r\<rparr>) =
      free_item (cqe_user_data c) r2" "ring_inv r2" "m_work_items (m_pool r2) = m_work_items (m_pool r1)"
    "m_ring r2 = m_ring r1" "m_initialized r2 = m_initialized r1"
    "length (wp_heap (m_pool r2)) = length (wp_heap (m_pool r1))" by blast
  then obtain r3 where r3: "free_item (cqe_user_data c) r2 = Inr r3" "ring_inv r3"
    "next_id (m_pool r3) = cqe_user_data c" "m_ring r3 = m_ring r2" "m_initialized r3 = m_initialized r2"
    "length (wp_heap (m_pool r3)) = length (wp_heap (m_pool r2))"
    "m_work_items (m_pool r3) = (m_work_items (m_pool r2))[cqe_user_data c := None]"
    using free_occupied [of r2 "cqe_user_data c"] assms(9,10) by auto
  have "poll_with w run r = Inr (Error_OK, r3\<lparr>m_ring := Cq_advance 1 # m_ring r3\<rparr>)"
    using at_headD [OF assms(5)] assms(2) d(1) r3(1)
    by (simp add: poll_with_def kernel_stores_def answerable_def Let_def)
  then show ?thesis using d r3 by (simp add: ring_inv_def entries_ok_def)
qed

section \<open>Properties\<close>


text \<open>The callback of a close: it always polls, or it polls unless it has been called before.\<close>

abbreviation stuck_world :: world where
  "stuck_world \<equiv> ready_world\<lparr>w_peek := \<lambda>_. (0, plain_completion 0 0)\<rparr>"

abbreviation closing_item :: work_item where
  "closing_item \<equiv> example_item Type_CLOSE (Close_cb (Some 9))"

definition polls_unless_called :: "script \<Rightarrow> script_client" where
  "polls_unless_called s = (\<lambda>f e tr. if callbacks_run tr = [] then s else Done (Return Action_NONE))"

lemma one_item_state:
  "m_pool (one_item_ring wi) = \<lparr>wp_heap = [wi], m_work_items = [Some 0], m_free_ids = []\<rparr>"
  "m_initialized (one_item_ring wi)" "m_ring (one_item_ring wi) = []"
  by (simp_all add: one_item_ring_def example_ring_def new_iouring_def)

lemma stuck_example:
  "awaits (plain_completion 0 0) 0 closing_item (one_item_ring closing_item)"
  "answerable (plain_completion 0 0) closing_item" "callback_of closing_item = Some 9"
  "alternative (m_work_type closing_item) (m_callback closing_item)"
  "at_head stuck_world (plain_completion 0 0) tr" "granting stuck_world"
  "m_initialized (one_item_ring closing_item)" "callbacks_run (m_ring (one_item_ring closing_item)) = []"
  by (simp_all add: awaits_def answerable_def hushed_def callback_of_def at_head_def granting_def
      plain_completion_def one_item_state)


text \<open>
  C21. A request made after such a poll is lost. If the callback polls, the call from inside only returns,
  and then the callback asks for a close, the id it gets is the one the inner call has just released.
  The outer call releases it once more: the entry of the new request is submitted under an id whose
  slot is empty, so its completion will be dropped and its callback never runs. One completion has
  called the callback twice and advanced the completion queue by two.
\<close>

theorem request_after_poll_is_lost:
  assumes "awaits c a wi r" and "answerable c wi" and "alternative (m_work_type wi) (m_callback wi)"
    and "callback_of wi = Some f" and "at_head w c (m_ring r)" and "m_initialized r" and "granting w"
    and "client f (one_shot_event wi c) (Peek_cqe # m_ring r) =
      Poll_after (Return act) (\<lambda>_. Done (Submit_close s cb (Return Action_NONE)))"
    and "client f (one_shot_event wi c) (Peek_cqe # Callback f (one_shot_event wi c) # Peek_cqe # m_ring r) =
      Done (Return act')"
  shows "\<exists>r' e. poll_nested w client (Suc (Suc depth)) r = Inr (Error_OK, r') \<and>
    submitted (m_ring r') = e # submitted (m_ring r) \<and> sqe_operation e = Prep_close (get_fd s) \<and>
    sqe_user_data e = cqe_user_data c \<and> get_work_item (sqe_user_data e) (m_pool r') = Inr None \<and>
    callbacks_run (m_ring r') =
      [(f, one_shot_event wi c), (f, one_shot_event wi c)] @ callbacks_run (m_ring r) \<and>
    length (filter ((=) (Cq_advance 1)) (m_ring r')) = length (filter ((=) (Cq_advance 1)) (m_ring r)) + 2"
proof -
  let ?i = "cqe_user_data c" and ?e = "one_shot_event wi c"
  let ?r1 = "r\<lparr>m_ring := [Callback f ?e, Peek_cqe] @ m_ring r\<rparr>"
  let ?r2 = "r\<lparr>m_ring := [Callback f ?e, Peek_cqe, Callback f ?e, Peek_cqe] @ m_ring r\<rparr>"
  have a: "awaits c a wi ?r1" "awaits c a wi ?r2" by (rule awaits_ring [OF assms(1)], simp)+
  have head: "at_head w c (m_ring ?r1)"
    using at_head_append [OF assms(5), of "[Callback f ?e, Peek_cqe]"] by simp
  obtain r3 where r3: "poll_nested w client (Suc depth) ?r1 = Inr (Error_OK, r3)" "ring_inv r3"
    "next_id (m_pool r3) = ?i" "m_ring r3 = Cq_advance 1 # m_ring ?r2" "m_initialized r3"
    "length (wp_heap (m_pool r3)) = length (wp_heap (m_pool r))"
    using poll_serves [OF a(1) assms(2-4) head, of "nested_run w client (Suc depth)" act' ?r2] a(2)
      assms(6,9) by (auto simp: poll_nested_def awaits_def)
  obtain r4 e v where r4: "adds w (Submit_close s cb (Return Action_NONE)) r3 r4 e v"
    and e: "sqe_operation e = Prep_close (get_fd s)"
    using close_adds [OF r3(2,5) assms(7)] by blast
  note x = run_prog_ext [OF r3(2), of w "Submit_close s cb (Return Action_NONE)" Action_NONE r4]
  have run: "run_prog w (Submit_close s cb (Return Action_NONE)) r3 = Inr (Action_NONE, r4)"
    and id: "sqe_user_data e = ?i" and sub: "submitted (m_ring r4) = e # submitted (m_ring r3)"
    and live: "pool_abs (m_pool r4) ?i = Some v"
    using r4 r3(3) by (auto simp: adds_def)
  note ext = x [OF run]
  have outer: "nested_run w client (Suc (Suc depth)) f ?e (r\<lparr>m_ring := Peek_cqe # m_ring r\<rparr>) =
      Inr (Action_NONE, r4)"
    using assms(8) r3(1) run by (simp add: poll_nested_def)
  have r4_ok: "ring_inv r4" "a < length (wp_heap (m_pool r4))" "?i < length (m_work_items (m_pool r4))"
    "m_work_items (m_pool r4) ! ?i \<noteq> None"
    using ext ring_extD(5) [OF conjunct2 [OF ext]] r3(6) assms(1) live by (auto simp: awaits_def pool_abs_Some)
  obtain r5 where r5: "poll_with w (nested_run w client (Suc (Suc depth))) r = Inr (Error_OK, r5)"
    "m_ring r5 = Cq_advance 1 # m_ring r4" "m_work_items (m_pool r5) = (m_work_items (m_pool r4))[?i := None]"
    using poll_serves [where run = "nested_run w client (Suc (Suc depth))", OF assms(1-5) outer r4_ok]
    by blast
  have "callbacks_run (m_ring r4) = callbacks_run (m_ring r3)"
    "filter ((=) (Cq_advance 1)) (m_ring r4) = filter ((=) (Cq_advance 1)) (m_ring r3)"
    using client_calls_keep(1) client_calls_advance ring_extD(3) [OF conjunct2 [OF ext]] by blast+
  moreover have "get_work_item ?i (m_pool r5) = Inr None"
    using r5(3) r4_ok(3) by (simp add: get_work_item_def)
  ultimately show ?thesis
    using r5 r3(4) sub e id by (intro exI [of _ r5] exI [of _ e]) (simp add: poll_nested_def)
qed

theorem request_after_poll_is_lost_witness:
  "\<exists>r' e. poll_nested stuck_world
      (polls_unless_called (Poll_after (Return Action_NONE)
        (\<lambda>_. Done (Submit_close example_socket (Some 7) (Return Action_NONE))))) 2
      (one_item_ring closing_item) = Inr (Error_OK, r') \<and>
    submitted (m_ring r') = e # submitted (m_ring (one_item_ring closing_item)) \<and>
    get_work_item (sqe_user_data e) (m_pool r') = Inr None"
proof -
  let ?client = "polls_unless_called (Poll_after (Return Action_NONE)
      (\<lambda>_. Done (Submit_close example_socket (Some 7) (Return Action_NONE))))"
  have script: "?client 9 ev (Peek_cqe # m_ring (one_item_ring closing_item)) = Poll_after (Return Action_NONE)
      (\<lambda>_. Done (Submit_close example_socket (Some 7) (Return Action_NONE)))"
    "?client 9 ev (Peek_cqe # Callback 9 ev # Peek_cqe # m_ring (one_item_ring closing_item)) =
      Done (Return Action_NONE)" for ev
    using stuck_example(8) by (simp_all add: polls_unless_called_def)
  show ?thesis
    using request_after_poll_is_lost [where client = ?client and depth = 0, OF stuck_example(1,2,4,3,5,7,6) script]
    by (auto simp: numeral_2_eq_2)
qed

end
