(* ===== verification/Mac_Address.thy ===== *)
theory Mac_Address
  imports Linux_Abi
begin

text \<open>
  \<open>include/iuring/MacAddress.hpp\<close> and the \<open>MacAddress\<close> members of \<open>src/IPAddress.cpp\<close>: six
  bytes, printed as two lower-case hexadecimal digits each with a separator, and read with
  \<open>sscanf\<close>. The reader models the conversions the format uses: each \<open>%02hhx\<close> skips white
  space, takes an optional sign and at most two characters, each \<open>:\<close> must match, and the scan
  stops at the first mismatch with the bytes read so far stored and the rest left 0.

  \<^item> \<open>scan_hex2_format\<close>: one printed byte is one conversion, the step of the round trip.
\<close>

section \<open>Hexadecimal digits\<close>

definition hex_char :: "nat \<Rightarrow> char" where
  "hex_char n = (if n < 10 then char_of (48 + n) else char_of (87 + n))"

definition hex_val :: "char \<Rightarrow> nat option" where
  "hex_val c =
     (let n = of_char c in
      if 48 \<le> n \<and> n \<le> 57 then Some (n - 48)
      else if 97 \<le> n \<and> n \<le> 102 then Some (n - 87)
      else if 65 \<le> n \<and> n \<le> 70 then Some (n - 55)
      else None)"

definition is_space :: "char \<Rightarrow> bool" where
  "is_space c \<longleftrightarrow> of_char c = (32 :: nat) \<or> (9 \<le> (of_char c :: nat) \<and> (of_char c :: nat) \<le> 13)"

lemma hex_val_hex_char [simp]: "n < 16 \<Longrightarrow> hex_val (hex_char n) = Some n"
  by (auto simp: hex_val_def hex_char_def of_char_of Let_def)

lemma hex_char_plain [simp]:
  "n < 16 \<Longrightarrow> \<not> is_space (hex_char n)"
  "n < 16 \<Longrightarrow> hex_char n \<noteq> CHR ''+''"
  "n < 16 \<Longrightarrow> hex_char n \<noteq> CHR ''-''"
  "n < 16 \<Longrightarrow> hex_char n \<noteq> CHR 0x00"
proof -
  assume n: "n < 16"
  then have v: "(of_char (hex_char n) :: nat) = (if n < 10 then 48 + n else 87 + n)"
    by (simp add: hex_char_def of_char_of)
  then show "\<not> is_space (hex_char n)" using n by (auto simp: is_space_def)
  have "hex_char n \<noteq> c" if "(of_char c :: nat) \<notin> {48..57} \<union> {97..102}" for c
    using v n that by (auto split: if_splits)
  then show "hex_char n \<noteq> CHR ''+''" "hex_char n \<noteq> CHR ''-''" "hex_char n \<noteq> CHR 0x00"
    by simp_all
qed

section \<open>The address\<close>

record mac_address =
  mac_bytes :: bytes

definition mac_wf :: "mac_address \<Rightarrow> bool" where
  "mac_wf m \<longleftrightarrow> length (mac_bytes m) = 6"

definition mac_of_bytes :: "u8 \<Rightarrow> u8 \<Rightarrow> u8 \<Rightarrow> u8 \<Rightarrow> u8 \<Rightarrow> u8 \<Rightarrow> mac_address" where
  "mac_of_bytes b0 b1 b2 b3 b4 b5 = \<lparr>mac_bytes = [b0, b1, b2, b3, b4, b5]\<rparr>"

definition mac_to_bytes :: "mac_address \<Rightarrow> bytes" where
  "mac_to_bytes m = mac_bytes m"

definition format_02x :: "u8 \<Rightarrow> string" where
  "format_02x b = [hex_char (unat b div 16), hex_char (unat b mod 16)]"

primrec join_hex :: "char \<Rightarrow> bytes \<Rightarrow> string" where
  "join_hex sep [] = []"
| "join_hex sep (b # bs) = format_02x b @ (if bs = [] then [] else sep # join_hex sep bs)"

definition mac_to_string :: "char \<Rightarrow> mac_address \<Rightarrow> string" where
  "mac_to_string sep m = join_hex sep (mac_bytes m)"

text \<open>
  One \<open>%02hhx\<close>: the value of one or two digits, one if a sign took a character of the width.
\<close>

definition scan_hex2 :: "string \<Rightarrow> (u8 \<times> string) option" where
  "scan_hex2 s =
     (case dropWhile is_space s of
        [] \<Rightarrow> None
      | c # cs \<Rightarrow>
          if c = CHR ''+'' \<or> c = CHR ''-'' then
            (case cs of
               [] \<Rightarrow> None
             | d # ds \<Rightarrow>
                 (case hex_val d of
                    None \<Rightarrow> None
                  | Some v \<Rightarrow>
                      Some (if c = CHR ''-'' then - word_of_nat v else word_of_nat v, ds)))
          else
            (case hex_val c of
               None \<Rightarrow> None
             | Some v \<Rightarrow>
                 (case cs of
                    [] \<Rightarrow> Some (word_of_nat v, [])
                  | d # ds \<Rightarrow>
                      (case hex_val d of
                         None \<Rightarrow> Some (word_of_nat v, d # ds)
                       | Some w \<Rightarrow> Some (word_of_nat (16 * v + w), ds)))))"

fun scan_fields :: "nat \<Rightarrow> string \<Rightarrow> bytes" where
  "scan_fields 0 s = []"
| "scan_fields (Suc k) s =
     (case scan_hex2 s of
        None \<Rightarrow> []
      | Some (b, r) \<Rightarrow>
          b # (case r of
                 [] \<Rightarrow> []
               | c # r' \<Rightarrow> if k \<noteq> 0 \<and> c = CHR '':'' then scan_fields k r' else []))"

definition mac_of_string :: "string \<Rightarrow> mac_address" where
  "mac_of_string mac =
     (let got = scan_fields 6 (c_str mac)
      in \<lparr>mac_bytes = got @ replicate (6 - length got) 0\<rparr>)"

section \<open>Lemmas\<close>

lemma length_scan_fields: "length (scan_fields k s) \<le> k"
  by (induction k s rule: scan_fields.induct) (auto split: option.splits list.splits)

lemma mac_of_string_wf: "mac_wf (mac_of_string s)"
  using length_scan_fields [of 6 "c_str s"] by (simp add: mac_of_string_def mac_wf_def Let_def)

lemma byte_digits: "16 * (unat (b :: u8) div 16) + unat b mod 16 = unat b"
  by simp

lemma unat_byte_div_16 [simp]: "unat (b :: u8) div 16 < 16"
  using unat_u8_less [of b] by linarith

lemma scan_hex2_format [simp]: "scan_hex2 (format_02x b @ rest) = Some (b, rest)"
  by (simp add: scan_hex2_def format_02x_def)

lemma scan_fields_join:
  "bs \<noteq> [] \<Longrightarrow> scan_fields (length bs) (join_hex CHR '':'' bs) = bs"
proof (induction bs)
  case Nil
  then show ?case by simp
next
  case (Cons b bs)
  show ?case
  proof (cases "bs = []")
    case True
    then show ?thesis using scan_hex2_format [of b "[]"] by simp
  next
    case False
    with Cons.IH show ?thesis by simp
  qed
qed

lemma join_hex_no_nul: "CHR 0x00 \<notin> set (join_hex CHR '':'' bs)"
  by (induction bs) (auto simp: format_02x_def dest: sym)

lemma mac_text_no_nul: "CHR 0x00 \<notin> set (mac_to_string CHR '':'' m)"
  by (simp add: mac_to_string_def join_hex_no_nul)

lemma length_join_hex: "length (join_hex sep bs) \<le> 3 * length bs"
  by (induction bs) (auto simp: format_02x_def)

text \<open>
  What \<open>to_string\<close> prints with the default separator is read back to the same six bytes, and
  reading any text at all yields six bytes.
\<close>

lemma mac_round_trip:
  assumes "mac_wf m"
  shows "mac_of_string (mac_to_string CHR '':'' m) = m \<and> mac_wf (mac_of_string s)"
proof -
  have len: "length (mac_bytes m) = 6" and "mac_bytes m \<noteq> []"
    using assms by (auto simp: mac_wf_def)
  then have "scan_fields 6 (join_hex CHR '':'' (mac_bytes m)) = mac_bytes m"
    using scan_fields_join [of "mac_bytes m"] by simp
  moreover have "c_str (join_hex CHR '':'' (mac_bytes m)) = join_hex CHR '':'' (mac_bytes m)"
    using join_hex_no_nul [of "mac_bytes m"]
    by (auto simp: c_str_def takeWhile_eq_all_conv)
  ultimately show ?thesis
    using len mac_of_string_wf by (simp add: mac_of_string_def mac_to_string_def Let_def)
qed

end
