(* ===== verification/Net_Adapter.thy ===== *)
theory Net_Adapter
  imports Mac_Address Ip_Address
begin

text \<open>
  \<open>include/iuring/NetworkAdapter.hpp\<close> and \<open>src/IOUringInterface.cpp\<close>: the network interface the
  program works on, its addresses and its tuning. What \<open>getifaddrs\<close>, \<open>gethostname\<close>, \<open>fread\<close> and
  the \<open>ethtool\<close> commands answer are arguments, as is \<open>StringUtils::trim\<close> of the logging library.
  The loop that waits for an address may run for ever, so it is a partial function: \<open>None\<close> is the
  wait that never ends.

  \<^item> \<open>ipv4_here\<close>, \<open>ipv6_here\<close>: the addresses one answer of \<open>getifaddrs\<close> has for the interface.
\<close>

section \<open>State\<close>

record net_adapter =
  m_hostname :: string
  m_interface_ip4 :: "ip_address option"
  m_interface_ip6 :: "ip_address option"
  m_interface_name :: string
  m_tune :: bool
  mac_opt :: "mac_address option"

definition new_adapter :: "string \<Rightarrow> bool \<Rightarrow> net_adapter" where
  "new_adapter interface_name tune =
     \<lparr>m_hostname = '''', m_interface_ip4 = None, m_interface_ip6 = None,
      m_interface_name = interface_name, m_tune = tune, mac_opt = None\<rparr>"

definition set_interface_ip4 :: "ip_address \<Rightarrow> net_adapter \<Rightarrow> net_adapter" where
  "set_interface_ip4 ip a = a\<lparr>m_interface_ip4 := Some ip\<rparr>"

definition set_interface_ip6 :: "ip_address \<Rightarrow> net_adapter \<Rightarrow> net_adapter" where
  "set_interface_ip6 ip a = a\<lparr>m_interface_ip6 := Some ip\<rparr>"

definition get_hostname :: "net_adapter \<Rightarrow> string" where
  "get_hostname a = m_hostname a"

definition get_interface_name :: "net_adapter \<Rightarrow> string" where
  "get_interface_name a = m_interface_name a"

definition get_interface_ip4 :: "net_adapter \<Rightarrow> ip_address option" where
  "get_interface_ip4 a = m_interface_ip4 a"

definition get_interface_ip6 :: "net_adapter \<Rightarrow> ip_address option" where
  "get_interface_ip6 a = m_interface_ip6 a"

lemma adapter_getters [simp]:
  "get_hostname a = m_hostname a" "get_interface_name a = m_interface_name a"
  "get_interface_ip4 a = m_interface_ip4 a" "get_interface_ip6 a = m_interface_ip6 a"
  by (simp_all add: get_hostname_def get_interface_name_def get_interface_ip4_def
      get_interface_ip6_def)

section \<open>Interface addresses\<close>

text \<open>One entry of \<open>getifaddrs\<close>: its name and, unless null, the family and bytes of its address.\<close>

record ifaddrs =
  ifa_name :: string
  ifa_addr :: "(u16 \<times> bytes) option"

text \<open>The body of the loop: the new value of \<open>success\<close> and the adapter.\<close>

definition interface_entry :: "ifaddrs \<Rightarrow> bool \<times> net_adapter \<Rightarrow> bool \<times> net_adapter" where
  "interface_entry ifa st =
     (case ifa_addr ifa of
        None \<Rightarrow> st
      | Some (family, addr) \<Rightarrow>
          if ifa_name ifa = ''lo'' then st
          else if ifa_name ifa \<noteq> get_interface_name (snd st) then st
          else if family = AF_INET
          then (True, set_interface_ip4 (ip_of_sockaddr_in (sockaddr_in_of_bytes addr)) (snd st))
          else if family = AF_INET6
          then (fst st, set_interface_ip6 (ip_of_sockaddr_in6 (sockaddr_in6_of_bytes addr)) (snd st))
          else st)"

definition try_get_interface_ip ::
  "ifaddrs list option \<Rightarrow> net_adapter \<Rightarrow> (bool \<times> net_adapter) outcome" where
  "try_get_interface_ip getifaddrs a =
     ebind (assert_that ''get_interface_name() != \"\"'' (get_interface_name a \<noteq> '''')) (\<lambda>_.
       case getifaddrs of
         None \<Rightarrow> Inl (Abort_call ''getifaddrs'')
       | Some ifaddr \<Rightarrow> Inr (fold interface_entry ifaddr (False, a)))"

text \<open>
  The wait: round \<open>n\<close> gets the \<open>n\<close>-th answer of \<open>getifaddrs\<close>; the sleep of a second between
  rounds changes nothing.
\<close>

partial_function (option) retrieve_interface_ip ::
  "(nat \<Rightarrow> ifaddrs list option) \<Rightarrow> nat \<Rightarrow> net_adapter \<Rightarrow> net_adapter outcome option" where
  "retrieve_interface_ip answers n a =
     (if get_interface_ip4 a \<noteq> None then Some (Inr a)
      else (case try_get_interface_ip (answers n) a of
              Inl e \<Rightarrow> Some (Inl e)
            | Inr r \<Rightarrow> retrieve_interface_ip answers (Suc n) (snd r)))"

section \<open>Tuning and start\<close>

datatype run_opt = ABORT_ON_ERROR | LOG_ERROR_AS_WARNING

definition tune :: "(string \<Rightarrow> run_opt \<Rightarrow> unit outcome) \<Rightarrow> net_adapter \<Rightarrow> unit outcome" where
  "tune run_cmd a =
     (if \<not> m_tune a then Inr ()
      else
        ebind (run_cmd (''ethtool -C '' @ m_interface_name a @ '' tx-usecs 1'') LOG_ERROR_AS_WARNING) (\<lambda>_.
        ebind (run_cmd (''ethtool -C '' @ m_interface_name a @ '' rx-usecs 1'') ABORT_ON_ERROR) (\<lambda>_.
        ebind (run_cmd (''ethtool -C '' @ m_interface_name a @ '' rx-frames 1'') ABORT_ON_ERROR) (\<lambda>_.
        run_cmd (''ethtool -C '' @ m_interface_name a @ '' tx-frames 1'') ABORT_ON_ERROR))))"

text \<open>\<open>init\<close>: \<open>gethostname\<close> answers the contents of the buffer, or \<open>None\<close> for an error.\<close>

definition adapter_init ::
  "(nat \<Rightarrow> ifaddrs list option) \<Rightarrow> (string \<Rightarrow> run_opt \<Rightarrow> unit outcome) \<Rightarrow> string option \<Rightarrow>
   net_adapter \<Rightarrow> net_adapter outcome option" where
  "adapter_init answers run_cmd gethostname a =
     (case retrieve_interface_ip answers 0 a of
        None \<Rightarrow> None
      | Some r \<Rightarrow> Some (ebind r (\<lambda>a'.
          ebind (tune run_cmd a') (\<lambda>_.
            case gethostname of
              None \<Rightarrow> Inl (Abort_call ''gethostname() failed'')
            | Some hostname \<Rightarrow> Inr (a'\<lparr>m_hostname := c_str hostname\<rparr>)))))"

section \<open>The MAC address\<close>

text \<open>
  The file under \<open>/sys/class/net\<close> is \<open>None\<close> when it does not open, otherwise the answers of the
  ten calls to \<open>fread\<close>, each at most the 128 bytes of the buffer; the rest of the buffer is 0.
\<close>

definition mac_file_name :: "net_adapter \<Rightarrow> string" where
  "mac_file_name a = ''/sys/class/net/'' @ get_interface_name a @ ''/address''"

primrec read_some :: "nat \<Rightarrow> (nat \<Rightarrow> string) \<Rightarrow> nat \<Rightarrow> string" where
  "read_some 0 fread i = ''''"
| "read_some (Suc k) fread i =
     (if take 128 (fread i) \<noteq> '''' then take 128 (fread i) else read_some k fread (Suc i))"

definition get_my_mac_address ::
  "(string \<Rightarrow> string) \<Rightarrow> (string \<Rightarrow> (nat \<Rightarrow> string) option) \<Rightarrow> net_adapter \<Rightarrow>
   (mac_address option \<times> net_adapter) outcome" where
  "get_my_mac_address trim fopen a =
     (case mac_opt a of
        Some m \<Rightarrow> Inr (Some m, a)
      | None \<Rightarrow>
          (case fopen (mac_file_name a) of
             None \<Rightarrow> Inl (Abort_call ''failed to open'')
           | Some fread \<Rightarrow>
               let got = read_some 10 fread 0;
                   buffer = got @ replicate (128 - length got) (CHR 0x00)
               in ebind (assert_that ''num_bytes_read > 0'' (length got > 0)) (\<lambda>_.
                    if CHR 0x00 \<notin> set buffer then Inl (Undefined_behaviour ''buffer without a NUL'')
                    else let m = mac_of_string (trim (c_str buffer))
                         in Inr (Some m, a\<lparr>mac_opt := Some m\<rparr>))))"

section \<open>Lemmas\<close>

definition here :: "u16 \<Rightarrow> string \<Rightarrow> ifaddrs list \<Rightarrow> bytes list" where
  "here family name ifs =
     List.map_filter (\<lambda>ifa. case ifa_addr ifa of
         None \<Rightarrow> None
       | Some fa \<Rightarrow> if ifa_name ifa = name \<and> name \<noteq> ''lo'' \<and> fst fa = family
                   then Some (snd fa) else None) ifs"

abbreviation ipv4_here :: "string \<Rightarrow> ifaddrs list \<Rightarrow> bytes list" where
  "ipv4_here \<equiv> here AF_INET"

abbreviation ipv6_here :: "string \<Rightarrow> ifaddrs list \<Rightarrow> bytes list" where
  "ipv6_here \<equiv> here AF_INET6"

definition latest :: "(bytes \<Rightarrow> ip_address) \<Rightarrow> bytes list \<Rightarrow> ip_address option \<Rightarrow> ip_address option" where
  "latest f found old = (if found = [] then old else Some (f (last found)))"

lemma here_Cons: "here fam name (ifa # ifs) = here fam name [ifa] @ here fam name ifs"
  by (simp add: here_def List.map_filter_simps split: option.splits)

lemma latest_append: "latest f (xs @ ys) old = latest f ys (latest f xs old)"
  by (simp add: latest_def)

lemma here_one:
  "here fam name [ifa] =
     (case ifa_addr ifa of
        None \<Rightarrow> []
      | Some fa \<Rightarrow> if ifa_name ifa = name \<and> name \<noteq> ''lo'' \<and> fst fa = fam then [snd fa] else [])"
  by (cases "ifa_addr ifa") (simp_all add: here_def List.map_filter_simps)

lemma here_lo: "here fam ''lo'' ifs = []"
  by (induction ifs) (simp_all add: here_Cons [of _ _ _ "_ # _"] here_one here_Cons here_def
      List.map_filter_simps split: option.splits)

text \<open>The state of the loop after a list of entries.\<close>

definition entries_seen :: "ifaddrs list \<Rightarrow> bool \<times> net_adapter \<Rightarrow> bool \<times> net_adapter" where
  "entries_seen ifs st =
     (fst st \<or> ipv4_here (m_interface_name (snd st)) ifs \<noteq> [],
      (snd st)\<lparr>m_interface_ip4 := latest (\<lambda>b. ip_of_sockaddr_in (sockaddr_in_of_bytes b))
            (ipv4_here (m_interface_name (snd st)) ifs) (m_interface_ip4 (snd st)),
        m_interface_ip6 := latest (\<lambda>b. ip_of_sockaddr_in6 (sockaddr_in6_of_bytes b))
            (ipv6_here (m_interface_name (snd st)) ifs) (m_interface_ip6 (snd st))\<rparr>)"

lemma entries_seen_one: "interface_entry ifa st = entries_seen [ifa] st"
proof (cases "ifa_addr ifa")
  case None
  then show ?thesis
    by (cases st; cases "snd st")
      (simp add: interface_entry_def entries_seen_def here_one latest_def)
next
  case (Some fa)
  show ?thesis
  proof (cases "ifa_name ifa = m_interface_name (snd st) \<and> ifa_name ifa \<noteq> ''lo''")
    case True
    then show ?thesis
      using Some
      by (cases fa; cases st; cases "snd st"; cases "fst fa = AF_INET"; cases "fst fa = AF_INET6")
        (simp_all add: interface_entry_def entries_seen_def here_one latest_def
          set_interface_ip4_def set_interface_ip6_def)
  next
    case False
    then show ?thesis
      using Some
      by (cases fa; cases st; cases "snd st")
        (simp add: interface_entry_def entries_seen_def here_one latest_def)
  qed
qed

lemma entries_seen_Cons: "entries_seen (ifa # ifs) st = entries_seen ifs (entries_seen [ifa] st)"
  unfolding entries_seen_def here_Cons [of _ _ ifa ifs] by (simp add: latest_append)

lemma fold_interface_entry: "fold interface_entry ifs st = entries_seen ifs st"
proof (induction ifs arbitrary: st)
  case Nil
  then show ?case
    by (cases st; cases "snd st") (simp add: entries_seen_def here_def latest_def List.map_filter_simps)
next
  case (Cons ifa ifs)
  then show ?case by (simp add: entries_seen_one entries_seen_Cons [of ifa ifs])
qed

lemma try_get_interface_ip_eq:
  "m_interface_name a \<noteq> '''' \<Longrightarrow>
     try_get_interface_ip (Some ifs) a = Inr (entries_seen ifs (False, a))"
  by (simp add: try_get_interface_ip_def fold_interface_entry)

text \<open>One round of the wait, and rounds that find nothing.\<close>

lemma retrieve_step:
  assumes "m_interface_ip4 a = None" and "m_interface_name a \<noteq> ''''"
  shows "retrieve_interface_ip (\<lambda>i. Some (ifs i)) n a =
           retrieve_interface_ip (\<lambda>i. Some (ifs i)) (Suc n) (snd (entries_seen (ifs n) (False, a)))"
  using assms
  by (subst retrieve_interface_ip.simps) (simp add: try_get_interface_ip_eq)

lemma retrieve_done:
  "m_interface_ip4 a \<noteq> None \<Longrightarrow> retrieve_interface_ip answers n a = Some (Inr a)"
  by (subst retrieve_interface_ip.simps) simp

lemma entries_seen_fields:
  "m_interface_name (snd (entries_seen ifs st)) = m_interface_name (snd st)"
  "m_interface_ip4 (snd (entries_seen ifs st)) =
     latest (\<lambda>b. ip_of_sockaddr_in (sockaddr_in_of_bytes b))
       (ipv4_here (m_interface_name (snd st)) ifs) (m_interface_ip4 (snd st))"
  by (simp_all add: entries_seen_def)

lemma retrieve_finds:
  assumes "m_interface_ip4 a = None" and "m_interface_name a \<noteq> ''''"
    and "ipv4_here (m_interface_name a) (ifs (n + d)) \<noteq> []"
    and "\<forall>k < d. ipv4_here (m_interface_name a) (ifs (n + k)) = []"
  shows "\<exists>a'. retrieve_interface_ip (\<lambda>i. Some (ifs i)) n a = Some (Inr a') \<and>
           m_interface_name a' = m_interface_name a \<and>
           m_interface_ip4 a' = Some (ip_of_sockaddr_in (sockaddr_in_of_bytes
             (last (ipv4_here (m_interface_name a) (ifs (n + d))))))"
  using assms
proof (induction d arbitrary: n a)
  case 0
  let ?a = "snd (entries_seen (ifs n) (False, a))"
  have "m_interface_ip4 ?a =
      Some (ip_of_sockaddr_in (sockaddr_in_of_bytes (last (ipv4_here (m_interface_name a) (ifs n)))))"
    using 0 by (simp add: entries_seen_fields latest_def)
  then show ?case
    using retrieve_step [OF 0(1,2), of ifs n] retrieve_done [of ?a]
    by (simp add: entries_seen_fields)
next
  case (Suc d)
  let ?a = "snd (entries_seen (ifs n) (False, a))"
  have "ipv4_here (m_interface_name a) (ifs n) = []"
    using Suc.prems(4) by (metis Nat.add_0_right zero_less_Suc)
  then have "m_interface_ip4 ?a = None" and name: "m_interface_name ?a = m_interface_name a"
    using Suc.prems(1) by (simp_all add: entries_seen_fields latest_def)
  moreover have "\<forall>k < d. ipv4_here (m_interface_name a) (ifs (Suc n + k)) = []"
    using Suc.prems(4) by (metis Suc_less_eq add_Suc_shift)
  ultimately show ?case
    using Suc.IH [of ?a "Suc n"] Suc.prems(2,3) retrieve_step [OF Suc.prems(1,2), of ifs n] by simp
qed

lemma retrieve_waits:
  assumes "retrieve_interface_ip answers n a = Some r"
  shows "answers = (\<lambda>i. Some (ifs i)) \<longrightarrow> m_interface_ip4 a = None \<longrightarrow> m_interface_name a = name \<longrightarrow>
     name \<noteq> '''' \<longrightarrow> (\<exists>k. ipv4_here name (ifs k) \<noteq> [])"
proof (rule retrieve_interface_ip.raw_induct [OF _ assms])
  fix f answers n a r
  assume IH: "\<And>answers n a r. f answers n a = Some r \<Longrightarrow>
      answers = (\<lambda>i. Some (ifs i)) \<longrightarrow> m_interface_ip4 a = None \<longrightarrow> m_interface_name a = name \<longrightarrow>
        name \<noteq> '''' \<longrightarrow> (\<exists>k. ipv4_here name (ifs k) \<noteq> [])"
    and body: "(if get_interface_ip4 a \<noteq> None then Some (Inr a)
      else (case try_get_interface_ip (answers n) a of
              Inl e \<Rightarrow> Some (Inl e)
            | Inr r \<Rightarrow> f answers (Suc n) (snd r))) = Some r"
  show "answers = (\<lambda>i. Some (ifs i)) \<longrightarrow> m_interface_ip4 a = None \<longrightarrow> m_interface_name a = name \<longrightarrow>
        name \<noteq> '''' \<longrightarrow> (\<exists>k. ipv4_here name (ifs k) \<noteq> [])"
  proof (intro impI)
    assume a: "answers = (\<lambda>i. Some (ifs i))" "m_interface_ip4 a = None"
      "m_interface_name a = name" "name \<noteq> ''''"
    let ?a = "snd (entries_seen (ifs n) (False, a))"
    have next_round: "f answers (Suc n) ?a = Some r"
      using body a by (simp add: try_get_interface_ip_eq)
    show "\<exists>k. ipv4_here name (ifs k) \<noteq> []"
    proof (cases "ipv4_here name (ifs n) = []")
      case True
      then have "m_interface_ip4 ?a = None" "m_interface_name ?a = name"
        using a by (simp_all add: entries_seen_fields latest_def)
      then show ?thesis using IH [OF next_round] a by simp
    qed auto
  qed
qed

lemma read_some_first:
  "i < k \<Longrightarrow> \<forall>j < i. fread (n + j) = '''' \<Longrightarrow> take 128 (fread (n + i)) \<noteq> '''' \<Longrightarrow>
     read_some k fread n = take 128 (fread (n + i))"
proof (induction k arbitrary: i n)
  case 0
  then show ?case by simp
next
  case (Suc k)
  show ?case
  proof (cases i)
    case 0
    then show ?thesis using Suc.prems by simp
  next
    case (Suc j)
    then have "fread n = ''''" using Suc.prems(2) by (metis add_0_right zero_less_Suc)
    moreover have "\<forall>j' < j. fread (Suc n + j') = ''''"
      using Suc.prems(2) Suc by (metis Suc_less_eq add_Suc_shift)
    ultimately show ?thesis
      using Suc.IH [of j "Suc n"] Suc.prems(1,3) Suc by simp
  qed
qed

lemma c_str_padded: "CHR 0x00 \<notin> set s \<Longrightarrow> 0 < n \<Longrightarrow> c_str (s @ replicate n CHR 0x00) = s"
  by (induction s; cases n) (auto simp: c_str_def)

definition example_ifaddrs :: "ifaddrs list" where
  "example_ifaddrs =
     [\<lparr>ifa_name = ''lo'', ifa_addr = Some (2, replicate 16 1)\<rparr>,
      \<lparr>ifa_name = ''eth0'', ifa_addr = None\<rparr>,
      \<lparr>ifa_name = ''eth0'', ifa_addr = Some (17, [])\<rparr>,
      \<lparr>ifa_name = ''eth0'', ifa_addr = Some (2, replicate 16 7)\<rparr>]"

section \<open>Properties\<close>

text \<open>
  One look at the interfaces sets both addresses to the last entry of the adapter's interface with
  that family, keeps them where there is none, and reports success for IPv4 only; the loopback
  interface is never taken. Without a name it fails its assertion, and an error of \<open>getifaddrs\<close>
  ends the program.
\<close>

theorem try_get_interface_ip_last:
  assumes "m_interface_name a \<noteq> ''''"
  shows "try_get_interface_ip (Some ifs) a =
      Inr (ipv4_here (m_interface_name a) ifs \<noteq> [],
        a\<lparr>m_interface_ip4 := latest (\<lambda>b. ip_of_sockaddr_in (sockaddr_in_of_bytes b))
              (ipv4_here (m_interface_name a) ifs) (m_interface_ip4 a),
          m_interface_ip6 := latest (\<lambda>b. ip_of_sockaddr_in6 (sockaddr_in6_of_bytes b))
              (ipv6_here (m_interface_name a) ifs) (m_interface_ip6 a)\<rparr>) \<and>
    try_get_interface_ip None a = Inl (Abort_call ''getifaddrs'') \<and>
    (\<exists>e. try_get_interface_ip answer (a\<lparr>m_interface_name := ''''\<rparr>) = Inl (Assert_fail e)) \<and>
    ipv4_here ''lo'' ifs = [] \<and> ipv6_here ''lo'' ifs = []"
  using assms
  by (simp add: try_get_interface_ip_eq entries_seen_def)
    (simp add: try_get_interface_ip_def here_lo)

theorem try_get_interface_ip_last_witness:
  "try_get_interface_ip (Some example_ifaddrs) (new_adapter ''eth0'' True) =
     Inr (True, (new_adapter ''eth0'' True)
       \<lparr>m_interface_ip4 := Some (ip_of_sockaddr_in (sockaddr_in_of_bytes (replicate 16 7)))\<rparr>)"
  using try_get_interface_ip_last [of "new_adapter ''eth0'' True" example_ifaddrs]
  by (simp add: example_ifaddrs_def new_adapter_def here_def List.map_filter_simps latest_def)

text \<open>
  C32. \<open>retrieve_interface_ip\<close> returns exactly when some answer has an IPv4 address of the interface,
  and then with the last such address of the first answer that has one. On the loopback interface,
  and on an interface that only ever gets an IPv6 address, it waits for ever.
\<close>

theorem retrieve_waits_for_ipv4:
  assumes "m_interface_name a \<noteq> ''''" and "m_interface_ip4 a = None"
  shows "(retrieve_interface_ip (\<lambda>i. Some (ifs i)) 0 a = None \<longleftrightarrow>
            (\<forall>k. ipv4_here (m_interface_name a) (ifs k) = [])) \<and>
         (m_interface_name a = ''lo'' \<longrightarrow> retrieve_interface_ip (\<lambda>i. Some (ifs i)) 0 a = None) \<and>
         (\<forall>d. ipv4_here (m_interface_name a) (ifs d) \<noteq> [] \<and>
              (\<forall>k < d. ipv4_here (m_interface_name a) (ifs k) = []) \<longrightarrow>
            (\<exists>a'. retrieve_interface_ip (\<lambda>i. Some (ifs i)) 0 a = Some (Inr a') \<and>
              m_interface_ip4 a' = Some (ip_of_sockaddr_in (sockaddr_in_of_bytes
                (last (ipv4_here (m_interface_name a) (ifs d)))))))"
proof -
  let ?no = "\<lambda>k. ipv4_here (m_interface_name a) (ifs k) = []"
  have finds: "\<exists>a'. retrieve_interface_ip (\<lambda>i. Some (ifs i)) 0 a = Some (Inr a') \<and>
      m_interface_ip4 a' = Some (ip_of_sockaddr_in (sockaddr_in_of_bytes
        (last (ipv4_here (m_interface_name a) (ifs d)))))" if "\<not> ?no d" "\<forall>k < d. ?no k" for d
    using retrieve_finds [OF assms(2,1), of ifs 0 d] that by auto
  have never: "retrieve_interface_ip (\<lambda>i. Some (ifs i)) 0 a = None" if "\<forall>k. ?no k"
  proof (rule ccontr)
    assume "retrieve_interface_ip (\<lambda>i. Some (ifs i)) 0 a \<noteq> None"
    then obtain r where "retrieve_interface_ip (\<lambda>i. Some (ifs i)) 0 a = Some r" by auto
    from retrieve_waits [OF this] show False using assms that by auto
  qed
  moreover have "\<forall>k. ?no k" if n: "retrieve_interface_ip (\<lambda>i. Some (ifs i)) 0 a = None"
  proof (rule ccontr)
    assume "\<not> (\<forall>k. ?no k)"
    then obtain d where "\<not> ?no d" "\<forall>k < d. ?no k" using exists_least_iff [of "\<lambda>k. \<not> ?no k"] by auto
    then show False using finds n by fastforce
  qed
  moreover have "?no k" if "m_interface_name a = ''lo''" for k
    using that by (simp add: here_lo)
  ultimately show ?thesis using finds by blast
qed

theorem retrieve_waits_for_ipv4_witness:
  "retrieve_interface_ip (\<lambda>i. Some example_ifaddrs) 0 (new_adapter ''lo'' True) = None \<and>
   (\<exists>a'. retrieve_interface_ip (\<lambda>i. Some (if i < 3 then [] else example_ifaddrs)) 0
           (new_adapter ''eth0'' True) = Some (Inr a') \<and>
      m_interface_ip4 a' = Some (ip_of_sockaddr_in (sockaddr_in_of_bytes (replicate 16 7))))"
proof
  show "retrieve_interface_ip (\<lambda>i. Some example_ifaddrs) 0 (new_adapter ''lo'' True) = None"
    using retrieve_waits_for_ipv4 [of "new_adapter ''lo'' True" "\<lambda>i. example_ifaddrs"]
    by (simp add: new_adapter_def)
  have "ipv4_here ''eth0'' [] = []" "ipv4_here ''eth0'' example_ifaddrs = [replicate 16 7]"
    by (simp_all add: example_ifaddrs_def here_def List.map_filter_simps)
  then show "\<exists>a'. retrieve_interface_ip (\<lambda>i. Some (if i < 3 then [] else example_ifaddrs)) 0
           (new_adapter ''eth0'' True) = Some (Inr a') \<and>
      m_interface_ip4 a' = Some (ip_of_sockaddr_in (sockaddr_in_of_bytes (replicate 16 7)))"
    using retrieve_waits_for_ipv4 [of "new_adapter ''eth0'' True"
        "\<lambda>i. if i < 3 then [] else example_ifaddrs"]
    by (auto simp: new_adapter_def dest!: spec [of _ 3])
qed

text \<open>
  The MAC address is what the kernel's file holds: a file with the text of an address and a line
  feed gives that address, where \<open>trim\<close> drops the line feed, and the address is kept, so that a
  later call returns it whatever the file holds by then. A file that does not open or stays empty
  ends the program; one that fills the whole buffer leaves it without a terminating NUL, and the
  string is then read past its end.
\<close>

theorem mac_address_read_once:
  assumes "mac_wf m" and "mac_opt a = None"
    and "trim (mac_to_string CHR '':'' m @ [CHR 0x0A]) = mac_to_string CHR '':'' m"
    and "fopen (mac_file_name a) = Some fread"
    and "i < 10" and "\<forall>j < i. fread j = ''''" and "fread i = mac_to_string CHR '':'' m @ [CHR 0x0A]"
  shows "get_my_mac_address trim fopen a = Inr (Some m, a\<lparr>mac_opt := Some m\<rparr>) \<and>
         get_my_mac_address trim fopen' (a\<lparr>mac_opt := Some m\<rparr>) = Inr (Some m, a\<lparr>mac_opt := Some m\<rparr>) \<and>
         get_my_mac_address trim (\<lambda>_. None) a = Inl (Abort_call ''failed to open'') \<and>
         get_my_mac_address trim (\<lambda>_. Some (\<lambda>_. '''')) a = Inl (Assert_fail ''num_bytes_read > 0'') \<and>
         get_my_mac_address trim (\<lambda>_. Some (\<lambda>_. replicate 128 CHR ''0'')) a =
           Inl (Undefined_behaviour ''buffer without a NUL'')"
proof -
  let ?t = "mac_to_string CHR '':'' m @ [CHR 0x0A]"
  have len: "length ?t < 128"
    using assms(1) length_join_hex [of "CHR '':''" "mac_bytes m"]
    by (simp add: mac_to_string_def mac_wf_def)
  then have "read_some 10 fread 0 = ?t"
    using read_some_first [of i 10 fread 0] assms(5-7) by simp
  moreover have "c_str (?t @ replicate (128 - length ?t) CHR 0x00) = ?t"
    using mac_text_no_nul [of m] len by (intro c_str_padded) auto
  moreover have "read_some 10 (\<lambda>_. '''') 0 = ''''"
    and "read_some 10 (\<lambda>_. replicate 128 CHR ''0'') 0 = replicate 128 CHR ''0''"
    by (simp_all add: eval_nat_numeral(3) numeral_eq_Suc)
  ultimately show ?thesis
    using assms(2-4) len mac_round_trip [OF assms(1)]
    by (simp add: get_my_mac_address_def Let_def)
qed

theorem mac_address_read_once_witness:
  "get_my_mac_address (takeWhile (\<lambda>c. c \<noteq> CHR 0x0A))
     (\<lambda>f. if f = ''/sys/class/net/eth0/address''
          then Some (\<lambda>i. if i = 0 then '''' else ''00:1a:2b:3c:4d:ff'' @ [CHR 0x0A]) else None)
     (new_adapter ''eth0'' False) =
   Inr (Some (mac_of_bytes 0 26 43 60 77 255),
     (new_adapter ''eth0'' False)\<lparr>mac_opt := Some (mac_of_bytes 0 26 43 60 77 255)\<rparr>)"
proof -
  have "mac_to_string CHR '':'' (mac_of_bytes 0 26 43 60 77 255) = ''00:1a:2b:3c:4d:ff''"
    by code_simp
  then show ?thesis
    by (intro mac_address_read_once [where i = 1 and
          fread = "\<lambda>i. if i = 0 then '''' else ''00:1a:2b:3c:4d:ff'' @ [CHR 0x0A]", THEN conjunct1])
      (simp_all add: mac_wf_def mac_of_bytes_def new_adapter_def mac_file_name_def)
qed

end
