(* ===== verification/Unit_Tests.thy ===== *)
theory Unit_Tests
  imports Work_Pool
begin

text \<open>
  The unit tests \<open>tests/test_sendpacket.cpp\<close> and \<open>tests/test_workpool.cpp\<close> run on the model: each
  test is a definition that makes the calls of its body in their order and checks what the body
  asserts. A failed check is the outcome \<open>Inl\<close> with its text; the operations' own assertions end
  a test in the same way. The mock ring of \<open>tests/iuring_mocks.hpp\<close> expects one \<open>submit\<close>, in which
  the test's lambda calls the item's callback back at once.

  The property says that all tests pass, whatever memory the objects are constructed in: the
  models of the packet, of the work items, of the pool and of the addresses agree with what the
  authors expect of the code.
\<close>

section \<open>The packet\<close>

definition expect :: "string \<Rightarrow> bool \<Rightarrow> unit outcome" where
  "expect what P = assert_that what P"

lemma expect_True [simp]: "expect what True = Inr ()"
  by (simp add: expect_def)

definition test_sp :: "(nat \<Rightarrow> u8) \<Rightarrow> unit outcome" where
  "test_sp raw =
     (let sp = fresh_packet raw in
     ebind (append_cstr (bytes_of_string ''hello'') sp) (\<lambda>sp.
     ebind (expect ''size'' (sp_size sp = 5)) (\<lambda>_.
     ebind (append_cstr [] sp) (\<lambda>sp.
     ebind (expect ''size'' (sp_size sp = 5)) (\<lambda>_.
     ebind (append_byte (of_char CHR ''a'') sp) (\<lambda>sp.
     ebind (expect ''size'' (sp_size sp = 5 + 1)) (\<lambda>_.
     ebind (expect ''to_string'' (sp_to_string sp = bytes_of_string ''helloa'')) (\<lambda>_.
     let sp = sp_reset sp in
     ebind (expect ''size'' (sp_size sp = 0)) (\<lambda>_.
     ebind (append_byte (of_char CHR ''a'') sp) (\<lambda>sp.
     ebind (append_uint16 (push_bit 8 (of_char CHR ''b'') OR of_char CHR ''c'') sp) (\<lambda>sp.
     ebind (append_uint32 (push_bit 24 (of_char CHR ''d'') OR push_bit 16 (of_char CHR ''e'') OR
              push_bit 8 (of_char CHR ''f'') OR of_char CHR ''g'') sp) (\<lambda>sp.
     expect ''to_string'' (sp_to_string sp = bytes_of_string ''abcdefg'')))))))))))))"

section \<open>The pool\<close>

text \<open>The fixture: what the two flags say, the mock socket and the mock ring.\<close>

record wp_fixture =
  seen_submit :: bool
  seen_callback :: bool

definition wp_start :: wp_fixture where
  "wp_start = \<lparr>seen_submit = False, seen_callback = False\<rparr>"

definition wp_socket :: isocket where
  "wp_socket = \<lparr>sock_type = IPV4_TCP, sock_port = LOCAL_WEB_PORT,
     sock_kind = UNICAST_CLIENT_SOCKET, sock_fd = 42\<rparr>"

definition mock_submit ::
  "work_type \<Rightarrow> (work_item \<Rightarrow> (nat \<times> cb_event) outcome) \<Rightarrow>
     (cb_event \<Rightarrow> wp_fixture \<Rightarrow> wp_fixture outcome) \<Rightarrow> wp_fixture io_submit" where
  "mock_submit t call lambda item io =
     ebind (expect ''WillOnce'' (\<not> seen_submit io)) (\<lambda>_.
     ebind (expect ''item.get_type()'' (wi_get_type item = t)) (\<lambda>_.
     let io = io\<lparr>seen_submit := True\<rparr> in
     ebind (call item) (\<lambda>(f, e).
     ebind (lambda e io) (\<lambda>io. Inr (item, io)))))"

definition test_wp_accept :: "raw_memory \<Rightarrow> unit outcome" where
  "test_wp_accept raw =
     (let call = wi_call_accept_callback \<lparr>m_new_fd = 12345, m_address = ip_default\<rparr>;
          lambda = (\<lambda>e io. case e of
            Ev_accept result \<Rightarrow>
              ebind (expect ''result.m_new_fd'' (m_new_fd result = 12345))
                (\<lambda>_. Inr (io\<lparr>seen_callback := True\<rparr>))
          | _ \<Rightarrow> Inl Bad_function_call) in
     ebind (expect ''socket->get_fd()'' (get_fd wp_socket = 42)) (\<lambda>_.
     ebind (alloc_accept_work_item (mock_submit Type_ACCEPT call lambda) raw wp_socket (Some 0)
              ''test-accept'' new_pool wp_start) (\<lambda>(a, wp, io).
     let item = wp_heap wp ! a in
     ebind (expect ''seen_submit'' (seen_submit io)) (\<lambda>_.
     ebind (expect ''seen_callback'' (seen_callback io)) (\<lambda>_.
     ebind (expect ''item->get_type()'' (wi_get_type item = Type_ACCEPT)) (\<lambda>_.
     ebind (expect ''item->get_socket()'' (wi_get_socket item = wp_socket)) (\<lambda>_.
     ebind (expect ''item->get_type_str()'' (wi_get_type_str item = ''accept'')) (\<lambda>_.
     ebind (expect ''get_work_item'' (get_work_item (wi_get_id item) wp = Inr (Some a))) (\<lambda>_.
     ebind (free_work_item (wi_get_id item) wp) (\<lambda>wp.
     let item = wp_heap wp ! a in
     ebind (expect ''get_work_item'' (get_work_item (wi_get_id item) wp = Inr None)) (\<lambda>_.
     expect ''free_work_item''
       (free_work_item (wi_get_id item) wp = Inl (Assert_fail ''work_item != nullptr'')))))))))))))"

definition test_wp_close :: "errno_fun \<Rightarrow> raw_memory \<Rightarrow> unit outcome" where
  "test_wp_close errno_to_error raw =
     (let lambda = (\<lambda>e io. case e of
            Ev_close result \<Rightarrow>
              ebind (expect ''status'' (close_to_expected errno_to_error result = Inr 12321))
                (\<lambda>_. Inr io)
          | _ \<Rightarrow> Inl Bad_function_call) in
     ebind (alloc_close_work_item (mock_submit Type_CLOSE (wi_call_close_callback 12321) lambda) raw
              wp_socket (Some 0) ''test-close'' new_pool wp_start) (\<lambda>(a, wp, io).
     let item = wp_heap wp ! a in
     ebind (expect ''seen_submit'' (seen_submit io)) (\<lambda>_.
     ebind (expect ''item->get_socket()'' (wi_get_socket item = wp_socket)) (\<lambda>_.
     expect ''item->get_type_str()'' (wi_get_type_str item = ''close'')))))"

definition test_wp_connect ::
  "errno_fun \<Rightarrow> ntop6_fun \<Rightarrow> sockaddr_in \<Rightarrow> raw_memory \<Rightarrow> unit outcome" where
  "test_wp_connect errno_to_error ntop6 stack raw =
     ebind (string_to_ipv4_address ''9.8.7.6'') (\<lambda>peer.
     let addr = ip_of_in_addr stack peer ENCRYPTED_WEB_PORT;
         call = wi_call_connect_callback \<lparr>connect_status = 0, connect_address = addr\<rparr>;
         lambda = (\<lambda>e io. case e of
            Ev_connect connection_result \<Rightarrow>
              (case connect_to_expected errno_to_error connection_result of
                 Inl err \<Rightarrow> Inl (Assert_fail ''status.has_value()'')
               | Inr result \<Rightarrow>
                   ebind (expect ''ip string'' (to_human_readable_ip_string ntop6 result = ''9.8.7.6''))
                     (\<lambda>_. Inr io))
          | _ \<Rightarrow> Inl Bad_function_call) in
     ebind (string_to_ipv4_address ''1.2.3.4'') (\<lambda>target.
     ebind (alloc_connect_work_item (mock_submit Type_CONNECT call lambda) raw
              (ip_of_in_addr stack target ENCRYPTED_WEB_PORT) wp_socket (Some 0) ''test-conn''
              new_pool wp_start) (\<lambda>(a, wp, io).
     let item = wp_heap wp ! a in
     ebind (expect ''seen_submit'' (seen_submit io)) (\<lambda>_.
     ebind (expect ''item->get_socket()'' (wi_get_socket item = wp_socket)) (\<lambda>_.
     expect ''item->get_type_str()'' (wi_get_type_str item = ''connect''))))))"

section \<open>They pass\<close>

lemma test_text:
  "string_to_ipv4_address ''9.8.7.6'' = Inr 0x06070809"
  "string_to_ipv4_address ''1.2.3.4'' = Inr 0x04030201"
  "inet_ntop4 0x06070809 128 = Some ''9.8.7.6''"
  by code_simp+

definition holds :: "send_packet \<Rightarrow> bytes \<Rightarrow> bool" where
  "holds p bs \<longleftrightarrow> sp_inv p \<and> sp_contents p = bs \<and> length bs < 4096"

lemma holds_append:
  assumes "holds p bs" and "length bs + length d < 4096"
  obtains q where "append_raw d p = Inr q" and "holds q (bs @ d)"
  using assms sp.app_fits [of p d] sp.app_inv [of p d] sp.app_contents [of p d]
  by (auto simp: holds_def sp_capacity_def)

lemma holds_read:
  assumes "holds p bs"
  shows "sp_to_string p = bs" and "sp_size p = word_of_nat (length bs)" and "holds (sp_reset p) []"
  using assms length_sp_contents [of p]
  by (auto simp: holds_def sp_to_string_contents sp_size_def sp_reset_inv)

lemma test_bytes:
  "takeWhile (\<lambda>b. b \<noteq> 0) (bytes_of_string ''hello'') = bytes_of_string ''hello''"
  "bytes_of_string ''hello'' @ [of_char CHR ''a''] = bytes_of_string ''helloa''"
  "(let v = push_bit 8 (of_char CHR ''b'') OR of_char CHR ''c'' :: u16;
        w = push_bit 24 (of_char CHR ''d'') OR push_bit 16 (of_char CHR ''e'') OR
              push_bit 8 (of_char CHR ''f'') OR of_char CHR ''g'' :: u32
    in [of_char CHR ''a''] @ [ucast (drop_bit 8 v), ucast v] @
       [ucast (drop_bit 24 w), ucast (drop_bit 16 w), ucast (drop_bit 8 w), ucast w]) =
     bytes_of_string ''abcdefg''"
  by code_simp+

lemma test_sp: "test_sp raw = Inr ()"
proof -
  have p0: "holds (fresh_packet raw) []" by (simp add: holds_def)
  obtain p1 where p1: "append_raw (bytes_of_string ''hello'') (fresh_packet raw) = Inr p1"
    "holds p1 (bytes_of_string ''hello'')"
    by (rule holds_append [OF p0, of "bytes_of_string ''hello''"]) simp_all
  obtain p2 where p2: "append_raw [] p1 = Inr p2" "holds p2 (bytes_of_string ''hello'')"
    by (rule holds_append [OF p1(2), of "[]"]) simp_all
  obtain p3 where p3: "append_raw [of_char CHR ''a''] p2 = Inr p3" "holds p3 (bytes_of_string ''helloa'')"
    by (rule holds_append [OF p2(2), of "[of_char CHR ''a'']"]) (simp_all add: test_bytes(2) [simplified])
  obtain p4 where p4: "append_raw [of_char CHR ''a''] (sp_reset p3) = Inr p4" "holds p4 [of_char CHR ''a'']"
    by (rule holds_append [OF holds_read(3) [OF p3(2)], of "[of_char CHR ''a'']"]) simp_all
  let ?v = "push_bit 8 (of_char CHR ''b'') OR of_char CHR ''c'' :: u16"
  let ?w = "push_bit 24 (of_char CHR ''d'') OR push_bit 16 (of_char CHR ''e'') OR
              push_bit 8 (of_char CHR ''f'') OR of_char CHR ''g'' :: u32"
  obtain p5 where p5: "append_uint16 ?v p4 = Inr p5"
    "holds p5 ([of_char CHR ''a''] @ [ucast (drop_bit 8 ?v), ucast ?v])"
    unfolding append_uint16_raw
    by (rule holds_append [OF p4(2), of "[ucast (drop_bit 8 ?v), ucast ?v]"]) simp_all
  obtain p6 where p6: "append_uint32 ?w p5 = Inr p6" "holds p6 (bytes_of_string ''abcdefg'')"
    unfolding append_uint32_raw
    by (rule holds_append [OF p5(2), of "[ucast (drop_bit 24 ?w), ucast (drop_bit 16 ?w),
          ucast (drop_bit 8 ?w), ucast ?w]"]) (use test_bytes(3) in \<open>simp_all add: Let_def\<close>)
  note r = holds_read [OF p1(2)] holds_read [OF p2(2)] holds_read [OF p3(2)]
    holds_read(2) [OF holds_read(3) [OF p3(2)]] holds_read [OF p6(2)]
  show ?thesis
    using p1(1) p2(1) p3(1) p4(1) p5(1) p6(1) r
    by (simp add: test_sp_def append_cstr_def append_byte_def test_bytes(1) Let_def)
qed

lemma test_wp_accept: "test_wp_accept raw = Inr ()"
  by (simp add: test_wp_accept_def alloc_accept_work_item_def internal_alloc_work_item_def new_pool_def
      on_item_def wi_submit_accept_def mock_submit_def wi_call_accept_callback_def invoke_def
      wp_start_def wp_socket_def get_fd_def is_free_def heap_write_def wi_get_type_str_def
      get_work_item_def free_work_item_def mark_is_free_def Let_def)

lemma test_wp_close: "test_wp_close errno_to_error raw = Inr ()"
  by (simp add: test_wp_close_def alloc_close_work_item_def internal_alloc_work_item_def new_pool_def
      on_item_def wi_submit_close_def mock_submit_def wi_call_close_callback_def invoke_def
      wp_start_def is_free_def heap_write_def wi_get_type_str_def close_to_expected_def Let_def)

lemma test_wp_connect: "test_wp_connect errno_to_error ntop6 stack raw = Inr ()"
  by (simp add: test_wp_connect_def test_text alloc_connect_work_item_def internal_alloc_work_item_def
      new_pool_def on_item_def wi_submit_connect_def mock_submit_def wi_call_connect_callback_def
      invoke_def wp_start_def is_free_def heap_write_def wi_get_type_str_def connect_to_expected_def
      ip_of_in_addr_fields size_sockaddr_def data_sockaddr_def to_human_readable_ip_string_def
      or_invalid_def Let_def)

section \<open>Properties\<close>

text \<open>
  The unit tests of the repository pass on the model: the packet test, and the three tests of the pool
  with the mock ring, among them that a released id finds nothing and that releasing it again
  fails the null assertion. The uninitialised memory of the objects, \<open>errno_to_error\<close> and
  \<open>inet_ntop\<close> for IPv6 do not matter.
\<close>

theorem unit_tests_pass:
  "test_sp raw = Inr () \<and> test_wp_accept mem = Inr () \<and> test_wp_close errno_to_error mem = Inr () \<and>
     test_wp_connect errno_to_error ntop6 stack mem = Inr ()"
  by (simp add: test_sp test_wp_accept test_wp_close test_wp_connect)

end
