(* ===== verification/Spec2Isabelle.thy ===== *)
theory Spec2Isabelle
  imports Ping Buffer_Custody Application Resolver_Reentry Poll_Reentry Net_Adapter Unit_Tests
begin

text \<open>
  A model of \<open>iouring-interface\<close>, a C++ library that gives programs sockets on top of Linux's
  \<open>io_uring\<close>: a client asks for a connect, accept, receive, send or close and passes a function
  that is called with the result when it polls the completion queue.

  The program and its parts.
  A request is a \<open>WorkItem\<close>. The \<open>WorkPool\<close> keeps the items in use in a table of slots with a stack
  of free numbers; the number of the slot is the user data of the submission queue entry and comes
  back with the completion. \<open>IOUring::submit\<close> turns an item into an entry, \<open>poll_completion_queues\<close>
  looks up the item of a completion, calls its function and releases the item or submits it again.
  Receptions select one of the buffers the library has provided in a ring of their own. Beside
  this core there are sockets (\<open>SocketImpl\<close>), addresses, the packet a send fills, the probe for the
  kernel's operations, name resolution by \<open>getaddrinfo_a\<close>, and the adapter that finds the addresses
  of a network interface.

  How the code is modelled.
  Integers are words of their width. A call that may fail an \<open>assert\<close>, abort, exit, throw or
  reach undefined behaviour returns an \<open>outcome\<close>, the fault or the value. The pool is a table of
  addresses into a heap of items that only grows, so two references to an item see each other's
  changes, as with \<open>shared_ptr\<close>. Everything the code asks of the kernel, of \<open>liburing\<close> and of
  the C library is one element of a trace, newest first; the answers are functions of the trace in
  a record \<open>world\<close> that is an argument of the definitions, so a theorem holds for every behaviour of
  the kernel unless it names a hypothesis on the world. User code, the functions passed as
  callbacks and what runs between two polls, is a \<open>prog\<close>, a tree of calls to the interface, and a
  \<open>client\<close> says which program a callback runs, given all that has happened so far.

  Theories and the files they model (under \<open>src/\<close>).
  \<^item> \<open>Iouring_Prelude\<close>, \<open>Linux_Abi\<close>: shared types and lemmas on faults, bytes and words; constants
    and structures of the C library and the kernel interface.
  \<^item> \<open>Send_Packet\<close>: \<open>include/iuring/SendPacket.hpp\<close>. Appending is list append within the capacity.
  \<^item> \<open>Net_Protocols\<close>, \<open>Inet_Text\<close>, \<open>Ip_Address\<close>, \<open>Mac_Address\<close>: \<open>include/iuring/NetworkProtocols.hpp\<close>,
    \<open>SocketPortID.hpp\<close>, \<open>IPAddress.hpp\<close>, \<open>MacAddress.hpp\<close> and \<open>src/IPAddress.cpp\<close>. Printing and
    reading IPv4 addresses are inverse; comparison; \<open>ip_typed\<close>, the addresses with one family that
    their family field names: who makes them, and that no accessor aborts on them.
  \<^item> \<open>Completion_Results\<close>, \<open>Io_World\<close>: \<open>CompletionCallbacks.hpp\<close>, \<open>ReceivedMessage.hpp\<close>, and the
    boundary to the environment.
  \<^item> \<open>Work_Item\<close>, \<open>Work_Pool\<close>: \<open>src/WorkItem.hpp\<close>, \<open>src/WorkItem.cpp\<close>, \<open>IWorkItem.hpp\<close>,
    \<open>src/WorkPool.hpp\<close>, \<open>src/WorkPool.cpp\<close>. The header of a datagram with its control messages; the
    pool as a finite map; how large its table gets. The locale \<open>slot_registry\<close> is the contract of
    a store of numbered objects and \<open>ring_submitter\<close> that of the ring an item is submitted to;
    both are interpreted on the code's model.
  \<^item> \<open>Ring_Submit\<close>: \<open>get_sqe\<close>, \<open>submit\<close> and its branches in \<open>src/IOUring.cpp\<close>. An abstract
    \<open>request\<close> is what the kernel is asked for; \<open>submit\<close> refines it. Its error cases are complete.
  \<^item> \<open>Buffer_Ring\<close>: \<open>setup_buffer_pool\<close>, \<open>get_buffer\<close>, recycling. Where buffers lie and which of
    them the kernel gets.
  \<^item> \<open>Uring_Features\<close>: \<open>src/ProbeUringFeatures.hpp\<close>, \<open>include/iuring/UringDefs.hpp\<close>, \<open>probe_features\<close>.
  \<^item> \<open>Sockets\<close>: \<open>src/SocketImpl.cpp\<close>, \<open>src/SocketImpl.hpp\<close>, \<open>include/iuring/ISocket.hpp\<close>,
    \<open>include/iuring/SocketFactoryImpl.hpp\<close>. The system calls of each kind of socket in their order.
  \<^item> \<open>Ring_Client\<close>: \<open>src/IOUring.hpp\<close>, the constructor, \<open>init\<close> and the \<open>submit_*\<close> operations, and client
    programs. \<open>run_prog_induct\<close> is the induction over a program's run that the later theories use;
    \<open>run_prog_ext\<close> says what client code can change.
  \<^item> \<open>Ring_Dispatch\<close>, \<open>Ring_Lifecycle\<close>: the completion side of \<open>src/IOUring.cpp\<close>, the step relation
    \<open>ring_step\<close> with its reachable states, and what each kind of completion does, errors included. The
    dispatch is given what calling a function does, a \<open>runner\<close>; for a client it is \<open>client_run\<close>.
  \<^item> \<open>Request_Ownership\<close>: the slot of an outstanding entry belongs to the item it was made from
    (\<open>tracked\<close>, a history of the entries the kernel holds), so completions reach their requesters.
    The kernel completes what it holds, a reception of datagrams as often as it flags that more
    will come; the functions given to such receptions, the set \<open>D\<close>, ask to receive again.
  \<^item> \<open>Buffer_Custody\<close>: who holds each receive buffer. \<open>custody\<close> adds to that history the buffers the
    kernel holds and the completions it has posted; together they are the buffers provided.
  \<^item> \<open>Request_Policy\<close>: everything submitted and every callback run goes back to a request of a
    client (\<open>governed\<close>).
  \<^item> \<open>Ring_Progress\<close>: requests that get through and completions that are handled, for a kernel that
    grants queue entries and completes what it was given (\<open>prompt\<close>).
  \<^item> \<open>Poll_Reentry\<close>: callbacks that call \<open>poll_completion_queues\<close> themselves, and what becomes of the
    completion that is being handled then; the properties are about close, connect and send requests.
  \<^item> \<open>Echo_Server\<close>, \<open>Ping\<close>: \<open>tests/echo_server.cpp\<close> and \<open>tests/ping.cpp\<close>, two clients on top of it all:
    what the first can ever ask for, and that the second, from its command line on, finishes.
  \<^item> \<open>Host_Resolver\<close>: \<open>resolve_hostname\<close> and the notification of \<open>getaddrinfo_a\<close>. \<open>resolver_inv\<close> is kept
    by both; who is answered and who is not; answers are typed addresses.
  \<^item> \<open>Connect_By_Name\<close>, \<open>Application\<close>: name resolution, addresses and the ring together. Handlers are
    programs, run where the code calls them; \<open>app_run\<close> mixes requests, polls, look-ups and
    notifications.
  \<^item> \<open>Resolver_Reentry\<close>: handlers that call \<open>resolve_hostname\<close> themselves, for which the loops of the
    notification keep their place in the vectors: when such calls return, and when a vector grows
    under the loop over it.
  \<^item> \<open>Net_Adapter\<close>: \<open>include/iuring/NetworkAdapter.hpp\<close> and \<open>src/IOUringInterface.cpp\<close>.
  \<^item> \<open>Unit_Tests\<close>: \<open>tests/test_sendpacket.cpp\<close> and \<open>tests/test_workpool.cpp\<close> run on the model.

  What the lemmas show.
  Invariants: \<open>sp_inv\<close>, \<open>wi_inv\<close>, \<open>pool_inv\<close>, \<open>ring_inv\<close>, \<open>resolver_inv\<close>, each kept by every operation;
  on top of them \<open>owns\<close>, \<open>in_custody\<close> and \<open>policed\<close> for whole runs. Refinement: packet to byte list,
  pool to map, \<open>submit\<close> to requests. Error behaviour: which fault each check gives and when. Several properties state
  what the code does where it is not what it means to do; the theorem then shows the consequence
  for a client.

  Bounds and fuel.
  One poll handles at most one completion, and a program is a finite tree, so nothing of the core
  needs fuel. In \<open>Poll_Reentry\<close> the fuel is the call stack: a callback that polls takes a frame,
  running out of them is a fault, and the properties hold for every depth. \<open>retrieve_interface_ip\<close>
  is a \<open>partial_function\<close>, since the wait for an address may never end, and so are the loop of \<open>Ping\<close>
  and \<open>run_asks\<close>, since a handler may resolve for ever; their properties say when they do end.
  \<open>parse_cmsgs\<close> has a measure. Numbers of slots, the length of lists and file descriptors are
  unbounded in the model; sizes the code compares or stores in a fixed width are words.

  Not modelled.
  \<^item> Threads: \<open>getaddrinfo_a\<close>'s notification runs on a thread of its own in the code and as one more
    operation of the sequence here; the pool's recursive mutex is left out.
  \<^item> The kernel, \<open>liburing\<close> and \<open>slogger\<close>: the world, or left out where they only log. The kernel's
    stores into an item's memory are seen when the completion is, not before.
  \<^item> A callback that both resolves names and makes requests (\<open>Resolver_Reentry\<close> and \<open>Application\<close>
    each have one half); destructors and the release of memory.
  \<^item> The logger arguments and the log lines; abstract classes without code.
\<close>

end
